(* ===== verification/Prelude.thy ===== *)
theory Prelude
  imports Main "HOL-Library.Word" "HOL-Library.Code_Target_Nat" "HOL-Library.Multiset"
begin

text \<open>
  What every component of the model shares: the machine integers of the Rust code, its panics
  as values, and the operations of \<open>std::vec::Vec\<close> and of slices that the code uses
  (\<open>get\<close>, \<open>resize\<close>, \<open>drain(0..k)\<close>, the stable \<open>sort_by\<close>), with the lemmas the component
  theories rest on. Unsigned integers whose bit patterns matter are words; \<open>usize\<close> and
  \<open>u32\<close> counts and indices are \<open>nat\<close>; \<open>i64\<close> is \<open>int\<close> with the wrap-around and the
  saturation written out.
\<close>

named_theorems inv_intros \<open>introduction rules for the components' invariants\<close>
named_theorems list_ops \<open>characterisations of the vector operations\<close>

type_synonym u32 = "32 word"
type_synonym u64 = "64 word"
type_synonym u128 = "128 word"

subsection \<open>Signed 64-bit integers\<close>

definition I64_MAX :: int where "I64_MAX = 9223372036854775807"
definition I64_MIN :: int where "I64_MIN = - 9223372036854775808"

definition i64_ok :: "int \<Rightarrow> bool" where
  "i64_ok i \<longleftrightarrow> I64_MIN \<le> i \<and> i \<le> I64_MAX"

text \<open>Release arithmetic wraps; \<open>saturating_add\<close> and \<open>saturating_sub\<close> clip.\<close>

definition i64_wrap :: "int \<Rightarrow> int" where
  "i64_wrap i = (i + 9223372036854775808) mod 18446744073709551616 - 9223372036854775808"

definition i64_sat :: "int \<Rightarrow> int" where
  "i64_sat i = max I64_MIN (min I64_MAX i)"

text \<open>Rust's \<open>/\<close> truncates towards zero.\<close>

definition i64_div :: "int \<Rightarrow> int \<Rightarrow> int" where
  "i64_div a b = i64_wrap (sgn a * sgn b * (\<bar>a\<bar> div \<bar>b\<bar>))"

lemma i64_wrap_ok [simp]: "i64_ok (i64_wrap i)"
proof -
  have "0 \<le> (i + 9223372036854775808) mod 18446744073709551616"
    "(i + 9223372036854775808) mod 18446744073709551616 < 18446744073709551616" by simp_all
  then show ?thesis unfolding i64_ok_def i64_wrap_def I64_MIN_def I64_MAX_def by linarith
qed

lemma i64_wrap_id: "i64_ok i \<Longrightarrow> i64_wrap i = i"
  by (simp add: i64_ok_def i64_wrap_def I64_MIN_def I64_MAX_def mod_pos_pos_trivial)

lemma i64_sat_ok [simp]: "i64_ok (i64_sat i)"
  by (simp add: i64_ok_def i64_sat_def I64_MIN_def I64_MAX_def)

lemma i64_sat_id: "i64_ok i \<Longrightarrow> i64_sat i = i"
  by (simp add: i64_ok_def i64_sat_def)

lemma div_le_dividend_int: "0 \<le> a \<Longrightarrow> 0 < b \<Longrightarrow> a div b \<le> (a::int)"
  using zdiv_mono2[of a 1 b] by simp

lemma i64_div_pos:
  assumes "0 \<le> a" "i64_ok a" "0 < b"
  shows "i64_div a b = a div b"
proof -
  have "0 \<le> a div b" "a div b \<le> a"
    using assms by (simp_all add: pos_imp_zdiv_nonneg_iff div_le_dividend_int)
  then have "i64_ok (a div b)" using assms unfolding i64_ok_def I64_MIN_def by linarith
  then show ?thesis using assms by (auto simp: i64_div_def i64_wrap_id sgn_if)
qed

subsection \<open>Panics\<close>

text \<open>The ways the modelled code panics; \<open>panic + 'a\<close> is a computation that may.\<close>

datatype panic =
    Assert_failed
  | Unwrap_failed
  | Expect_failed
  | Index_out_of_bounds
  | Clamp_bad_bounds
  | Rem_by_zero
  | Blackbox_panic

type_synonym 'a res = "panic + 'a"

fun res_bind :: "'a res \<Rightarrow> ('a \<Rightarrow> 'b res) \<Rightarrow> 'b res" where
  "res_bind (Inl p) f = Inl p"
| "res_bind (Inr x) f = f x"

fun res_map :: "('a \<Rightarrow> 'b res) \<Rightarrow> 'a list \<Rightarrow> 'b list res" where
  "res_map f [] = Inr []"
| "res_map f (x # xs) =
     (case f x of Inl p \<Rightarrow> Inl p
      | Inr y \<Rightarrow> (case res_map f xs of Inl p \<Rightarrow> Inl p | Inr ys \<Rightarrow> Inr (y # ys)))"

text \<open>Inverting the nested cases of fallible code.\<close>

lemma case_Some_iff: "(case x of None \<Rightarrow> None | Some y \<Rightarrow> f y) = Some z \<longleftrightarrow> (\<exists>y. x = Some y \<and> f y = Some z)"
  by (cases x) auto

lemma case_Inr_Some_iff:
  "(case x of None \<Rightarrow> Inr None | Some y \<Rightarrow> f y) = Inr (Some z) \<longleftrightarrow> (\<exists>y. x = Some y \<and> f y = Inr (Some z))"
  by (cases x) auto

lemma if_Inr_None_iff: "(if b then Inr None else r) = Inr (Some z) \<longleftrightarrow> \<not> b \<and> r = Inr (Some z)"
  by simp

lemma if_None_iff: "(if b then None else r) = Some z \<longleftrightarrow> \<not> b \<and> r = Some z"
  by simp

lemmas case_inv = case_Some_iff case_Inr_Some_iff if_Inr_None_iff if_None_iff

lemma res_bind_Inr: "res_bind r f = Inr y \<longleftrightarrow> (\<exists>x. r = Inr x \<and> f x = Inr y)"
  by (cases r) auto

lemma res_map_Inr: "res_map f xs = Inr ys \<longleftrightarrow> list_all2 (\<lambda>x y. f x = Inr y) xs ys"
proof (induction xs arbitrary: ys)
  case (Cons x xs)
  show ?case by (auto simp: list_all2_Cons1 simp flip: Cons.IH split: sum.splits)
qed auto

lemma res_map_Inr_all: "\<forall>x \<in> set xs. f x = Inr (g x) \<Longrightarrow> res_map f xs = Inr (map g xs)"
  by (induction xs) auto

lemma res_map_total: "(\<And>x. x \<in> set xs \<Longrightarrow> \<exists>y. f x = Inr y \<and> P y) \<Longrightarrow> \<exists>ys. res_map f xs = Inr ys \<and> (\<forall>y \<in> set ys. P y)"
proof (induction xs)
  case (Cons x xs)
  from Cons.prems[of x] obtain y where y: "f x = Inr y" "P y" by auto
  from Cons.IH Cons.prems obtain ys where "res_map f xs = Inr ys" "\<forall>y \<in> set ys. P y" by auto
  with y show ?case by simp
qed simp

subsection \<open>Vectors\<close>

definition get :: "'a list \<Rightarrow> nat \<Rightarrow> 'a option" where
  "get xs i = (if i < length xs then Some (xs ! i) else None)"

definition get_or :: "'a \<Rightarrow> 'a list \<Rightarrow> nat \<Rightarrow> 'a" where
  "get_or d xs i = (if i < length xs then xs ! i else d)"

definition resize :: "nat \<Rightarrow> 'a \<Rightarrow> 'a list \<Rightarrow> 'a list" where
  "resize n d xs = take n xs @ replicate (n - length xs) d"

definition drain_to_cap :: "nat \<Rightarrow> 'a list \<Rightarrow> 'a list" where
  "drain_to_cap cap xs = (if length xs > cap then drop (length xs - cap) xs else xs)"

lemma get_Some [simp]: "get xs i = Some x \<longleftrightarrow> i < length xs \<and> xs ! i = x"
  by (auto simp: get_def)

lemma get_None [simp]: "get xs i = None \<longleftrightarrow> length xs \<le> i"
  by (auto simp: get_def)

lemma get_or_in [simp]: "i < length xs \<Longrightarrow> get_or d xs i = xs ! i"
  and get_or_out [simp]: "length xs \<le> i \<Longrightarrow> get_or d xs i = d"
  by (simp_all add: get_or_def)

lemma length_resize [simp, list_ops]: "length (resize n d xs) = n"
  by (simp add: resize_def)

lemma nth_resize [list_ops]: "i < n \<Longrightarrow> resize n d xs ! i = (if i < length xs then xs ! i else d)"
  by (simp add: resize_def nth_append)

lemma length_drain_to_cap [list_ops]: "length (drain_to_cap cap xs) = min cap (length xs)"
  by (simp add: drain_to_cap_def)

lemma set_drain_to_cap: "set (drain_to_cap cap xs) \<subseteq> set xs"
  by (simp add: drain_to_cap_def set_drop_subset)

lemma drain_to_cap_snoc: "0 < c \<Longrightarrow> drain_to_cap c (drain_to_cap c xs @ [y]) = drain_to_cap c (xs @ [y])"
  by (auto simp: drain_to_cap_def Suc_diff_le)

subsection \<open>Stable sorting\<close>

text \<open>
  \<open>slice::sort_by\<close>: a stable sort by a comparator, here \<open>le a b\<close> for \<open>cmp(a, b) != Greater\<close>.
\<close>

fun insert_by :: "('a \<Rightarrow> 'a \<Rightarrow> bool) \<Rightarrow> 'a \<Rightarrow> 'a list \<Rightarrow> 'a list" where
  "insert_by le x [] = [x]"
| "insert_by le x (y # ys) = (if le x y then x # y # ys else y # insert_by le x ys)"

fun sort_by :: "('a \<Rightarrow> 'a \<Rightarrow> bool) \<Rightarrow> 'a list \<Rightarrow> 'a list" where
  "sort_by le [] = []"
| "sort_by le (x # xs) = insert_by le x (sort_by le xs)"

lemma mset_insert_by [simp]: "mset (insert_by le x ys) = add_mset x (mset ys)"
  by (induction ys) auto

lemma mset_sort_by [simp]: "mset (sort_by le xs) = mset xs"
  by (induction xs) auto

lemma set_insert_by [simp]: "set (insert_by le x ys) = insert x (set ys)"
  by (metis mset_insert_by set_mset_add_mset_insert set_mset_mset)

lemma set_sort_by [simp]: "set (sort_by le xs) = set xs"
  by (metis mset_sort_by set_mset_mset)

lemma length_sort_by [simp]: "length (sort_by le xs) = length xs"
  by (metis mset_sort_by size_mset)

lemma sorted_insert_by:
  assumes "\<And>a b. a \<in> insert x (set ys) \<Longrightarrow> b \<in> insert x (set ys) \<Longrightarrow> le a b \<or> le b a"
    and "\<And>a b c. a \<in> insert x (set ys) \<Longrightarrow> b \<in> insert x (set ys) \<Longrightarrow> c \<in> insert x (set ys) \<Longrightarrow>
      le a b \<Longrightarrow> le b c \<Longrightarrow> le a c"
    and "sorted_wrt le ys"
  shows "sorted_wrt le (insert_by le x ys)"
  using assms
proof (induction ys)
  case Nil
  show ?case by simp
next
  case (Cons y ys)
  have tot: "le y x" if "\<not> le x y" using Cons.prems(1)[of x y] that by auto
  have tr: "le x z" if "le x y" "z \<in> set ys" for z
    using Cons.prems(2)[of x y z] Cons.prems(3) that by auto
  have "sorted_wrt le (insert_by le x ys)"
  proof (rule Cons.IH)
    show "le a b \<or> le b a" if "a \<in> insert x (set ys)" "b \<in> insert x (set ys)" for a b
      using Cons.prems(1)[of a b] that by auto
    show "le a c" if "a \<in> insert x (set ys)" "b \<in> insert x (set ys)" "c \<in> insert x (set ys)" "le a b" "le b c" for a b c
      using Cons.prems(2)[of a b c] that by auto
    show "sorted_wrt le ys" using Cons.prems(3) by simp
  qed
  with Cons.prems(3) tot tr show ?case by auto
qed

lemma sorted_sort_by:
  assumes "\<And>a b. a \<in> set xs \<Longrightarrow> b \<in> set xs \<Longrightarrow> le a b \<or> le b a"
    and "\<And>a b c. a \<in> set xs \<Longrightarrow> b \<in> set xs \<Longrightarrow> c \<in> set xs \<Longrightarrow> le a b \<Longrightarrow> le b c \<Longrightarrow> le a c"
  shows "sorted_wrt le (sort_by le xs)"
proof -
  have "set ys \<subseteq> set xs \<Longrightarrow> sorted_wrt le (sort_by le ys)" for ys
  proof (induction ys)
    case (Cons y ys)
    then have sub: "insert y (set (sort_by le ys)) \<subseteq> set xs" by simp
    show ?case unfolding sort_by.simps
    proof (rule sorted_insert_by)
      show "le a b \<or> le b a" if "a \<in> insert y (set (sort_by le ys))" "b \<in> insert y (set (sort_by le ys))" for a b
        using assms(1)[of a b] that sub by blast
      show "le a c" if "a \<in> insert y (set (sort_by le ys))" "b \<in> insert y (set (sort_by le ys))"
        "c \<in> insert y (set (sort_by le ys))" "le a b" "le b c" for a b c
        using assms(2)[of a b c] that sub by blast
      show "sorted_wrt le (sort_by le ys)" using Cons by simp
    qed
  qed simp
  then show ?thesis by simp
qed

subsection \<open>Ordered maps\<close>

text \<open>A \<open>BTreeMap\<close> as its entries in key order; \<open>bt_upsert\<close> is \<open>entry(k).or_insert(d)\<close> followed by an update.\<close>

fun bt_upsert :: "'k :: linorder \<Rightarrow> 'v \<Rightarrow> ('v \<Rightarrow> 'v) \<Rightarrow> ('k \<times> 'v) list \<Rightarrow> ('k \<times> 'v) list" where
  "bt_upsert k d f [] = [(k, f d)]"
| "bt_upsert k d f ((k', v) # m) =
     (if k = k' then (k, f v) # m else if k < k' then (k, f d) # (k', v) # m else (k', v) # bt_upsert k d f m)"

definition bt_of :: "('k :: linorder \<times> 'v) list \<Rightarrow> ('k \<times> 'v) list" where
  "bt_of kvs = fold (\<lambda>(k, v). bt_upsert k v (\<lambda>_. v)) kvs []"

definition bt_ok :: "('k :: linorder \<times> 'v) list \<Rightarrow> bool" where
  "bt_ok m \<longleftrightarrow> sorted_wrt (<) (map fst m)"

lemma bt_upsert_keys: "fst ` set (bt_upsert k d f m) = insert k (fst ` set m)"
  by (induction k d f m rule: bt_upsert.induct) (simp_all add: insert_commute)

lemma bt_upsert_ok [inv_intros]: "bt_ok m \<Longrightarrow> bt_ok (bt_upsert k d f m)"
proof (induction m)
  case (Cons p m)
  obtain k' v where p: "p = (k', v)" by force
  have IH: "sorted_wrt (<) (map fst (bt_upsert k d f m))" using Cons by (simp add: bt_ok_def)
  have "x \<in> fst ` set (bt_upsert k d f m) \<Longrightarrow> x = k \<or> x \<in> fst ` set m" for x
    using bt_upsert_keys[of k d f m] by blast
  with IH Cons.prems show ?case by (fastforce simp: p bt_ok_def)
qed (simp add: bt_ok_def)

lemma bt_ok_Nil [simp, intro]: "bt_ok []"
  by (simp add: bt_ok_def)

lemma map_of_bt_upsert: "bt_ok m \<Longrightarrow>
  map_of (bt_upsert k d f m) = (map_of m)(k \<mapsto> f (case map_of m k of None \<Rightarrow> d | Some v \<Rightarrow> v))"
proof (induction m)
  case (Cons p m)
  obtain k' v where p: "p = (k', v)" by force
  have ok: "bt_ok m" using Cons.prems by (simp add: bt_ok_def)
  show ?case
  proof (cases "k < k'")
    case True
    then have "k \<notin> fst ` set m" using Cons.prems by (auto simp: bt_ok_def p dest!: bspec)
    then have "map_of m k = None" by (simp add: map_of_eq_None_iff)
    with True show ?thesis by (auto simp: p fun_upd_twist)
  qed (use Cons.IH[OF ok] in \<open>auto simp: p fun_eq_iff\<close>)
qed simp

lemma bt_upsert_values: "(x, y) \<in> set (bt_upsert k d f m) \<Longrightarrow> (x, y) \<in> set m \<or> x = k \<and> (y = f d \<or> (\<exists>v. (k, v) \<in> set m \<and> y = f v))"
  by (induction m) (auto split: if_splits)

definition bt_all :: "('v \<Rightarrow> bool) \<Rightarrow> ('k \<times> 'v) list \<Rightarrow> bool" where
  "bt_all P m \<longleftrightarrow> (\<forall>p \<in> set m. P (snd p))"

lemma bt_all_Nil [simp]: "bt_all P []"
  by (simp add: bt_all_def)

lemma bt_all_upsert [inv_intros]: "bt_all P m \<Longrightarrow> P (f d) \<Longrightarrow> (\<And>v. P v \<Longrightarrow> P (f v)) \<Longrightarrow> bt_all P (bt_upsert k d f m)"
  unfolding bt_all_def using bt_upsert_values by fastforce

lemma bt_all_map_of: "bt_all P m \<Longrightarrow> map_of m k = Some v \<Longrightarrow> P v"
  unfolding bt_all_def using map_of_SomeD by fastforce

end
