(* ===== verification/Float64.thy ===== *)
theory Float64
  imports Prelude
begin

text \<open>
  IEEE 754 binary64, the Rust \<open>f64\<close>, computed exactly. A value is its sign and the 63 low bits
  of its pattern, as a number: \<open>fmag\<close> below \<open>INF_MAG\<close> (0x7FF0000000000000) is finite, equal
  is an infinity, above is a NaN (all NaNs are one value to the code, which never looks at a
  payload). A finite value is an integer multiple of the smallest subnormal \<open>2^-1074\<close>; \<open>munits\<close> is
  that integer, so that every operation is an integer computation followed by one rounding to nearest,
  ties to even (\<open>mround\<close>). Comparisons only need \<open>fkey\<close>, the signed magnitude. \<open>exp\<close>, \<open>ln\<close>
  and \<open>ln_1p\<close> have no specified result in Rust and are parameters of the model (theory
  \<open>Types\<close>). The lemmas give: monotonicity and exactness of rounding, the order, the sign and the
  bounds of the arithmetic operations; the last section holds equations that evaluate the operations
  on mantissas of at most 106 bits.
\<close>

subsection \<open>Representation and rounding\<close>

datatype f64 = F64 (fneg: bool) (fmag: nat)

definition INF_MAG :: nat where
  "INF_MAG = 9218868437227405312"

definition is_nan :: "f64 \<Rightarrow> bool" where
  "is_nan x \<longleftrightarrow> INF_MAG < fmag x"

definition is_infinite :: "f64 \<Rightarrow> bool" where
  "is_infinite x \<longleftrightarrow> fmag x = INF_MAG"

definition is_finite :: "f64 \<Rightarrow> bool" where
  "is_finite x \<longleftrightarrow> fmag x < INF_MAG"

definition fkey :: "f64 \<Rightarrow> int" where
  "fkey x = (if fneg x then - int (fmag x) else int (fmag x))"

fun blen :: "nat \<Rightarrow> nat" where
  "blen n = (if n = 0 then 0 else Suc (blen (n div 2)))"

declare blen.simps [simp del]

definition munits :: "nat \<Rightarrow> nat" where
  "munits n = (let e = n div 2 ^ 52; m = n mod 2 ^ 52
     in if e = 0 then m else (2 ^ 52 + m) * 2 ^ (e - 1))"

definition mfloor :: "nat \<Rightarrow> nat" where
  "mfloor i = (let k = blen i - 53 in k * 2 ^ 52 + i div 2 ^ k)"

definition mnear :: "nat \<Rightarrow> nat \<Rightarrow> nat" where
  "mnear a d = (let n = mfloor (a div d); mid = d * (munits n + munits (Suc n)) in
     if 2 * a < mid \<or> 2 * a = mid \<and> even n then n else Suc n)"

definition mround :: "nat \<Rightarrow> nat \<Rightarrow> nat" where
  "mround a d = min INF_MAG (mnear a d)"

definition one_units :: nat where
  "one_units = 2 ^ 1074"

lemma one_units_pos: "0 < one_units"
  by (simp add: one_units_def)

lemma one_units_pos_simps [simp]: "0 < one_units" "one_units = 0 \<longleftrightarrow> False"
  by (simp_all add: one_units_def)

lemma blen_bounds: "0 < n \<Longrightarrow> 2 ^ (blen n - 1) \<le> n \<and> n < 2 ^ blen n"
proof (induction n rule: blen.induct)
  case (1 n)
  show ?case
  proof (cases "n div 2 = 0")
    case True
    with 1(2) have "n = 1" by presburger
    then show ?thesis by (simp add: blen.simps)
  next
    case False
    let ?b = "blen (n div 2)"
    from False 1 have IH: "2 ^ (?b - 1) \<le> n div 2" "n div 2 < 2 ^ ?b" by auto
    have "0 < ?b" using False by (subst blen.simps) simp
    then have b: "?b = Suc (?b - 1)" by simp
    have n: "blen n = Suc ?b" using 1(2) by (subst blen.simps) simp
    have "(2::nat) ^ ?b = 2 * 2 ^ (?b - 1)" by (subst b) simp
    with IH have "2 ^ ?b \<le> n" "n < 2 * 2 ^ ?b" by linarith+
    then show ?thesis by (simp add: n)
  qed
qed

lemma blen_le: "n < 2 ^ k \<Longrightarrow> blen n \<le> k"
proof (rule ccontr)
  assume n: "n < 2 ^ k" and k: "\<not> blen n \<le> k"
  then have "0 < n" by (cases n) (auto simp: blen.simps)
  then have "2 ^ (blen n - 1) \<le> n" using blen_bounds by blast
  then have "(2::nat) ^ (blen n - 1) < 2 ^ k" using n by (rule le_less_trans)
  then have "blen n - 1 < k" by (metis one_less_numeral_iff power_strict_increasing_iff semiring_norm(76))
  with k show False by simp
qed

lemma munits_small: "n \<le> 2 ^ 53 \<Longrightarrow> munits n = n"
proof -
  assume n: "n \<le> 2 ^ 53"
  consider "n < 2 ^ 52" | "2 ^ 52 \<le> n" "n < 2 ^ 53" | "n = 2 ^ 53" using n by linarith
  then show ?thesis
  proof cases
    case 1 then show ?thesis by (simp add: munits_def)
  next
    case 2
    then have "n div 2 ^ 52 = 1" by auto
    moreover from this have "n mod 2 ^ 52 = n - 2 ^ 52"
      using div_mult_mod_eq[of n "2 ^ 52"] by simp
    ultimately show ?thesis using 2 by (simp add: munits_def)
  next
    case 3 then show ?thesis by (simp add: munits_def)
  qed
qed

lemma munits_shift: "2 ^ 52 \<le> n \<Longrightarrow> munits (k * 2 ^ 52 + n) = 2 ^ k * munits n"
proof -
  assume n: "2 ^ 52 \<le> n"
  define e m where "e = n div 2 ^ 52" and "m = n mod 2 ^ 52"
  have e: "0 < e" using n by (simp add: e_def div_greater_zero_iff)
  have "(k * 2 ^ 52 + n) div 2 ^ 52 = k + e" "(k * 2 ^ 52 + n) mod 2 ^ 52 = m"
    by (simp_all add: e_def m_def)
  moreover have "(2::nat) ^ (k + e - 1) = 2 ^ k * 2 ^ (e - 1)"
    using e by (simp flip: power_add)
  ultimately show ?thesis using e
    by (simp add: munits_def Let_def flip: e_def m_def)
qed

lemma munits_Suc: "munits n < munits (Suc n)"
proof (cases "n < 2 ^ 53")
  case True
  then show ?thesis by (simp add: munits_small)
next
  case False
  define k q where "k = n div 2 ^ 52 - 1" and "q = 2 ^ 52 + n mod 2 ^ 52"
  have "2 \<le> n div 2 ^ 52" using False by (simp add: less_eq_div_iff_mult_less_eq)
  then have "n = k * 2 ^ 52 + q" unfolding k_def q_def
    using div_mult_mod_eq[of n "2 ^ 52"] by (simp add: diff_mult_distrib)
  moreover have "2 ^ 52 \<le> q" "q < 2 ^ 53"
    using mod_less_divisor[of "2 ^ 52" n] by (simp_all add: q_def)
  moreover from this have "munits (k * 2 ^ 52 + q) = 2 ^ k * q" "munits (k * 2 ^ 52 + Suc q) = 2 ^ k * Suc q"
    by (subst munits_shift; simp add: munits_small)+
  ultimately show ?thesis by simp
qed

lemma munits_strict_mono: "strict_mono munits"
  by (simp add: strict_mono_Suc_iff munits_Suc)

lemma munits_less_iff [simp]: "munits m < munits n \<longleftrightarrow> m < n"
  by (rule strict_mono_less[OF munits_strict_mono])

lemma munits_le_iff [simp]: "munits m \<le> munits n \<longleftrightarrow> m \<le> n"
  by (rule strict_mono_less_eq[OF munits_strict_mono])

lemma munits_eq_iff [simp]: "munits m = munits n \<longleftrightarrow> m = n"
  by (rule strict_mono_eq[OF munits_strict_mono])

lemma munits_0 [simp]: "munits 0 = 0"
  by (simp add: munits_small)

lemma munits_eq_0_iff [simp]: "munits n = 0 \<longleftrightarrow> n = 0"
  by (metis munits_0 munits_eq_iff)

lemma mfloor_bounds: "munits (mfloor i) \<le> i \<and> i < munits (Suc (mfloor i))"
proof (cases "i < 2 ^ 53")
  case True
  then have "blen i \<le> 53" by (rule blen_le)
  then have "mfloor i = i" by (simp add: mfloor_def)
  with True show ?thesis by (simp add: munits_small)
next
  case False
  define k q where "k = blen i - 53" and "q = i div 2 ^ k"
  have b: "2 ^ (blen i - 1) \<le> i" "i < 2 ^ blen i" using False blen_bounds[of i] by auto
  have "53 < blen i"
  proof (rule ccontr)
    assume "\<not> 53 < blen i"
    then have "(2::nat) ^ blen i \<le> 2 ^ 53" by (intro power_increasing) auto
    with b False show False by simp
  qed
  then have bl: "blen i = k + 53" by (simp add: k_def)
  have "(2::nat) ^ (blen i - 1) = 2 ^ 52 * 2 ^ k" "(2::nat) ^ blen i = 2 ^ 53 * 2 ^ k"
    by (simp_all add: bl power_add)
  with b have q: "2 ^ 52 \<le> q" "q < 2 ^ 53"
    by (auto simp: q_def less_eq_div_iff_mult_less_eq div_less_iff_less_mult)
  have n: "mfloor i = k * 2 ^ 52 + q" by (simp add: mfloor_def k_def q_def Let_def)
  have "munits (k * 2 ^ 52 + q) = 2 ^ k * q"
    using q by (subst munits_shift) (simp_all add: munits_small)
  moreover have "munits (k * 2 ^ 52 + Suc q) = 2 ^ k * Suc q"
    using q by (subst munits_shift) (simp_all add: munits_small)
  moreover have "2 ^ k * q \<le> i" by (simp add: q_def)
  moreover have "i < 2 ^ k * Suc q" by (simp add: q_def dividend_less_times_div)
  ultimately show ?thesis by (simp add: n)
qed

lemma mfloor_galois: "n \<le> mfloor i \<longleftrightarrow> munits n \<le> i"
  using mfloor_bounds[of i] by (metis Suc_leI le_less_trans less_le_not_le munits_le_iff not_le order_trans)

lemma mfloor_munits [simp]: "mfloor (munits n) = n"
  by (metis mfloor_galois munits_le_iff order_antisym order_refl)

lemma mfloor_mono: "i \<le> j \<Longrightarrow> mfloor i \<le> mfloor j"
  by (meson mfloor_galois order_trans order_refl)


lemma div_mono_cross: "a * d' \<le> a' * d \<Longrightarrow> 0 < d \<Longrightarrow> 0 < d' \<Longrightarrow> a div d \<le> a' div (d'::nat)"
proof -
  assume le: "a * d' \<le> a' * d" and d: "0 < d" "0 < d'"
  have "a div d * d \<le> a" by simp
  then have "a div d * d * d' \<le> a * d'" by (rule mult_le_mono1)
  also note le
  finally have "a div d * d' * d \<le> a' * d" by (simp add: ac_simps)
  then have "a div d * d' \<le> a'" using d by simp
  then show ?thesis using d by (simp add: less_eq_div_iff_mult_less_eq)
qed

lemma mround_le_INF: "mround a d \<le> INF_MAG"
  by (simp add: mround_def)

lemma mround_mono:
  assumes le: "a * d' \<le> a' * d" and d: "0 < d" "0 < d'"
  shows "mround a d \<le> mround a' d'"
proof -
  define n n' M where "n = mfloor (a div d)" and "n' = mfloor (a' div d')"
    and "M = munits n + munits (Suc n)"
  have nn: "n \<le> n'" unfolding n_def n'_def by (intro mfloor_mono div_mono_cross le d)
  let ?up = "\<lambda>a d. \<not> (2 * a < d * M \<or> 2 * a = d * M \<and> even n)"
  show ?thesis
  proof (cases "n = n'")
    case False
    with nn have "Suc n \<le> n'" by simp
    then show ?thesis unfolding mround_def mnear_def Let_def by (auto simp flip: n_def n'_def)
  next
    case True
    have "?up a' d'" if up: "?up a d"
    proof -
      have "d * M * d' \<le> 2 * a * d'" using up by simp
      also have "\<dots> \<le> 2 * a' * d" using le by simp
      finally have *: "d * (d' * M) \<le> d * (2 * a')" by (simp add: ac_simps)
      then have "d' * M \<le> 2 * a'" using d by simp
      moreover have "odd n" if eq: "2 * a' = d' * M"
      proof (rule ccontr)
        assume "\<not> odd n"
        with up have "d * M < 2 * a" by auto
        then have "d * M * d' < 2 * a * d'" using d by simp
        also have "\<dots> \<le> 2 * a' * d" using le by simp
        finally show False using eq by (simp add: ac_simps)
      qed
      ultimately show ?thesis by auto
    qed
    then show ?thesis
      unfolding mround_def mnear_def Let_def n_def[symmetric] n'_def[symmetric] True[symmetric] M_def[symmetric]
      by auto
  qed
qed

lemma mround_exact: "n \<le> INF_MAG \<Longrightarrow> 0 < d \<Longrightarrow> mround (munits n * d) d = n"
proof -
  assume n: "n \<le> INF_MAG" and d: "0 < d"
  have "2 * (munits n * d) < d * (munits n + munits (Suc n))"
    using d munits_Suc[of n] by (simp add: algebra_simps)
  with n d show ?thesis by (simp add: mround_def mnear_def)
qed

lemma mround_0 [simp]: "0 < d \<Longrightarrow> mround 0 d = 0"
  using mround_exact[of 0 d] by simp

lemma mround_ge: "munits n * d \<le> a \<Longrightarrow> n \<le> INF_MAG \<Longrightarrow> 0 < d \<Longrightarrow> n \<le> mround a d"
  using mround_mono[of "munits n * d" d a d] mround_exact[of n d] by simp

lemma mround_le: "a \<le> munits n * d \<Longrightarrow> 0 < d \<Longrightarrow> mround a d \<le> n"
proof (cases "n \<le> INF_MAG")
  case True
  then show "a \<le> munits n * d \<Longrightarrow> 0 < d \<Longrightarrow> mround a d \<le> n"
    using mround_mono[of a d "munits n * d" d] mround_exact[of n d] by simp
next
  case False
  then show ?thesis using mround_le_INF[of a d] by simp
qed

definition fint :: "f64 \<Rightarrow> int" where
  "fint x = (if fneg x then - int (munits (fmag x)) else int (munits (fmag x)))"

definition rnd :: "bool \<Rightarrow> int \<Rightarrow> nat \<Rightarrow> f64" where
  "rnd s i d = (if i = 0 then F64 s 0 else F64 (i < 0) (mround (nat \<bar>i\<bar>) d))"

lemma fint_le_iff: "fint x \<le> fint y \<longleftrightarrow> fkey x \<le> fkey y"
  by (auto simp: fint_def fkey_def zle_int) 
    (smt (verit) munits_eq_0_iff of_nat_0_le_iff of_nat_eq_0_iff)+

lemma fkey_rnd: "0 < d \<Longrightarrow> fkey (rnd s i d) = sgn i * int (mround (nat \<bar>i\<bar>) d)"
  by (auto simp: rnd_def fkey_def sgn_if)

lemma rnd_not_nan [simp]: "\<not> is_nan (rnd s i d)"
  using mround_le_INF[of "nat \<bar>i\<bar>" d] by (simp add: rnd_def is_nan_def)

lemma rnd_mono:
  assumes "i * int d' \<le> j * int d" "0 < d" "0 < d'"
  shows "fkey (rnd s i d) \<le> fkey (rnd t j d')"
proof -
  have pos: "mround a d \<le> mround b d'" if "int a * int d' \<le> int b * int d" for a b
    using that assms(2,3) by (intro mround_mono) (simp_all flip: of_nat_mult)
  have neg: "mround b d' \<le> mround a d" if "int b * int d \<le> int a * int d'" for a b
    using that assms(2,3) by (intro mround_mono) (simp_all flip: of_nat_mult)
  consider "0 \<le> i" | "i < 0" "0 \<le> j" | "i < 0" "j < 0" by linarith
  then show ?thesis
  proof cases
    case 1
    then have "0 \<le> i * int d'" by simp
    with assms have "0 \<le> j * int d" by linarith
    then have "0 \<le> j" using assms(2) by (simp add: zero_le_mult_iff)
    with 1 show ?thesis using pos[of "nat i" "nat j"] assms by (auto simp: fkey_rnd sgn_if)
  next
    case 2
    then show ?thesis using assms by (auto simp: fkey_rnd sgn_if)
  next
    case 3
    then show ?thesis using neg[of "nat (- j)" "nat (- i)"] assms by (auto simp: fkey_rnd sgn_if)
  qed
qed

lemma rnd_exact: "\<not> is_nan x \<Longrightarrow> 0 < d \<Longrightarrow> fkey (rnd s (fint x * int d) d) = fkey x"
proof -
  assume x: "\<not> is_nan x" and d: "0 < d"
  have "nat \<bar>fint x * int d\<bar> = munits (fmag x) * d"
    by (simp add: fint_def abs_mult nat_mult_distrib)
  moreover have "mround (munits (fmag x) * d) d = fmag x"
    using x d by (intro mround_exact) (simp_all add: is_nan_def)
  moreover have "sgn (fint x * int d) * int (fmag x) = fkey x"
    using d by (auto simp: fint_def fkey_def sgn_if mult_less_0_iff zero_less_mult_iff)
  ultimately show ?thesis using d by (simp add: fkey_rnd)
qed

lemma rnd_le: "i \<le> fint x * int d \<Longrightarrow> \<not> is_nan x \<Longrightarrow> 0 < d \<Longrightarrow> fkey (rnd s i d) \<le> fkey x"
  using rnd_mono[of i d "fint x * int d" d s s] rnd_exact[of x d s] by (simp add: mult_right_mono)

lemma rnd_ge: "fint x * int d \<le> i \<Longrightarrow> \<not> is_nan x \<Longrightarrow> 0 < d \<Longrightarrow> fkey x \<le> fkey (rnd s i d)"
  using rnd_mono[of "fint x * int d" d i d s s] rnd_exact[of x d s] by (simp add: mult_right_mono)


subsection \<open>The operations\<close>

abbreviation f_nan :: f64 where "f_nan \<equiv> F64 False (INF_MAG + 2251799813685248)"
abbreviation f_inf :: f64 where "f_inf \<equiv> F64 False INF_MAG"
abbreviation f_neg_inf :: f64 where "f_neg_inf \<equiv> F64 True INF_MAG"

definition is_zero :: "f64 \<Rightarrow> bool" where
  "is_zero x \<longleftrightarrow> fmag x = 0"

instantiation f64 :: "{zero, one, ord, plus, uminus, minus, times, inverse}"
begin

definition zero_f64 :: f64 where "0 = F64 False 0"
definition one_f64 :: f64 where "1 = F64 False 4607182418800017408"

definition less_eq_f64 :: "f64 \<Rightarrow> f64 \<Rightarrow> bool" where
  "x \<le> y \<longleftrightarrow> \<not> is_nan x \<and> \<not> is_nan y \<and> fkey x \<le> fkey y"

definition less_f64 :: "f64 \<Rightarrow> f64 \<Rightarrow> bool" where
  "x < y \<longleftrightarrow> \<not> is_nan x \<and> \<not> is_nan y \<and> fkey x < fkey y"

definition uminus_f64 :: "f64 \<Rightarrow> f64" where
  "- x = F64 (\<not> fneg x) (fmag x)"

definition plus_f64 :: "f64 \<Rightarrow> f64 \<Rightarrow> f64" where
  "x + y = (if is_nan x \<or> is_nan y then f_nan
     else if is_infinite x then (if is_infinite y \<and> fneg x \<noteq> fneg y then f_nan else x)
     else if is_infinite y then y
     else rnd (fneg x \<and> fneg y) (fint x + fint y) 1)"

definition minus_f64 :: "f64 \<Rightarrow> f64 \<Rightarrow> f64" where
  "x - y = x + (- y :: f64)"

definition times_f64 :: "f64 \<Rightarrow> f64 \<Rightarrow> f64" where
  "x * y = (if is_nan x \<or> is_nan y then f_nan
     else if is_infinite x \<or> is_infinite y then
       (if is_zero x \<or> is_zero y then f_nan else F64 (fneg x \<noteq> fneg y) INF_MAG)
     else F64 (fneg x \<noteq> fneg y) (mround (munits (fmag x) * munits (fmag y)) one_units))"

definition divide_f64 :: "f64 \<Rightarrow> f64 \<Rightarrow> f64" where
  "divide x y = (if is_nan x \<or> is_nan y then f_nan
     else if is_infinite x then
       (if is_infinite y then f_nan else F64 (fneg x \<noteq> fneg y) INF_MAG)
     else if is_infinite y then F64 (fneg x \<noteq> fneg y) 0
     else if is_zero y then
       (if is_zero x then f_nan else F64 (fneg x \<noteq> fneg y) INF_MAG)
     else F64 (fneg x \<noteq> fneg y) (mround (munits (fmag x) * one_units) (munits (fmag y))))"

definition inverse_f64 :: "f64 \<Rightarrow> f64" where
  "inverse x = divide 1 (x :: f64)"

instance ..

end

definition f_eq :: "f64 \<Rightarrow> f64 \<Rightarrow> bool" where
  "f_eq x y \<longleftrightarrow> \<not> is_nan x \<and> \<not> is_nan y \<and> fkey x = fkey y"

definition f_abs :: "f64 \<Rightarrow> f64" where
  "f_abs x = F64 False (fmag x)"

definition f_max :: "f64 \<Rightarrow> f64 \<Rightarrow> f64" where
  "f_max x y = (if is_nan x then y else if is_nan y then x else if x < y then y else x)"

definition f_min :: "f64 \<Rightarrow> f64 \<Rightarrow> f64" where
  "f_min x y = (if is_nan x then y else if is_nan y then x else if y < x then y else x)"

definition f_clamp :: "f64 \<Rightarrow> f64 \<Rightarrow> f64 \<Rightarrow> f64 option" where
  "f_clamp x lo hi = (if lo \<le> hi then Some (if x < lo then lo else if x > hi then hi else x) else None)"

fun isqrt :: "nat \<Rightarrow> nat" where
  "isqrt n = (if n = 0 then 0 else let r = 2 * isqrt (n div 4) in if (r + 1)\<^sup>2 \<le> n then r + 1 else r)"

declare isqrt.simps [simp del]

definition msqrt :: "nat \<Rightarrow> nat" where
  "msqrt u = (let X = u * one_units; n = mfloor (isqrt X); mid = munits n + munits (Suc n) in
     if 4 * X < mid\<^sup>2 \<or> 4 * X = mid\<^sup>2 \<and> even n then n else Suc n)"

definition f_sqrt :: "f64 \<Rightarrow> f64" where
  "f_sqrt x = (if is_nan x then f_nan else if is_zero x then x else if fneg x then f_nan
     else if is_infinite x then x else F64 False (msqrt (munits (fmag x))))"

definition f_of_int :: "int \<Rightarrow> f64" where
  "f_of_int i = rnd False (i * int one_units) 1"

definition f_trunc :: "f64 \<Rightarrow> int" where
  "f_trunc x = (if fneg x then - int (munits (fmag x) div one_units) else int (munits (fmag x) div one_units))"

definition f_as_i64 :: "f64 \<Rightarrow> int" where
  "f_as_i64 x = (if is_nan x then 0 else max (- (2 ^ 63)) (min (2 ^ 63 - 1) (f_trunc x)))"

definition f_as_u64 :: "f64 \<Rightarrow> nat" where
  "f_as_u64 x = (if is_nan x then 0 else nat (max 0 (min (2 ^ 64 - 1) (f_trunc x))))"

definition f_round :: "f64 \<Rightarrow> f64" where
  "f_round x = (if is_finite x
     then F64 (fneg x) (mround ((2 * munits (fmag x) + one_units) div (2 * one_units) * one_units) 1) else x)"

definition f_ceil :: "f64 \<Rightarrow> f64" where
  "f_ceil x = (if is_finite x then rnd (fneg x) (- (- fint x div int one_units) * int one_units) 1 else x)"

definition f_lit :: "nat \<Rightarrow> nat \<Rightarrow> f64" where
  "f_lit a b = F64 False (mround (a * one_units) b)"

text \<open>\<open>Iterator::sum\<close> adds from the left, starting at \<open>-0.0\<close>.\<close>

definition f_sum :: "f64 list \<Rightarrow> f64" where
  "f_sum xs = fold (\<lambda>x acc. acc + x) xs (- 0)"

definition f_to_bits :: "f64 \<Rightarrow> 64 word" where
  "f_to_bits x = of_nat (fmag x + (if fneg x then 2 ^ 63 else 0))"

subsection \<open>Order\<close>

lemma isqrt_bounds: "(isqrt n)\<^sup>2 \<le> n \<and> n < (Suc (isqrt n))\<^sup>2"
proof (induction n rule: isqrt.induct)
  case (1 n)
  show ?case
  proof (cases "n = 0")
    case True
    then show ?thesis by (simp add: isqrt.simps)
  next
    case False
    define r where "r = isqrt (n div 4)"
    have IH: "r\<^sup>2 \<le> n div 4" "n div 4 < (Suc r)\<^sup>2" using 1 False by (simp_all add: r_def)
    have "isqrt n = (if (2 * r + 1)\<^sup>2 \<le> n then 2 * r + 1 else 2 * r)"
      using False by (subst isqrt.simps) (simp add: r_def Let_def)
    moreover have "4 * r\<^sup>2 \<le> n" "n < 4 * (Suc r)\<^sup>2" using IH by linarith+
    ultimately show ?thesis by (auto simp: power2_eq_square algebra_simps)
  qed
qed

lemmas f64_pred_defs = is_nan_def is_finite_def is_infinite_def is_zero_def
lemmas f64_ord_defs = less_eq_f64_def less_f64_def

lemma fkey_0 [simp]: "fkey 0 = 0" and fint_0 [simp]: "fint 0 = 0" and fmag_0 [simp]: "fmag 0 = 0"
  and nan_0 [simp]: "\<not> is_nan 0" and finite_0 [simp]: "is_finite 0"
  and fneg_0 [simp]: "\<not> fneg 0"
  by (simp_all add: zero_f64_def fkey_def fint_def f64_pred_defs INF_MAG_def)

lemma INF_MAG_pos [simp]: "0 < INF_MAG"
  by (simp add: INF_MAG_def)

lemma munits_pos [simp]: "0 < munits n \<longleftrightarrow> 0 < n"
  using munits_eq_0_iff[of n] by linarith

lemma finite_not_nan: "is_finite x \<Longrightarrow> \<not> is_nan x"
  by (simp add: f64_pred_defs)

lemma finite_iff: "is_finite x \<longleftrightarrow> \<not> is_nan x \<and> \<not> is_infinite x"
  by (auto simp: f64_pred_defs)

lemma f_le_refl: "\<not> is_nan x \<Longrightarrow> x \<le> (x::f64)"
  by (simp add: f64_ord_defs)

lemma zero_le_one_f64 [simp]: "0 \<le> (1 :: f64)"
  by (simp add: f64_ord_defs is_nan_def fkey_def one_f64_def zero_f64_def INF_MAG_def)

lemma f_one_cases: "1 \<le> x \<Longrightarrow> \<not> 1 < x \<Longrightarrow> x = (1 :: f64)"
  by (cases x) (auto simp: f64_ord_defs fkey_def one_f64_def split: if_splits)

lemma f_le_trans: "x \<le> y \<Longrightarrow> y \<le> z \<Longrightarrow> x \<le> (z::f64)"
  by (simp add: f64_ord_defs)

lemma f_le_less_trans: "x \<le> y \<Longrightarrow> y < z \<Longrightarrow> x < (z::f64)"
  by (simp add: f64_ord_defs)

lemma f_not_less: "\<not> is_nan x \<Longrightarrow> \<not> is_nan y \<Longrightarrow> \<not> x < y \<longleftrightarrow> y \<le> (x::f64)"
  by (auto simp: f64_ord_defs)

lemma f_le_D: "x \<le> (y::f64) \<Longrightarrow> \<not> is_nan x \<and> \<not> is_nan y \<and> fkey x \<le> fkey y"
  by (simp add: f64_ord_defs)

lemma fint_nonneg_iff: "0 \<le> fint x \<longleftrightarrow> 0 \<le> fkey x"
  using fint_le_iff[of 0 x] by simp

lemma rnd_key_nonneg: "0 < d \<Longrightarrow> 0 \<le> i \<Longrightarrow> 0 \<le> fkey (rnd s i d)"
  by (simp add: fkey_rnd sgn_if)

lemma finite_minus [simp]: "is_finite (- x) = is_finite (x::f64)" and nan_minus [simp]: "is_nan (- x) = is_nan (x::f64)"
  and fkey_minus [simp]: "fkey (- x) = - fkey x" and fint_minus [simp]: "fint (- x) = - fint x"
  and infinite_minus [simp]: "is_infinite (- x) = is_infinite (x::f64)"
  by (simp_all add: f64_pred_defs uminus_f64_def fkey_def fint_def)

lemma finite_add: "is_finite x \<Longrightarrow> is_finite y \<Longrightarrow> x + y = rnd (fneg x \<and> fneg y) (fint x + fint y) 1"
  by (simp add: plus_f64_def finite_iff)

lemma add_not_nan: "is_finite x \<Longrightarrow> \<not> is_nan y \<Longrightarrow> \<not> is_nan (x + y)"
  by (simp add: plus_f64_def finite_iff)

lemma add_mono_f64:
  assumes "is_finite x" "is_finite y" "is_finite x'" "is_finite y'" "x \<le> x'" "y \<le> y'"
  shows "x + y \<le> (x' + y' :: f64)"
proof -
  have "fint x + fint y \<le> fint x' + fint y'"
    using assms(5,6) by (intro add_mono) (simp_all add: fint_le_iff f64_ord_defs)
  with assms show ?thesis by (auto simp: finite_add f64_ord_defs intro!: rnd_mono)
qed

lemma add_increasing_f64: "is_finite x \<Longrightarrow> 0 \<le> y \<Longrightarrow> x \<le> (x + y :: f64)"
proof -
  assume x: "is_finite x" and y: "0 \<le> y"
  show "x \<le> x + y"
  proof (cases "is_finite y")
    case True
    with x y show ?thesis
      by (auto simp: finite_add f64_ord_defs finite_not_nan fint_nonneg_iff intro: rnd_ge)
  next
    case False
    with x y show ?thesis
      by (auto simp: plus_f64_def f64_ord_defs finite_iff fkey_def f64_pred_defs split: if_splits)
  qed
qed

lemma sub_decreasing_f64: "is_finite x \<Longrightarrow> 0 \<le> y \<Longrightarrow> (x - y :: f64) \<le> x"
proof -
  assume x: "is_finite x" and y: "0 \<le> y"
  show "x - y \<le> x"
  proof (cases "is_finite y")
    case True
    with x y show ?thesis
      by (auto simp: minus_f64_def finite_add f64_ord_defs finite_not_nan fint_nonneg_iff intro: rnd_le)
  next
    case False
    with x y show ?thesis
      by (auto simp: minus_f64_def plus_f64_def f64_ord_defs finite_iff fkey_def f64_pred_defs uminus_f64_def split: if_splits)
  qed
qed

lemma mult_not_nan: "is_finite x \<Longrightarrow> is_finite y \<Longrightarrow> \<not> is_nan (x * y :: f64)"
  by (simp add: times_f64_def finite_iff) (simp add: is_nan_def mround_le_INF leD)

lemma div_not_nan: "is_finite x \<Longrightarrow> is_finite y \<Longrightarrow> \<not> is_zero y \<Longrightarrow> \<not> is_nan (x / y :: f64)"
  by (simp add: divide_f64_def finite_iff) (simp add: is_nan_def mround_le_INF leD)

lemma nonneg_iff: "0 \<le> x \<longleftrightarrow> \<not> is_nan x \<and> (\<not> fneg x \<or> is_zero x)"
  by (auto simp: f64_ord_defs fkey_def is_zero_def)

lemma mult_nonneg_f64: "0 \<le> x \<Longrightarrow> 0 \<le> y \<Longrightarrow> \<not> is_nan (x * y) \<Longrightarrow> 0 \<le> (x * y :: f64)"
  by (auto simp: nonneg_iff times_f64_def is_zero_def split: if_splits)

lemma div_nonneg_f64: "0 \<le> x \<Longrightarrow> 0 < y \<Longrightarrow> \<not> is_nan (x / y) \<Longrightarrow> 0 \<le> (x / y :: f64)"
  by (auto simp: nonneg_iff divide_f64_def f64_pred_defs f64_ord_defs fkey_def split: if_splits)

lemma square_nonneg_f64: "\<not> is_nan (x * x) \<Longrightarrow> 0 \<le> (x * x :: f64)"
  by (auto simp: nonneg_iff times_f64_def split: if_splits)

lemma munits_one: "munits 4607182418800017408 = one_units"
  unfolding munits_def one_units_def Let_def by simp

lemma mult_le_f64: "is_finite x \<Longrightarrow> 0 \<le> x \<Longrightarrow> 0 \<le> s \<Longrightarrow> s \<le> 1 \<Longrightarrow> (x * s :: f64) \<le> x"
proof -
  assume x: "is_finite x" "0 \<le> x" and s: "0 \<le> s" "s \<le> 1"
  have mags: "fmag s \<le> 4607182418800017408"
    using s by (auto simp: nonneg_iff is_zero_def one_f64_def f64_ord_defs fkey_def split: if_splits)
  then have fin: "is_finite s" by (simp add: is_finite_def INF_MAG_def)
  have "munits (fmag s) \<le> one_units" using mags by (simp flip: munits_one)
  then have "mround (munits (fmag x) * munits (fmag s)) one_units \<le> fmag x"
    by (intro mround_le) simp_all
  moreover have "\<not> fneg x \<or> fmag x = 0" "\<not> fneg s \<or> fmag s = 0"
    using x s by (auto simp: nonneg_iff is_zero_def)
  ultimately show ?thesis using x(1) fin mult_not_nan[OF x(1) fin]
    by (auto simp: times_f64_def finite_iff less_eq_f64_def fkey_def)
qed

lemma f_max_ge1: "\<not> is_nan x \<Longrightarrow> x \<le> f_max x y"
  and f_max_ge2: "\<not> is_nan y \<Longrightarrow> y \<le> f_max x y"
  by (auto simp: f_max_def f64_ord_defs)

lemma f_max_nan [simp]: "is_nan (f_max x y) \<longleftrightarrow> is_nan x \<and> is_nan y"
  by (auto simp: f_max_def)

lemma f_max_least: "x \<le> z \<or> is_nan x \<Longrightarrow> y \<le> z \<Longrightarrow> f_max x y \<le> z"
  by (auto simp: f_max_def f64_ord_defs)

lemma f_max_nonneg: "0 \<le> y \<Longrightarrow> 0 \<le> f_max x y"
  by (auto simp: f_max_def f64_ord_defs)

lemma f_max_finite: "is_finite x \<Longrightarrow> is_finite y \<Longrightarrow> is_finite (f_max x y)"
  by (auto simp: f_max_def)

lemma f_min_le1: "\<not> is_nan x \<Longrightarrow> f_min x y \<le> x"
  and f_min_le2: "\<not> is_nan y \<Longrightarrow> f_min x y \<le> y"
  by (auto simp: f_min_def f64_ord_defs)

lemma f_clamp_None [simp]: "f_clamp x lo hi = None \<longleftrightarrow> \<not> lo \<le> hi"
  by (simp add: f_clamp_def)

lemma f_clamp_bounds: "f_clamp x lo hi = Some y \<Longrightarrow> \<not> is_nan x \<Longrightarrow> lo \<le> y \<and> y \<le> hi"
  by (auto simp: f_clamp_def f64_ord_defs split: if_splits)

lemma f_clamp_id: "lo \<le> x \<Longrightarrow> x \<le> hi \<Longrightarrow> f_clamp x lo hi = Some x"
  by (auto simp: f_clamp_def f64_ord_defs)

lemma f_clamp_nan: "is_nan x \<Longrightarrow> lo \<le> hi \<Longrightarrow> f_clamp x lo hi = Some x"
  by (auto simp: f_clamp_def f64_ord_defs)

lemma f_sqrt_nonneg: "\<not> is_nan (f_sqrt x) \<Longrightarrow> 0 \<le> f_sqrt x"
  by (auto simp: f_sqrt_def nonneg_iff is_nan_def INF_MAG_def is_zero_def split: if_splits)

lemma f_abs_nonneg: "\<not> is_nan x \<Longrightarrow> 0 \<le> f_abs x"
  by (auto simp: f_abs_def nonneg_iff is_nan_def)

lemma add_nonneg_f64: "0 \<le> x \<Longrightarrow> 0 \<le> y \<Longrightarrow> 0 \<le> (x + y :: f64)"
proof (cases "is_finite x")
  case True
  assume "0 \<le> x" "0 \<le> y"
  with True show ?thesis using add_increasing_f64[of x y] f_le_trans[of 0 x "x + y"] by blast
next
  case False
  assume xy: "0 \<le> x" "0 \<le> y"
  with False have x: "is_infinite x" "\<not> is_nan x" "\<not> is_nan y"
    by (auto simp: finite_iff f64_ord_defs)
  with xy have "x + y = x"
    by (auto simp: plus_f64_def nonneg_iff f64_pred_defs INF_MAG_def)
  with xy show ?thesis by simp
qed

lemma f_lit_nonneg: "0 \<le> f_lit a b"
  by (simp add: f_lit_def nonneg_iff is_nan_def mround_le_INF leD)

lemma f_lit_one: "f_lit 1 1 = 1"
proof -
  have "mround (munits 4607182418800017408 * 1) 1 = 4607182418800017408"
    by (intro mround_exact) (simp_all add: INF_MAG_def)
  then show ?thesis by (simp add: f_lit_def one_f64_def munits_one)
qed

lemma f_lit_mono: "a * b' \<le> a' * b \<Longrightarrow> 0 < b \<Longrightarrow> 0 < b' \<Longrightarrow> f_lit a b \<le> f_lit a' b'"
proof -
  assume le: "a * b' \<le> a' * b" and b: "0 < b" "0 < b'"
  have "(a * one_units) * b' \<le> (a' * one_units) * b"
    using mult_le_mono1[OF le, of one_units] by (simp add: mult_ac)
  from mround_mono[OF this b] show ?thesis
    by (simp add: f_lit_def less_eq_f64_def is_nan_def mround_le_INF leD fkey_def)
qed

lemma f_lit_le_one: "a \<le> b \<Longrightarrow> 0 < b \<Longrightarrow> f_lit a b \<le> 1"
  using f_lit_mono[of a 1 1 b] by (simp add: f_lit_one[symmetric] del: One_nat_def)

lemma finite_le_one: "0 \<le> x \<Longrightarrow> x \<le> (1 :: f64) \<Longrightarrow> is_finite x"
  by (auto simp: nonneg_iff is_zero_def one_f64_def f64_ord_defs fkey_def is_finite_def INF_MAG_def split: if_splits)

lemma f_lit_finite: "a \<le> b \<Longrightarrow> 0 < b \<Longrightarrow> is_finite (f_lit a b)"
  by (rule finite_le_one[OF f_lit_nonneg f_lit_le_one])

lemma f_lit_pos: "0 < a \<Longrightarrow> 0 < b \<Longrightarrow> b \<le> one_units \<Longrightarrow> 0 < f_lit a b"
proof -
  assume a: "0 < a" "0 < b" "b \<le> one_units"
  have "munits 1 = 1" by (rule munits_small) simp
  moreover have "b \<le> a * one_units" using a by (cases a) auto
  ultimately have "1 \<le> mround (a * one_units) b"
    using a mround_ge[of 1 b "a * one_units"] by (simp add: INF_MAG_def)
  then show ?thesis by (simp add: f_lit_def f64_ord_defs is_nan_def fkey_def mround_le_INF leD)
qed

lemma one_units_big: "10 ^ 15 \<le> one_units"
  by (simp add: one_units_def)

subsection \<open>Integers up to 2^53 are exact\<close>

lemma munits_scaled: "n \<le> 2 ^ 53 \<Longrightarrow> \<exists>m. munits m = n * one_units \<and> m < INF_MAG"
proof -
  assume n: "n \<le> 2 ^ 53"
  consider "n = 0" | "0 < n" "n < 2 ^ 53" | "n = 2 ^ 53" using n by linarith
  then show ?thesis
  proof cases
    case 1
    then show ?thesis by (intro exI[of _ 0]) simp
  next
    case 2
    define b q where "b = blen n" and "q = n * 2 ^ (53 - b)"
    have b: "b \<le> 53" "0 < b" "2 ^ (b - 1) \<le> n" "n < 2 ^ b"
      using 2 blen_bounds[of n] blen_le[of n 53] by (auto simp: b_def) (auto simp: blen.simps)
    have e: "(53 - b) + (1021 + b) = 1074" "(b - 1) + (53 - b) = 52" "b + (53 - b) = 53" using b by auto
    have "(2::nat) ^ (b - 1) * 2 ^ (53 - b) \<le> q" unfolding q_def using b by (intro mult_le_mono1)
    then have q1: "2 ^ 52 \<le> q" by (simp only: e flip: power_add)
    have "q < 2 ^ b * 2 ^ (53 - b)" unfolding q_def using b by (intro mult_less_mono1) auto
    then have q2: "q < 2 ^ 53" by (simp only: e flip: power_add)
    have "munits ((1021 + b) * 2 ^ 52 + q) = 2 ^ (1021 + b) * q"
      using q1 q2 by (subst munits_shift) (simp_all add: munits_small)
    also have "\<dots> = n * (2 ^ (53 - b) * 2 ^ (1021 + b))" by (simp add: q_def)
    also have "\<dots> = n * one_units" by (simp only: e one_units_def flip: power_add)
    finally show ?thesis using b q2 by (intro exI[of _ "(1021 + b) * 2 ^ 52 + q"]) (simp add: INF_MAG_def)
  next
    case 3
    have "munits (1074 * 2 ^ 52 + 2 ^ 53) = 2 ^ 1074 * 2 ^ 53"
      by (subst munits_shift) (simp_all only: munits_small, simp_all)
    then show ?thesis unfolding one_units_def 3
      by (intro exI[of _ "1074 * 2 ^ 52 + 2 ^ 53"]) (simp add: INF_MAG_def)
  qed
qed

definition imag :: "nat \<Rightarrow> nat" where
  "imag k = mround (k * one_units) 1"

lemma imag_exact: "k \<le> 2 ^ 53 \<Longrightarrow> munits (imag k) = k * one_units"
  and imag_finite: "k \<le> 2 ^ 53 \<Longrightarrow> imag k < INF_MAG"
proof -
  have "munits (imag k) = k * one_units \<and> imag k < INF_MAG" if k: "k \<le> 2 ^ 53"
  proof -
    obtain m where "munits m = k * one_units" "m < INF_MAG" using munits_scaled[OF k] by blast
    then show ?thesis using mround_exact[of m 1] by (simp add: imag_def)
  qed
  then show "k \<le> 2 ^ 53 \<Longrightarrow> munits (imag k) = k * one_units" "k \<le> 2 ^ 53 \<Longrightarrow> imag k < INF_MAG" by auto
qed

lemma f_of_int_imag: "f_of_int i = F64 (i < 0) (imag (nat \<bar>i\<bar>))"
proof -
  have "i * int one_units < 0 \<longleftrightarrow> i < 0" using one_units_pos by (simp add: mult_less_0_iff del: one_units_pos)
  moreover have "nat \<bar>i * int one_units\<bar> = nat \<bar>i\<bar> * one_units" by (simp add: abs_mult nat_mult_distrib)
  ultimately show ?thesis by (simp add: f_of_int_def rnd_def imag_def)
qed

lemma f_of_int_finite: "\<bar>i\<bar> \<le> 2 ^ 53 \<Longrightarrow> is_finite (f_of_int i)"
  by (simp add: f_of_int_imag is_finite_def imag_finite)

lemma mult_one_f64: "is_finite x \<Longrightarrow> x * 1 = (x :: f64)"
proof -
  assume x: "is_finite x"
  have "mround (munits (fmag x) * one_units) one_units = fmag x"
    using x by (intro mround_exact) (simp_all add: is_finite_def)
  with x show ?thesis
    by (cases x) (simp add: times_f64_def finite_iff one_f64_def munits_one f64_pred_defs INF_MAG_def)
qed

lemma times_comm_f64: "x * y = (y * x :: f64)"
  by (auto simp: times_f64_def mult.commute)

lemma munits_2000: "munits (2000 * 2 ^ 52) = 2 ^ 2051"
proof -
  have "munits (2000 * 2 ^ 52) = munits (1999 * 2 ^ 52 + 2 ^ 52)" by simp
  also have "\<dots> = 2 ^ 1999 * 2 ^ 52" by (subst munits_shift) (simp_all add: munits_small)
  finally show ?thesis by (simp add: power_add[symmetric])
qed

lemma f_sqrt_finite: "0 \<le> x \<Longrightarrow> is_finite x \<Longrightarrow> is_finite (f_sqrt x)"
proof -
  assume x: "0 \<le> x" "is_finite x"
  define X where "X = munits (fmag x) * one_units"
  have "munits (fmag x) < munits INF_MAG" using x(2) by (simp add: is_finite_def)
  also have "munits INF_MAG = munits (2046 * 2 ^ 52 + 2 ^ 52)" by (simp add: INF_MAG_def)
  also have "\<dots> = 2 ^ 2046 * 2 ^ 52" by (subst munits_shift) (simp_all add: munits_small)
  finally have "X < 2 ^ 2046 * 2 ^ 52 * 2 ^ 1074" unfolding X_def one_units_def by (rule mult_less_mono1) simp
  also have "\<dots> = (2 ^ 1586)\<^sup>2" by (simp only: power_add[symmetric] power_mult[symmetric]) simp
  finally have "(isqrt X)\<^sup>2 < (2 ^ 1586)\<^sup>2" using isqrt_bounds[of X] by linarith
  then have i: "isqrt X < 2 ^ 1586" by (rule power_less_imp_less_base) simp
  also have "\<dots> \<le> (2 :: nat) ^ 2051" by (rule power_increasing) simp_all
  finally have "\<not> 2000 * 2 ^ 52 \<le> mfloor (isqrt X)" unfolding mfloor_galois munits_2000 by simp
  then have "msqrt (munits (fmag x)) < INF_MAG"
    by (simp add: msqrt_def Let_def X_def INF_MAG_def)
  then show ?thesis using x by (auto simp: f_sqrt_def is_finite_def is_nan_def is_infinite_def nonneg_iff)
qed

lemma f_of_int_finite_big: "\<bar>i\<bar> \<le> 2 ^ 900 \<Longrightarrow> is_finite (f_of_int i)"
proof -
  assume i: "\<bar>i\<bar> \<le> 2 ^ 900"
  have "nat \<bar>i\<bar> \<le> 2 ^ 900" using i by (simp add: nat_le_iff)
  then have "nat \<bar>i\<bar> * one_units \<le> 2 ^ 900 * 2 ^ 1074" unfolding one_units_def by (rule mult_le_mono1)
  also have "\<dots> \<le> (2 :: nat) ^ 2051" unfolding power_add[symmetric] by (rule power_increasing) simp_all
  finally have "nat \<bar>i\<bar> * one_units \<le> munits (2000 * 2 ^ 52) * 1" by (simp only: munits_2000 mult_1_right)
  then have "imag (nat \<bar>i\<bar>) \<le> 2000 * 2 ^ 52"
    unfolding imag_def using zero_less_one by (rule mround_le)
  then show ?thesis by (simp add: f_of_int_imag is_finite_def INF_MAG_def)
qed

lemma f_of_int_nonneg: "0 \<le> i \<Longrightarrow> 0 \<le> f_of_int i"
  by (simp add: f_of_int_imag nonneg_iff is_nan_def imag_def mround_le_INF leD)

lemma times_mono_f64: "0 \<le> x \<Longrightarrow> x \<le> y \<Longrightarrow> is_finite y \<Longrightarrow> 0 \<le> c \<Longrightarrow> is_finite c \<Longrightarrow> x * c \<le> (y * c :: f64)"
proof -
  assume a: "0 \<le> x" "x \<le> y" "is_finite y" "0 \<le> c" "is_finite c"
  have y: "0 \<le> y" using a(1,2) by (rule f_le_trans)
  have sx: "\<not> fneg x \<or> fmag x = 0" "\<not> fneg y \<or> fmag y = 0" "\<not> fneg c \<or> fmag c = 0"
    using a y by (auto simp: nonneg_iff is_zero_def)
  have m: "fmag x \<le> fmag y" using a(2) sx by (auto simp: less_eq_f64_def fkey_def split: if_splits)
  then have fx: "is_finite x" using a(3) by (simp add: is_finite_def)
  have "mround (munits (fmag x) * munits (fmag c)) one_units \<le> mround (munits (fmag y) * munits (fmag c)) one_units"
    using m by (intro mround_mono) simp_all
  then show ?thesis
    using sx fx a(3,5) mult_not_nan[OF fx a(5)] mult_not_nan[OF a(3,5)]
    by (auto simp: times_f64_def finite_iff less_eq_f64_def fkey_def)
qed

lemma f_as_u64_mono: "0 \<le> x \<Longrightarrow> x \<le> y \<Longrightarrow> f_as_u64 x \<le> f_as_u64 y"
proof -
  assume a: "0 \<le> x" "x \<le> y"
  have n: "\<not> is_nan x" "\<not> is_nan y" using a by (auto simp: less_eq_f64_def)
  have y: "0 \<le> y" using a by (rule f_le_trans)
  have sx: "\<not> fneg x \<or> fmag x = 0" "\<not> fneg y \<or> fmag y = 0" using a(1) y by (auto simp: nonneg_iff is_zero_def)
  have "fmag x \<le> fmag y" using a(2) sx by (auto simp: less_eq_f64_def fkey_def split: if_splits)
  then have "munits (fmag x) div one_units \<le> munits (fmag y) div one_units" by (intro div_le_mono) simp
  then have "f_trunc x \<le> f_trunc y" using sx by (auto simp: f_trunc_def)
  then show ?thesis using n by (simp add: f_as_u64_def)
qed

lemma f_as_u64_of_int: "0 \<le> k \<Longrightarrow> k \<le> 2 ^ 53 \<Longrightarrow> f_as_u64 (f_of_int k) = nat k"
proof -
  assume k: "0 \<le> k" "k \<le> 2 ^ 53"
  have n: "nat \<bar>k\<bar> \<le> 2 ^ 53" using k by (simp add: nat_le_iff)
  have "\<not> is_nan (f_of_int k)" using imag_finite[OF n] by (simp add: is_nan_def f_of_int_imag)
  moreover have "f_trunc (f_of_int k) = k"
    unfolding f_trunc_def f_of_int_imag f64.sel imag_exact[OF n] using k by simp
  ultimately show ?thesis using k by (simp add: f_as_u64_def)
qed

lemma f_as_u64_zero: "is_zero x \<Longrightarrow> f_as_u64 x = 0" and f_as_u64_nan: "is_nan x \<Longrightarrow> f_as_u64 x = 0"
  by (simp_all add: f_as_u64_def f_trunc_def is_zero_def)

subsection \<open>Evaluation\<close>

text \<open>Scaling by a power of two commutes with rounding, so an operation only needs the mantissas.\<close>

lemma mfloor_unique: "munits n \<le> i \<Longrightarrow> i < munits (Suc n) \<Longrightarrow> mfloor i = n"
  using mfloor_galois[of n i] mfloor_galois[of "Suc n" i] by simp

lemma mnear_scale:
  assumes "2 ^ 52 * d \<le> a" "0 < d"
  shows "mnear (a * 2 ^ k) d = k * 2 ^ 52 + mnear a d"
proof -
  define n where "n = mfloor (a div d)"
  have n: "2 ^ 52 \<le> n"
    using assms unfolding n_def mfloor_galois by (simp add: munits_small less_eq_div_iff_mult_less_eq)
  have sc: "munits (k * 2 ^ 52 + n) = 2 ^ k * munits n" "munits (Suc (k * 2 ^ 52 + n)) = 2 ^ k * munits (Suc n)"
    using munits_shift[of n k] munits_shift[of "Suc n" k] n by simp_all
  have "munits n \<le> a div d" "a div d < munits (Suc n)"
    unfolding n_def using mfloor_bounds by simp_all
  then have b: "munits n * d \<le> a" "a < munits (Suc n) * d"
    using assms by (simp_all add: less_eq_div_iff_mult_less_eq div_less_iff_less_mult)
  have "mfloor (a * 2 ^ k div d) = k * 2 ^ 52 + n"
  proof (rule mfloor_unique)
    show "munits (k * 2 ^ 52 + n) \<le> a * 2 ^ k div d"
      using b assms unfolding sc by (simp add: less_eq_div_iff_mult_less_eq)
    show "a * 2 ^ k div d < munits (Suc (k * 2 ^ 52 + n))"
      using b assms unfolding sc by (simp add: div_less_iff_less_mult ac_simps)
  qed
  moreover have "2 * (a * 2 ^ k) < d * (2 ^ k * munits n + 2 ^ k * munits (Suc n)) \<longleftrightarrow> 2 * a < d * (munits n + munits (Suc n))"
  proof -
    have "d * (2 ^ k * munits n + 2 ^ k * munits (Suc n)) = d * (munits n + munits (Suc n)) * 2 ^ k"
      by (simp add: algebra_simps)
    moreover have "2 * (a * 2 ^ k) = 2 * a * 2 ^ k" by simp
    ultimately show ?thesis by (simp only: mult_less_cancel2) simp
  qed
  moreover have "2 * (a * 2 ^ k) = d * (2 ^ k * munits n + 2 ^ k * munits (Suc n)) \<longleftrightarrow> 2 * a = d * (munits n + munits (Suc n))"
  proof -
    have "d * (2 ^ k * munits n + 2 ^ k * munits (Suc n)) = d * (munits n + munits (Suc n)) * 2 ^ k"
      by (simp add: algebra_simps)
    moreover have "2 * (a * 2 ^ k) = 2 * a * 2 ^ k" by simp
    ultimately show ?thesis by (simp only: mult_cancel2) simp
  qed
  moreover have "even (k * 2 ^ 52 + n) \<longleftrightarrow> even n" by simp
  ultimately show ?thesis
    unfolding mnear_def Let_def by (simp only: sc flip: n_def) simp
qed

definition mround_s :: "nat \<Rightarrow> nat \<Rightarrow> nat \<Rightarrow> nat" where
  "mround_s a d k = (let t = min k (53 + blen d - blen a); a' = a * 2 ^ t in
     if 0 < d \<and> 2 ^ 52 * d \<le> a' then min INF_MAG ((k - t) * 2 ^ 52 + mnear a' d)
     else mround (a * 2 ^ k) d)"

lemma mround_s: "mround_s a d k = mround (a * 2 ^ k) d"
proof -
  define t where "t = min k (53 + blen d - blen a)"
  have "mround (a * 2 ^ k) d = min INF_MAG ((k - t) * 2 ^ 52 + mnear (a * 2 ^ t) d)"
    if "0 < d" "2 ^ 52 * d \<le> a * 2 ^ t"
  proof -
    have "a * 2 ^ k = a * 2 ^ t * 2 ^ (k - t)" by (simp add: t_def mult.assoc flip: power_add)
    then show ?thesis unfolding mround_def by (simp only: mnear_scale[OF that(2,1)])
  qed
  then show ?thesis unfolding mround_s_def Let_def t_def by simp
qed

definition mant :: "nat \<Rightarrow> nat" where
  "mant n = (if n div 2 ^ 52 = 0 then n mod 2 ^ 52 else 2 ^ 52 + n mod 2 ^ 52)"

definition mexp :: "nat \<Rightarrow> nat" where
  "mexp n = n div 2 ^ 52 - 1"

lemma munits_mant: "munits n = mant n * 2 ^ mexp n"
  by (simp add: munits_def mant_def mexp_def Let_def)

lemma mround_cancel: "0 < c \<Longrightarrow> 0 < d \<Longrightarrow> mround (a * c) (d * c) = mround a d"
  by (intro antisym mround_mono) (simp_all add: ac_simps)

lemma mround_shift: "mround (p * 2 ^ e) (q * 2 ^ f) =
  (if f \<le> e then mround_s p q (e - f) else mround_s p (q * 2 ^ (f - e)) 0)" if "0 < q"
proof (cases "f \<le> e")
  case True
  then have "p * 2 ^ e = p * 2 ^ (e - f) * 2 ^ f" by (simp add: mult.assoc flip: power_add)
  with True that show ?thesis by (simp only: mround_s mround_cancel zero_less_power zero_less_numeral if_True)
next
  case False
  then have "q * 2 ^ f = q * 2 ^ (f - e) * 2 ^ e" by (simp add: mult.assoc flip: power_add)
  with False that show ?thesis using mround_cancel[of "2 ^ e" "q * 2 ^ (f - e)" p]
    by (simp only: mround_s mult.assoc) simp
qed

lemma mant_0_iff [simp]: "mant n = 0 \<longleftrightarrow> n = 0"
  by (metis mult_is_0 munits_eq_0_iff munits_mant power_not_zero zero_neq_numeral)

lemma times_mag_code: "mround (munits m * munits n) one_units =
  (let e = mexp m + mexp n; p = mant m * mant n in
   if 1074 \<le> e then mround_s p 1 (e - 1074) else mround_s p (2 ^ (1074 - e)) 0)"
proof -
  have "munits m * munits n = mant m * mant n * 2 ^ (mexp m + mexp n)"
    by (simp add: munits_mant power_add)
  moreover have "one_units = 1 * 2 ^ 1074" by (simp only: one_units_def mult_1)
  ultimately show ?thesis using mround_shift[of 1 "mant m * mant n" "mexp m + mexp n" 1074]
    by (simp only: zero_less_one Let_def mult_1 simp_thms)
qed

lemma divide_mag_code: "0 < n \<Longrightarrow> mround (munits m * one_units) (munits n) =
  (let e = mexp m + 1074; p = mant m; q = mant n; f = mexp n in
   if f \<le> e then mround_s p q (e - f) else mround_s p (q * 2 ^ (f - e)) 0)"
proof -
  assume "0 < n"
  then have "0 < mant n" by (metis gr0I mant_0_iff)
  moreover have "munits m * one_units = mant m * 2 ^ (mexp m + 1074)"
    by (simp only: one_units_def munits_mant power_add mult.assoc)
  ultimately show ?thesis by (simp only: munits_mant[of n] mround_shift Let_def)
qed

lemma scaled_int_code: "mround (a * one_units) d = mround_s a d 1074"
  by (simp only: one_units_def mround_s)

definition rnd_s :: "bool \<Rightarrow> int \<Rightarrow> nat \<Rightarrow> f64" where
  "rnd_s s j k = (if j = 0 then F64 s 0 else F64 (j < 0) (mround_s (nat \<bar>j\<bar>) 1 k))"

lemma rnd_s: "rnd_s s j k = rnd s (j * 2 ^ k) 1"
  by (auto simp: rnd_s_def rnd_def mround_s mult_less_0_iff abs_mult nat_mult_distrib nat_power_eq)

lemma plus_rnd_code: "rnd s (fint x + fint y) 1 =
  (let ex = mexp (fmag x); ey = mexp (fmag y); k = min ex ey;
       sg = (\<lambda>b m. if b then - int m else int m) in
   rnd_s s (sg (fneg x) (mant (fmag x)) * 2 ^ (ex - k) + sg (fneg y) (mant (fmag y)) * 2 ^ (ey - k)) k)"
proof -
  define k where "k = min (mexp (fmag x)) (mexp (fmag y))"
  have *: "(2::int) ^ mexp (fmag x) = 2 ^ (mexp (fmag x) - k) * 2 ^ k"
    "(2::int) ^ mexp (fmag y) = 2 ^ (mexp (fmag y) - k) * 2 ^ k"
    by (simp_all add: k_def flip: power_add)
  have "fint z = (if fneg z then - int (mant (fmag z)) else int (mant (fmag z))) * 2 ^ mexp (fmag z)" for z
    by (simp add: fint_def munits_mant)
  with * have "fint x + fint y = ((if fneg x then - int (mant (fmag x)) else int (mant (fmag x))) * 2 ^ (mexp (fmag x) - k) +
    (if fneg y then - int (mant (fmag y)) else int (mant (fmag y))) * 2 ^ (mexp (fmag y) - k)) * 2 ^ k"
    by (simp add: distrib_right mult.assoc)
  then show ?thesis by (simp add: Let_def rnd_s flip: k_def)
qed

lemma plus_f64_code [code]: "x + y = (if is_nan x \<or> is_nan y then f_nan
     else if is_infinite x then (if is_infinite y \<and> fneg x \<noteq> fneg y then f_nan else x)
     else if is_infinite y then y
     else let ex = mexp (fmag x); ey = mexp (fmag y); k = min ex ey;
       sg = (\<lambda>b m. if b then - int m else int m) in
   rnd_s (fneg x \<and> fneg y) (sg (fneg x) (mant (fmag x)) * 2 ^ (ex - k) + sg (fneg y) (mant (fmag y)) * 2 ^ (ey - k)) k)"
  by (simp only: plus_f64_def plus_rnd_code)

lemma times_f64_code [code]: "x * y = (if is_nan x \<or> is_nan y then f_nan
     else if is_infinite x \<or> is_infinite y then
       (if is_zero x \<or> is_zero y then f_nan else F64 (fneg x \<noteq> fneg y) INF_MAG)
     else F64 (fneg x \<noteq> fneg y) (let e = mexp (fmag x) + mexp (fmag y); p = mant (fmag x) * mant (fmag y) in
       if 1074 \<le> e then mround_s p 1 (e - 1074) else mround_s p (2 ^ (1074 - e)) 0))"
  by (simp only: times_f64_def times_mag_code)

lemma divide_f64_code [code]: "divide x y = (if is_nan x \<or> is_nan y then f_nan
     else if is_infinite x then
       (if is_infinite y then f_nan else F64 (fneg x \<noteq> fneg y) INF_MAG)
     else if is_infinite y then F64 (fneg x \<noteq> fneg y) 0
     else if is_zero y then
       (if is_zero x then f_nan else F64 (fneg x \<noteq> fneg y) INF_MAG)
     else F64 (fneg x \<noteq> fneg y) (let e = mexp (fmag x) + 1074; p = mant (fmag x); q = mant (fmag y); f = mexp (fmag y) in
       if f \<le> e then mround_s p q (e - f) else mround_s p (q * 2 ^ (f - e)) 0))"
  using divide_mag_code[of "fmag y" "fmag x"] by (auto simp: divide_f64_def is_zero_def)

lemma f_lit_code [code]: "f_lit a b = F64 False (mround_s a b 1074)"
  by (simp only: f_lit_def scaled_int_code)

lemma f_of_int_code [code]: "f_of_int i = rnd_s False i 1074"
  by (simp add: f_of_int_def rnd_s one_units_def)



primrec num_bits :: "num \<Rightarrow> num" where
  "num_bits num.One = num.One"
| "num_bits (num.Bit0 n) = Num.inc (num_bits n)"
| "num_bits (num.Bit1 n) = Num.inc (num_bits n)"

lemma blen_numeral [simp]: "blen (numeral n) = numeral (num_bits n)" "blen 0 = 0" "blen (Suc 0) = 1" "blen 1 = 1"
proof -
  show "blen (numeral n) = numeral (num_bits n)"
  proof (induction n)
    case (Bit0 n)
    then show ?case by (subst blen.simps) (simp add: numeral_inc)
  next
    case (Bit1 n)
    then show ?case by (subst blen.simps) (simp add: numeral_inc)
  qed (simp add: blen.simps)
qed (simp_all add: blen.simps)

lemma munits_bits: "munits n = (let e = drop_bit 52 n; m = take_bit 52 n
     in if e = 0 then m else push_bit (e - 1) (2 ^ 52 + m))"
  unfolding munits_def Let_def drop_bit_eq_div take_bit_eq_mod push_bit_eq_mult ..

lemma mfloor_bits: "mfloor i = (let k = blen i - 53 in push_bit 52 k + drop_bit k i)"
  by (simp add: mfloor_def drop_bit_eq_div push_bit_eq_mult)

lemma mant_bits: "mant n = (if drop_bit 52 n = 0 then take_bit 52 n else 2 ^ 52 + take_bit 52 n)"
  by (simp add: mant_def drop_bit_eq_div take_bit_eq_mod)

lemma mexp_bits: "mexp n = drop_bit 52 n - 1"
  by (simp add: mexp_def drop_bit_eq_div)

lemma mround_s_bits: "mround_s a d k = (let t = min k (53 + blen d - blen a); a' = push_bit t a in
     if 0 < d \<and> push_bit 52 d \<le> a' then min INF_MAG (push_bit 52 (k - t) + mnear a' d)
     else mround (push_bit k a) d)"
  unfolding mround_s_def Let_def push_bit_eq_mult mult.commute[of "2 ^ 52"] ..

lemma rnd_s_bits: "rnd_s s j k = (if j = 0 then F64 s 0 else F64 (j < 0) (mround_s (nat \<bar>j\<bar>) 1 k))"
  by (simp add: rnd_s_def)

lemmas f64_eval = f_lit_code f_of_int_code mround_s_bits mnear_def mfloor_bits munits_bits INF_MAG_def Let_def
  plus_f64_code times_f64_code divide_f64_code minus_f64_def uminus_f64_def one_f64_def zero_f64_def
  rnd_s_def mant_bits mexp_bits is_nan_def is_infinite_def is_zero_def is_finite_def less_eq_f64_def
  less_f64_def f_eq_def fkey_def f_max_def f_min_def f_clamp_def f_abs_def

end
