(* ===== verification/Hashing.thy ===== *)
theory Hashing
  imports Float64
begin

text \<open>
  The deterministic hashing of \<open>types.rs\<close>: the FNV-1a hasher and the byte streams that Rust's
  \<open>Hash\<close> implementations feed it (integers in the little-endian byte order of the supported
  targets, a vector as its length in a \<open>usize\<close> and then its elements, a struct or a tuple as its
  fields in order). The lemmas show that hashing is a left fold over the stream and that every step
  is injective, so two streams that differ in one byte never collide.
\<close>

unbundle bit_operations_syntax

type_synonym byte = "8 word"

definition FNV_OFFSET :: u64 where "FNV_OFFSET = 0xcbf29ce484222325"
definition FNV_PRIME :: u64 where "FNV_PRIME = 0x00000100000001B3"

text \<open>One turn of the loop of \<open>Fnv1aHasher::write\<close>, and the loop.\<close>

definition fnv_step :: "u64 \<Rightarrow> byte \<Rightarrow> u64" where
  "fnv_step h b = (h XOR ucast b) * FNV_PRIME"

fun fnv_write :: "u64 \<Rightarrow> byte list \<Rightarrow> u64" where
  "fnv_write h [] = h"
| "fnv_write h (b # bs) = fnv_write (fnv_step h b) bs"

text \<open>\<open>to_ne_bytes\<close> of an unsigned integer of \<open>n\<close> bytes.\<close>

fun le_bytes :: "nat \<Rightarrow> 'a::len word \<Rightarrow> byte list" where
  "le_bytes 0 w = []"
| "le_bytes (Suc n) w = ucast w # le_bytes n (drop_bit 8 w)"

definition enc_u32 :: "u32 \<Rightarrow> byte list" where "enc_u32 w = le_bytes 4 w"
definition enc_u64 :: "u64 \<Rightarrow> byte list" where "enc_u64 w = le_bytes 8 w"
definition enc_u128 :: "u128 \<Rightarrow> byte list" where "enc_u128 w = le_bytes 16 w"
definition enc_usize :: "nat \<Rightarrow> byte list" where "enc_usize n = le_bytes 8 (of_nat n :: u64)"
definition enc_i64 :: "int \<Rightarrow> byte list" where "enc_i64 i = le_bytes 8 (of_int i :: u64)"

definition enc_i64_vec :: "int list \<Rightarrow> byte list" where
  "enc_i64_vec xs = enc_usize (length xs) @ concat (map enc_i64 xs)"

text \<open>\<open>stable_hash_u64\<close> of a value with this stream.\<close>

definition stable_hash_u64 :: "byte list \<Rightarrow> u64" where
  "stable_hash_u64 bs = fnv_write FNV_OFFSET bs"

subsection \<open>Lemmas\<close>

lemma fnv_write_append: "fnv_write h (as @ bs) = fnv_write (fnv_write h as) bs"
  by (induction as arbitrary: h) auto

lemma fnv_prime_unit: "FNV_PRIME * 0xCE965057AFF6957B = 1"
  by (simp add: FNV_PRIME_def)

lemma fnv_prime_cancel: "a * FNV_PRIME = b * FNV_PRIME \<longleftrightarrow> a = b"
proof
  assume "a * FNV_PRIME = b * FNV_PRIME"
  then have "a * (FNV_PRIME * 0xCE965057AFF6957B) = b * (FNV_PRIME * 0xCE965057AFF6957B)"
    by (simp only: mult.assoc[symmetric])
  then show "a = b" by (simp only: fnv_prime_unit mult_1_right)
qed simp

lemma xor_cancel_right: "(a::'a::len word) XOR c = b XOR c \<longleftrightarrow> a = b"
  by (metis bit.xor_self xor.assoc xor.right_neutral xor_self_eq)

lemma xor_cancel_left: "(c::'a::len word) XOR a = c XOR b \<longleftrightarrow> a = b"
  by (metis xor.commute xor_cancel_right)

lemma unat_ucast_byte: "unat (ucast (b::byte) :: u64) = unat b"
proof -
  have "unat b < 2 ^ 8" using unsigned_less[of b, where 'a=nat] by simp
  then have "unat b < 2 ^ 64" by simp
  then show ?thesis by (simp add: unsigned_ucast_eq take_bit_nat_eq_self)
qed
lemma ucast_byte_inj: "(ucast (a::byte) :: u64) = ucast b \<longleftrightarrow> a = b"
  by (metis unat_ucast_byte word_unat_eq_iff)

lemma fnv_step_inj_state: "fnv_step h b = fnv_step h' b \<longleftrightarrow> h = h'"
  by (simp add: fnv_step_def fnv_prime_cancel xor_cancel_right)

lemma fnv_step_inj_byte: "fnv_step h b = fnv_step h b' \<longleftrightarrow> b = b'"
  by (simp add: fnv_step_def fnv_prime_cancel xor_cancel_left ucast_byte_inj)

lemma fnv_write_inj_state: "fnv_write h bs = fnv_write h' bs \<longleftrightarrow> h = h'"
  by (induction bs arbitrary: h h') (auto simp: fnv_step_inj_state)

lemma length_le_bytes [simp]: "length (le_bytes n w) = n"
  by (induction n arbitrary: w) auto

text \<open>
  The hashes of two streams that differ in exactly one byte differ.
\<close>

lemma fnv_single_byte:
  assumes "b \<noteq> b'"
  shows "fnv_write h (as @ b # bs) \<noteq> fnv_write h (as @ b' # bs)"
  using assms by (simp add: fnv_write_append fnv_write_inj_state fnv_step_inj_byte)

end
