(* ===== verification/Types.thy ===== *)
theory Types
  imports Hashing
begin

text \<open>
  The data of \<open>imads-core/src/types.rs\<close> (ids, fidelities, environments, estimates, job results,
  cache keys, the candidate life cycle, work items), the objective containers, the evaluator
  interface of \<open>core/evaluator.rs\<close> as a record of functions, and the environment revision. The
  record \<open>extern\<close> holds what is not defined under src/: the constructor and the \<open>Hash\<close> byte stream of the
  crate typed_floats and the three functions of the platform's libm, whose results Rust does not specify.
\<close>

subsection \<open>External functions\<close>

record extern =
  nnf_new :: "f64 \<Rightarrow> f64 option"
  nnf_bytes :: "f64 \<Rightarrow> byte list"
  x_exp :: "f64 \<Rightarrow> f64"
  x_ln :: "f64 \<Rightarrow> f64"
  x_ln_1p :: "f64 \<Rightarrow> f64"

text \<open>
  The documented behaviour of \<open>NonNaNFinite::<f64>::new\<close>: an error for a NaN or an infinity.
\<close>

definition extern_ok :: "extern \<Rightarrow> bool" where
  "extern_ok X \<longleftrightarrow> nnf_new X = (\<lambda>x. if is_finite x then Some x else None)"

text \<open>A concrete instance, for the closed examples.\<close>

definition extern0 :: extern where
  "extern0 = \<lparr>nnf_new = (\<lambda>x. if is_finite x then Some x else None),
     nnf_bytes = (\<lambda>x. enc_u64 (f_to_bits x)), x_exp = (\<lambda>x. 1 + x), x_ln = (\<lambda>x. x - 1), x_ln_1p = (\<lambda>x. x)\<rparr>"

lemma extern0_ok [simp]: "extern_ok extern0"
  by (simp add: extern_ok_def extern0_def)

subsection \<open>Coordinates\<close>

type_synonym cand_id = u64
type_synonym xmesh = "int list"
type_synonym xreal = "f64 list"

text \<open>\<open>XReal::new\<close> stops at the first coordinate that is not a finite number.\<close>

fun xreal_new :: "extern \<Rightarrow> f64 list \<Rightarrow> xreal option" where
  "xreal_new X [] = Some []"
| "xreal_new X (x # xs) =
     (case nnf_new X x of None \<Rightarrow> None
      | Some v \<Rightarrow> (case xreal_new X xs of None \<Rightarrow> None | Some vs \<Rightarrow> Some (v # vs)))"

lemma xreal_new_ok: "extern_ok X \<Longrightarrow>
  xreal_new X xs = (if \<forall>x \<in> set xs. is_finite x then Some xs else None)"
  by (induction xs) (auto simp: extern_ok_def)

subsection \<open>Fidelities and environments\<close>

datatype phi = Phi (phi_tau: u64) (phi_smc: u32)

text \<open>\<open>#[derive(Ord)]\<close> on \<open>Phi\<close>: lexicographic, \<open>tau\<close> first.\<close>

instantiation phi :: linorder
begin

definition less_eq_phi :: "phi \<Rightarrow> phi \<Rightarrow> bool" where
  "p \<le> q \<longleftrightarrow> phi_tau p < phi_tau q \<or> phi_tau p = phi_tau q \<and> phi_smc p \<le> phi_smc q"

definition less_phi :: "phi \<Rightarrow> phi \<Rightarrow> bool" where
  "p < q \<longleftrightarrow> phi_tau p < phi_tau q \<or> phi_tau p = phi_tau q \<and> phi_smc p < phi_smc q"

instance
  by standard (auto simp: less_eq_phi_def less_phi_def intro: phi.expand)

end

text \<open>\<open>phi.tau.0 as f64\<close>.\<close>

definition tau_f64 :: "u64 \<Rightarrow> f64" where
  "tau_f64 t = f_of_int (uint t)"

record env =
  run_id :: u128
  config_hash :: u128
  data_snapshot_id :: u128
  rng_master_seed :: u128

type_synonym env_rev_t = u128
type_synonym policy_rev_t = u64

definition enc_env :: "env \<Rightarrow> byte list" where
  "enc_env e = enc_u128 (run_id e) @ enc_u128 (config_hash e) @ enc_u128 (data_snapshot_id e)
     @ enc_u128 (rng_master_seed e)"

definition env_rev :: "env \<Rightarrow> env_rev_t" where
  "env_rev e = ucast (fnv_write FNV_OFFSET (enc_env e))"

definition env_rev_with_steps :: "env \<Rightarrow> f64 list \<Rightarrow> env_rev_t" where
  "env_rev_with_steps e base_steps =
     ucast (fnv_write FNV_OFFSET (enc_env e @ concat (map (\<lambda>s. enc_u64 (f_to_bits s)) base_steps)))"

subsection \<open>Evaluation results\<close>

record eval_meta =
  em_phi :: phi
  em_env_rev :: env_rev_t
  em_policy_rev :: policy_rev_t
  em_runtime_cost :: f64

record estimates =
  f_hat :: "f64 list"
  f_se :: "f64 list"
  c_hat :: "f64 list"
  c_se :: "f64 list"
  es_phi :: phi
  tau_scale :: f64
  es_num_objectives :: nat

definition f_hat_primary :: "estimates \<Rightarrow> f64" where
  "f_hat_primary e = get_or f_inf (f_hat e) 0"

definition f_se_primary :: "estimates \<Rightarrow> f64" where
  "f_se_primary e = get_or 0 (f_se e) 0"

datatype job_result =
    RejectedCheap (jr_meta: eval_meta)
  | RejectedInvalidEval (jr_meta: eval_meta)
  | EarlyInfeasible (ei_violated_j: nat) (jr_estimates: estimates) (jr_meta: eval_meta)
  | Partial (jr_estimates: estimates) (jr_meta: eval_meta)
  | Truth (tr_f: "f64 list") (tr_c: "f64 list") (tr_feasible: bool) (tr_v: f64) (jr_meta: eval_meta)

datatype cache_tag = TagCheap | TagPartial | TagTruth

datatype eval_key = EvalKey (ek_x: xmesh) (ek_phi: phi) (ek_env_rev: env_rev_t)

datatype decision_key =
  DecisionKey (dk_x: xmesh) (dk_phi: phi) (dk_env_rev: env_rev_t) (dk_policy_rev: policy_rev_t) (dk_tag: cache_tag)

subsection \<open>Candidates and work items\<close>

datatype cand_status =
    Ready
  | InFlight nat
  | DoneRejectedCheap
  | DoneRejectedInvalidEval
  | DoneEarlyInfeasible nat nat
  | DoneStoppedPartial nat
  | DoneTruth

record audit_origin =
  ao_violated_j :: nat
  ao_phi_at_cut :: phi
  ao_phi_idx_at_cut :: nat
  ao_paired :: "nat list"

record cand =
  cd_id :: cand_id
  cd_x :: xmesh
  cd_base_score :: f64
  cd_created_epoch :: nat
  cd_next_phi_idx :: nat
  cd_last_estimates_phi_idx :: "nat option"
  cd_last_estimates :: "estimates option"
  cd_audit_required :: bool
  cd_audit_origin :: "audit_origin option"
  cd_audit_cut_estimates :: "estimates option"
  cd_cheap_checked :: bool
  cd_cheap_ok :: bool
  cd_submitted_policy_rev :: policy_rev_t
  cd_submitted_incumbent_id :: nat
  cd_status :: cand_status

datatype ready_kind = New | Resume

record ready_view =
  rv_id :: cand_id
  rv_kind :: ready_kind
  rv_x :: xmesh
  rv_next_phi_idx :: nat
  rv_score :: f64
  rv_audit_required :: bool

record work_item =
  wi_cand_id :: cand_id
  wi_x :: xmesh
  wi_phi_idx :: nat
  wi_phi :: phi
  wi_env_rev :: env_rev_t
  wi_policy_rev :: policy_rev_t
  wi_incumbent_id :: nat

subsection \<open>Objective containers and evaluators\<close>

text \<open>The implementations of \<open>ObjectiveValues\<close>: \<open>f64\<close>, \<open>Vec<f64>\<close> and \<open>[f64; N]\<close>.\<close>

datatype objectives = ObjScalar f64 | ObjVec "f64 list" | ObjArray "f64 list"

fun obj_as_slice :: "objectives \<Rightarrow> f64 list" where
  "obj_as_slice (ObjScalar x) = [x]"
| "obj_as_slice (ObjVec xs) = xs"
| "obj_as_slice (ObjArray xs) = xs"

fun obj_len :: "objectives \<Rightarrow> nat" where
  "obj_len (ObjScalar x) = 1"
| "obj_len (ObjVec xs) = length xs"
| "obj_len (ObjArray xs) = length xs"

fun obj_get :: "objectives \<Rightarrow> nat \<Rightarrow> f64 option" where
  "obj_get (ObjScalar x) i = (if i = 0 then Some x else None)"
| "obj_get (ObjVec xs) i = get xs i"
| "obj_get (ObjArray xs) i = (if i < length xs then Some (xs ! i) else None)"

fun obj_primary :: "objectives \<Rightarrow> f64" where
  "obj_primary (ObjScalar x) = x"
| "obj_primary ob = (case obj_get ob 0 of Some x \<Rightarrow> x | None \<Rightarrow> f_inf)"

fun obj_zero :: "objectives \<Rightarrow> nat \<Rightarrow> objectives" where
  "obj_zero (ObjScalar _) n = ObjScalar 0"
| "obj_zero (ObjVec _) n = ObjVec (replicate n 0)"
| "obj_zero (ObjArray xs) n = ObjArray (replicate (length xs) 0)"

text \<open>
  \<open>EvaluatorErased\<close>: the engine's view of the user's black box. Its functions are parameters and may panic.
\<close>

record evaluator =
  ev_cheap :: "xreal \<Rightarrow> env \<Rightarrow> bool res"
  ev_mc_sample :: "xreal \<Rightarrow> phi \<Rightarrow> env \<Rightarrow> nat \<Rightarrow> (f64 list \<times> f64 list) res"
  ev_solver_bias :: "xreal \<Rightarrow> u64 \<Rightarrow> env \<Rightarrow> (f64 list \<times> f64 list) res"
  ev_num_objectives :: nat
  ev_num_constraints :: nat
  ev_search_dim :: "nat option"

text \<open>The blanket implementation over a typed evaluator's \<open>mc_sample\<close> and \<open>solver_bias\<close>.\<close>

definition erase_obj :: "objectives \<times> f64 list \<Rightarrow> f64 list \<times> f64 list" where
  "erase_obj p = (case p of (ob, cons) \<Rightarrow> (obj_as_slice ob, cons))"

text \<open>The default \<open>solver_bias\<close>: zero for every objective and constraint.\<close>

definition default_solver_bias :: "objectives \<Rightarrow> nat \<Rightarrow> nat \<Rightarrow> objectives \<times> f64 list" where
  "default_solver_bias ty num_obj num_con = (obj_zero ty num_obj, replicate num_con 0)"

lemma obj_get_slice: "obj_get ob i = get (obj_as_slice ob) i"
  by (cases ob) (auto simp: get_def)

lemma obj_len_slice: "obj_len ob = length (obj_as_slice ob)"
  by (cases ob) auto

lemma obj_primary_slice: "obj_primary ob = get_or f_inf (obj_as_slice ob) 0"
  by (cases ob) (auto simp: get_or_def get_def)

end
