(* ===== verification/Cache.thy ===== *)
theory Cache
  imports Types
begin

text \<open>
  \<open>backends/cache.rs\<close>: the in-memory caches. A cache is a map behind a mutex; once the mutex is
  poisoned (a thread panicked while holding it) \<open>get\<close> misses and \<open>put\<close> does nothing. The two traits state
  one contract, the locale \<open>cache_backend\<close>: a lookup returns a value that was put under that key, or nothing.
\<close>

record ('k, 'v) mem_cache =
  mc_inner :: "'k \<rightharpoonup> 'v"
  mc_poisoned :: bool

definition cache_empty :: "('k, 'v) mem_cache" where
  "cache_empty = \<lparr>mc_inner = Map.empty, mc_poisoned = False\<rparr>"

definition cache_get :: "('k, 'v) mem_cache \<Rightarrow> 'k \<Rightarrow> 'v option" where
  "cache_get c k = (if mc_poisoned c then None else mc_inner c k)"

definition cache_put :: "'k \<Rightarrow> 'v \<Rightarrow> ('k, 'v) mem_cache \<Rightarrow> ('k, 'v) mem_cache" where
  "cache_put k v c = (if mc_poisoned c then c else c\<lparr>mc_inner := (mc_inner c)(k \<mapsto> v)\<rparr>)"

type_synonym eval_cache = "(eval_key, estimates) mem_cache"
type_synonym decision_cache = "(decision_key, job_result) mem_cache"

definition eval_cache_get :: "eval_cache \<Rightarrow> eval_key \<Rightarrow> estimates option" where
  "eval_cache_get c k = cache_get c k"

definition eval_cache_put :: "eval_key \<Rightarrow> estimates \<Rightarrow> eval_cache \<Rightarrow> eval_cache" where
  "eval_cache_put k v c = cache_put k v c"

definition decision_cache_get :: "decision_cache \<Rightarrow> decision_key \<Rightarrow> job_result option" where
  "decision_cache_get c k = cache_get c k"

definition decision_cache_put :: "decision_key \<Rightarrow> job_result \<Rightarrow> decision_cache \<Rightarrow> decision_cache" where
  "decision_cache_put k v c = cache_put k v c"

subsection \<open>The contract\<close>

locale cache_backend =
  fixes get :: "'c \<Rightarrow> 'k \<Rightarrow> 'v option" and put :: "'k \<Rightarrow> 'v \<Rightarrow> 'c \<Rightarrow> 'c"
  assumes get_put: "get (put k v c) k' = Some w \<Longrightarrow> k' = k \<and> w = v \<or> get c k' = Some w"
begin

text \<open>Every stored value satisfies \<open>P\<close> at its key.\<close>

definition all_entries :: "('k \<Rightarrow> 'v \<Rightarrow> bool) \<Rightarrow> 'c \<Rightarrow> bool" where
  "all_entries P c \<longleftrightarrow> (\<forall>k v. get c k = Some v \<longrightarrow> P k v)"

lemma all_entries_put: "all_entries P c \<Longrightarrow> P k v \<Longrightarrow> all_entries P (put k v c)"
  unfolding all_entries_def using get_put by metis

lemma all_entries_puts: "all_entries P c \<Longrightarrow> (\<forall>p \<in> set ps. P (fst p) (snd p)) \<Longrightarrow>
  all_entries P (fold (\<lambda>p. put (fst p) (snd p)) ps c)"
  by (induction ps arbitrary: c) (simp_all add: all_entries_put)

lemma all_entries_get: "all_entries P c \<Longrightarrow> get c k = Some v \<Longrightarrow> P k v"
  by (simp add: all_entries_def)

lemma get_puts: "get (fold (\<lambda>p. put (fst p) (snd p)) ps c) k = Some v \<Longrightarrow>
  (k, v) \<in> set ps \<or> get c k = Some v"
proof (induction ps arbitrary: c)
  case (Cons p ps)
  then show ?case using get_put[of "fst p" "snd p" c k v] by (cases p) fastforce
qed simp

end

interpretation eval_c: cache_backend eval_cache_get eval_cache_put
  by unfold_locales (auto simp: eval_cache_get_def eval_cache_put_def cache_get_def cache_put_def split: if_splits)

interpretation decision_c: cache_backend decision_cache_get decision_cache_put
  by unfold_locales (auto simp: decision_cache_get_def decision_cache_put_def cache_get_def cache_put_def split: if_splits)

lemma decision_put_poisoned [simp]: "mc_poisoned (decision_cache_put k v c) = mc_poisoned c"
  by (simp add: decision_cache_put_def cache_put_def)

lemma decision_get_put: "decision_cache_get (decision_cache_put k v c) k' =
  (if mc_poisoned c then None else if k' = k then Some v else decision_cache_get c k')"
  by (simp add: decision_cache_get_def decision_cache_put_def cache_get_def cache_put_def)

lemma decision_get_poisoned: "mc_poisoned c \<Longrightarrow> decision_cache_get c k = None"
  by (simp add: decision_cache_get_def cache_get_def)

text \<open>
  A lookup in the decision cache after any sequence of insertions returns the last value inserted under that
  key if there is one, and otherwise what the cache held; a poisoned cache returns nothing and never changes.
\<close>

theorem decision_cache_history:
  "decision_cache_get (fold (\<lambda>(k, v). decision_cache_put k v) ps c) k =
    (if mc_poisoned c then None
     else case map_of (rev ps) k of Some v \<Rightarrow> Some v | None \<Rightarrow> decision_cache_get c k)"
proof (induction ps arbitrary: c)
  case Nil
  show ?case by (simp add: decision_get_poisoned)
next
  case (Cons p ps)
  then show ?case by (cases p) (simp add: decision_get_put decision_get_poisoned map_add_def split: option.split)
qed

end
