(* ===== verification/Mesh.thy ===== *)
theory Mesh
  imports Types
begin

text \<open>
  The mesh of \<open>types.rs\<close>: \<open>MeshGeometry\<close> and \<open>AnisotropicMeshGeometry\<close> with their
  refinement and poll steps, the maps between mesh and continuous coordinates, and the poll
  generator of \<open>core/poll.rs\<close>. The lemmas show how refinement shrinks the mesh, when meshes
  nest, that the anisotropic code agrees with the isotropic one, that quantisation lands on the
  mesh, and that the poll set is a positive spanning set on the mesh. That quantisation inverts
  \<open>mesh_to_real\<close> is theory \<open>Mesh_Roundtrip\<close>.
\<close>

record mesh_geo =
  mg_base_step :: f64
  mg_mesh_mul :: int
  mg_mesh_mul_min :: int
  mg_refine_div :: int
  mg_poll_step_mult :: int

definition mg_current_step :: "mesh_geo \<Rightarrow> f64" where
  "mg_current_step g = mg_base_step g * f_of_int (mg_mesh_mul g)"

definition mg_refine :: "mesh_geo \<Rightarrow> mesh_geo" where
  "mg_refine g = (let d = max (mg_refine_div g) 2; minm = max (mg_mesh_mul_min g) 1 in
     if mg_mesh_mul g > minm
     then g\<lparr>mg_mesh_mul := max (i64_div (mg_mesh_mul g) d) minm\<rparr> else g)"

definition mg_poll_step_units :: "mesh_geo \<Rightarrow> int" where
  "mg_poll_step_units g = i64_wrap (mg_mesh_mul g * max (mg_poll_step_mult g) 1)"

definition mesh_to_real :: "extern \<Rightarrow> xmesh \<Rightarrow> f64 \<Rightarrow> xreal option" where
  "mesh_to_real X x base_step = xreal_new X (map (\<lambda>u. f_of_int u * base_step) x)"

definition quantize_real_to_mesh :: "xreal \<Rightarrow> mesh_geo \<Rightarrow> xmesh" where
  "quantize_real_to_mesh x g =
     (let inv = 1 / mg_base_step g; m = f_of_int (max (mg_mesh_mul g) 1); step = max (mg_mesh_mul g) 1 in
      map (\<lambda>xi. let z = xi * inv; q = f_round (z / m) in i64_wrap (f_as_i64 q * step)) x)"

record aniso_geo =
  ag_base_steps :: "f64 list"
  ag_mesh_muls :: "int list"
  ag_mesh_mul_min :: int
  ag_refine_div :: int
  ag_poll_step_mult :: int

definition ag_current_steps :: "aniso_geo \<Rightarrow> f64 list" where
  "ag_current_steps g = map (\<lambda>(bs, mm). bs * f_of_int mm) (zip (ag_base_steps g) (ag_mesh_muls g))"

definition ag_current_step_max :: "aniso_geo \<Rightarrow> f64" where
  "ag_current_step_max g = fold (\<lambda>s acc. f_max acc s) (ag_current_steps g) 0"

definition ag_refine :: "aniso_geo \<Rightarrow> aniso_geo" where
  "ag_refine g = (let d = max (ag_refine_div g) 2; minm = max (ag_mesh_mul_min g) 1 in
     g\<lparr>ag_mesh_muls := map (\<lambda>mm. if mm > minm then max (i64_div mm d) minm else mm) (ag_mesh_muls g)\<rparr>)"

definition ag_poll_step_units :: "aniso_geo \<Rightarrow> int list" where
  "ag_poll_step_units g =
     (let mult = max (ag_poll_step_mult g) 1 in map (\<lambda>mm. i64_wrap (mm * mult)) (ag_mesh_muls g))"

definition ag_dim :: "aniso_geo \<Rightarrow> nat" where
  "ag_dim g = length (ag_base_steps g)"

definition to_anisotropic :: "mesh_geo \<Rightarrow> nat \<Rightarrow> aniso_geo" where
  "to_anisotropic g dim = \<lparr>ag_base_steps = replicate dim (mg_base_step g),
     ag_mesh_muls = replicate dim (mg_mesh_mul g), ag_mesh_mul_min = mg_mesh_mul_min g,
     ag_refine_div = mg_refine_div g, ag_poll_step_mult = mg_poll_step_mult g\<rparr>"

definition mesh_to_real_aniso :: "extern \<Rightarrow> xmesh \<Rightarrow> f64 list \<Rightarrow> xreal option" where
  "mesh_to_real_aniso X x base_steps =
     xreal_new X (map (\<lambda>(u, bs). f_of_int u * bs) (zip x base_steps))"

text \<open>\<open>geo.base_steps[i]\<close> and \<open>geo.mesh_muls[i]\<close> panic when \<open>x\<close> is longer than the geometry.\<close>

fun quantize_aniso_from :: "aniso_geo \<Rightarrow> nat \<Rightarrow> xreal \<Rightarrow> xmesh res" where
  "quantize_aniso_from g i [] = Inr []"
| "quantize_aniso_from g i (xi # xs) =
     (if i < length (ag_base_steps g) \<and> i < length (ag_mesh_muls g) then
        let bs = ag_base_steps g ! i; mm = max (ag_mesh_muls g ! i) 1; inv = 1 / bs; z = xi * inv;
          q = f_round (z / f_of_int mm); zi = i64_wrap (f_as_i64 q * mm) in
        case quantize_aniso_from g (Suc i) xs of Inl p \<Rightarrow> Inl p | Inr zs \<Rightarrow> Inr (zi # zs)
      else Inl Index_out_of_bounds)"

definition quantize_real_to_aniso_mesh :: "xreal \<Rightarrow> aniso_geo \<Rightarrow> xmesh res" where
  "quantize_real_to_aniso_mesh x g = quantize_aniso_from g 0 x"

subsection \<open>Poll points\<close>

text \<open>\<open>DefaultPoll::generate_points\<close>: \<open>center + s e_i\<close> and \<open>center - s e_i\<close> in turn.\<close>

definition poll_pair :: "xmesh \<Rightarrow> nat \<Rightarrow> int \<Rightarrow> xmesh list" where
  "poll_pair center i s =
     [center[i := i64_sat (center ! i + s)], center[i := i64_sat (center ! i - s)]]"

definition generate_points :: "xmesh \<Rightarrow> int \<Rightarrow> xmesh list" where
  "generate_points center step =
     concat (map (\<lambda>i. poll_pair center i (max step 1)) [0..<length center])"

definition generate_points_aniso :: "xmesh \<Rightarrow> int list \<Rightarrow> xmesh list" where
  "generate_points_aniso center steps =
     concat (map (\<lambda>i. poll_pair center i (max (get_or 1 steps i) 1)) [0..<length center])"

subsection \<open>Refinement\<close>

definition mg_floor :: "mesh_geo \<Rightarrow> int" where
  "mg_floor g = max (mg_mesh_mul_min g) 1"

text \<open>A geometry as the engine builds it: the multiplier is an i64 at or above its floor.\<close>

definition mg_wf :: "mesh_geo \<Rightarrow> bool" where
  "mg_wf g \<longleftrightarrow> i64_ok (mg_mesh_mul g) \<and> mg_floor g \<le> mg_mesh_mul g"

lemma mg_refine_frame [simp]: "mg_base_step (mg_refine g) = mg_base_step g"
  "mg_mesh_mul_min (mg_refine g) = mg_mesh_mul_min g" "mg_refine_div (mg_refine g) = mg_refine_div g"
  "mg_poll_step_mult (mg_refine g) = mg_poll_step_mult g" "mg_floor (mg_refine g) = mg_floor g"
  by (simp_all add: mg_refine_def mg_floor_def Let_def)

lemma mg_refine_mul: "mg_wf g \<Longrightarrow>
  mg_mesh_mul (mg_refine g) = max (mg_mesh_mul g div max (mg_refine_div g) 2) (mg_floor g)"
proof -
  assume wf: "mg_wf g"
  define m d f where "m = mg_mesh_mul g" and "d = max (mg_refine_div g) 2" and "f = mg_floor g"
  have f: "1 \<le> f" "f \<le> m" using wf by (auto simp: mg_wf_def mg_floor_def m_def f_def)
  have "i64_div m d = m div d"
    using wf f by (intro i64_div_pos) (auto simp: mg_wf_def m_def d_def)
  moreover have "m div d \<le> m" using f by (intro div_le_dividend_int) (auto simp: d_def)
  ultimately show ?thesis using f
    by (auto simp: mg_refine_def mg_floor_def Let_def m_def d_def f_def)
qed

lemma mg_refine_wf [inv_intros]: "mg_wf g \<Longrightarrow> mg_wf (mg_refine g)"
proof -
  assume wf: "mg_wf g"
  have "mg_mesh_mul g div max (mg_refine_div g) 2 \<le> mg_mesh_mul g"
    using wf by (intro div_le_dividend_int) (auto simp: mg_wf_def mg_floor_def)
  with wf show ?thesis
    by (auto simp: mg_wf_def mg_refine_mul i64_ok_def I64_MIN_def mg_floor_def)
qed

lemma mg_refine_pow_wf: "mg_wf g \<Longrightarrow> mg_wf ((mg_refine ^^ k) g)"
  by (induction k) (auto intro: mg_refine_wf)

lemma mg_refine_pow_frame [simp]: "mg_floor ((mg_refine ^^ k) g) = mg_floor g"
  "mg_refine_div ((mg_refine ^^ k) g) = mg_refine_div g"
  by (induction k) auto

lemma mg_refine_pow_bound: "mg_wf g \<Longrightarrow>
  mg_mesh_mul ((mg_refine ^^ k) g) \<le> max (mg_floor g) (mg_mesh_mul g div 2 ^ k)"
proof (induction k)
  case (Suc k)
  define h where "h = (mg_refine ^^ k) g"
  define d where "d = max (mg_refine_div h) 2"
  have wf: "mg_wf h" using Suc.prems by (simp add: h_def mg_refine_pow_wf)
  then have pos: "0 \<le> mg_mesh_mul h" by (auto simp: mg_wf_def mg_floor_def)
  have IH: "mg_mesh_mul h \<le> max (mg_floor g) (mg_mesh_mul g div 2 ^ k)" using Suc by (simp add: h_def)
  have "mg_mesh_mul h div d \<le> mg_mesh_mul h div 2"
    using pos by (intro zdiv_mono2) (auto simp: d_def)
  also have "\<dots> \<le> max (mg_floor g) (mg_mesh_mul g div 2 ^ k) div 2" using IH by (rule zdiv_mono1) simp
  also have "\<dots> \<le> max (mg_floor g) (mg_mesh_mul g div 2 ^ Suc k)"
  proof -
    have "mg_floor g div 2 \<le> mg_floor g" by (simp add: mg_floor_def)
    moreover have "mg_mesh_mul g div 2 ^ k div 2 = mg_mesh_mul g div 2 ^ Suc k"
      by (simp add: zdiv_zmult2_eq[symmetric] mult.commute)
    ultimately show ?thesis by (auto simp: max_def)
  qed
  finally show ?case using mg_refine_mul[OF wf] by (simp add: h_def d_def)
qed simp

text \<open>C33: the mesh multiplier of a well-formed geometry reaches its floor after at most 63 refinements.\<close>

theorem mg_refine_reaches_floor:
  assumes "mg_wf g"
  shows "mg_mesh_mul ((mg_refine ^^ 63) g) = mg_floor g"
proof (rule antisym)
  have "mg_mesh_mul g \<le> I64_MAX" "0 \<le> mg_mesh_mul g"
    using assms by (auto simp: mg_wf_def i64_ok_def mg_floor_def)
  then have "mg_mesh_mul g div 2 ^ 63 = 0" by (intro div_pos_pos_trivial) (auto simp: I64_MAX_def)
  then show "mg_mesh_mul ((mg_refine ^^ 63) g) \<le> mg_floor g"
    using mg_refine_pow_bound[OF assms, of 63] by (simp add: mg_floor_def)
  show "mg_floor g \<le> mg_mesh_mul ((mg_refine ^^ 63) g)"
    using mg_refine_pow_wf[OF assms, of 63] by (simp add: mg_wf_def)
qed

definition mesh_demo :: mesh_geo where
  "mesh_demo = \<lparr>mg_base_step = 1, mg_mesh_mul = 8, mg_mesh_mul_min = 1, mg_refine_div = 2, mg_poll_step_mult = 2\<rparr>"

lemma mesh_demo_wf [simp]: "mg_wf mesh_demo"
  by (simp add: mg_wf_def mesh_demo_def i64_ok_def I64_MIN_def I64_MAX_def mg_floor_def)

theorem mg_refine_reaches_floor_witness: "mg_mesh_mul ((mg_refine ^^ 63) mesh_demo) = 1"
  using mg_refine_reaches_floor[OF mesh_demo_wf] by (simp add: mg_floor_def mesh_demo_def)

text \<open>From \<open>floor * d ^ n\<close> every refinement divides by \<open>d\<close>, so the meshes are nested.\<close>

theorem mg_refine_nested:
  assumes "mg_wf g" "mg_mesh_mul g = mg_floor g * max (mg_refine_div g) 2 ^ n" "k \<le> n"
  shows "mg_mesh_mul ((mg_refine ^^ k) g) = mg_floor g * max (mg_refine_div g) 2 ^ (n - k)
    \<and> mg_mesh_mul ((mg_refine ^^ k) g) dvd mg_mesh_mul g"
proof -
  let ?d = "max (mg_refine_div g) 2"
  have "mg_mesh_mul ((mg_refine ^^ k) g) = mg_floor g * ?d ^ (n - k)" using assms(3)
  proof (induction k)
    case (Suc k)
    then have IH: "mg_mesh_mul ((mg_refine ^^ k) g) = mg_floor g * ?d ^ (n - k)" by simp
    have "n - k = Suc (n - Suc k)" using Suc.prems by simp
    moreover have "?d \<noteq> 0" by simp
    ultimately have q: "mg_floor g * ?d ^ (n - k) div ?d = mg_floor g * ?d ^ (n - Suc k)"
      by (simp only: power_Suc mult.left_commute[of _ ?d]) (rule nonzero_mult_div_cancel_left)
    have "mg_floor g * 1 \<le> mg_floor g * ?d ^ (n - Suc k)"
      by (intro mult_left_mono) (auto simp: mg_floor_def)
    then show ?case
      using mg_refine_mul[OF mg_refine_pow_wf[OF assms(1), of k]] by (simp add: IH q)
  qed (simp add: assms(2))
  moreover have "mg_floor g * ?d ^ (n - k) dvd mg_floor g * ?d ^ n"
    by (intro mult_dvd_mono dvd_refl le_imp_power_dvd) simp
  ultimately show ?thesis by (simp add: assms(2))
qed

theorem mg_refine_nested_witness: "mg_mesh_mul ((mg_refine ^^ 2) mesh_demo) = 2"
proof -
  have "mg_mesh_mul mesh_demo = mg_floor mesh_demo * max (mg_refine_div mesh_demo) 2 ^ 3"
    by (simp add: mg_floor_def mesh_demo_def)
  from mg_refine_nested[OF mesh_demo_wf this, of 2] show ?thesis
    by (simp add: mg_floor_def mesh_demo_def)
qed

subsection \<open>Anisotropic and isotropic meshes\<close>

lemma quantize_aniso_from_replicate:
  "i + length xs \<le> n \<Longrightarrow>
   quantize_aniso_from (to_anisotropic g n) i xs = Inr (quantize_real_to_mesh xs g)"
proof (induction xs arbitrary: i)
  case (Cons a xs)
  have "quantize_aniso_from (to_anisotropic g n) (Suc i) xs = Inr (quantize_real_to_mesh xs g)"
    using Cons.prems by (intro Cons.IH) simp
  with Cons.prems show ?case by (simp add: to_anisotropic_def quantize_real_to_mesh_def Let_def)
qed (simp add: quantize_real_to_mesh_def)

lemma ag_refine_iso: "ag_refine (to_anisotropic g n) = to_anisotropic (mg_refine g) n"
  by (simp add: ag_refine_def to_anisotropic_def mg_refine_def Let_def)

lemma ag_poll_step_iso: "ag_poll_step_units (to_anisotropic g n) = replicate n (mg_poll_step_units g)"
  by (simp add: ag_poll_step_units_def to_anisotropic_def mg_poll_step_units_def Let_def)

lemma generate_points_iso:
  "generate_points_aniso c (replicate (length c) s) = generate_points c s"
  unfolding generate_points_aniso_def generate_points_def
  by (intro arg_cong[where f = concat] map_cong) (auto simp: get_or_def get_def)

text \<open>
  C34: broadcasting an isotropic geometry to \<open>dim\<close> dimensions changes nothing: quantisation, the map
  to continuous space, refinement and the poll set of the anisotropic code are those of the isotropic code.
\<close>

theorem to_anisotropic_agrees:
  "quantize_real_to_aniso_mesh xr (to_anisotropic g (length xr)) = Inr (quantize_real_to_mesh xr g)
   \<and> mesh_to_real_aniso X c (ag_base_steps (to_anisotropic g (length c))) = mesh_to_real X c (mg_base_step g)
   \<and> ag_refine (to_anisotropic g n) = to_anisotropic (mg_refine g) n
   \<and> generate_points_aniso c (ag_poll_step_units (to_anisotropic g (length c)))
         = generate_points c (mg_poll_step_units g)"
proof -
  have "map (\<lambda>(u, bs). f_of_int u * bs) (zip c (replicate (length c) b)) = map (\<lambda>u. f_of_int u * b) c" for b
    by (induction c) auto
  then have "mesh_to_real_aniso X c (ag_base_steps (to_anisotropic g (length c))) = mesh_to_real X c (mg_base_step g)"
    by (simp add: mesh_to_real_aniso_def mesh_to_real_def to_anisotropic_def)
  then show ?thesis by (simp add: quantize_real_to_aniso_mesh_def quantize_aniso_from_replicate ag_refine_iso
      ag_poll_step_iso generate_points_iso)
qed

subsection \<open>The poll set\<close>

text \<open>The step fits: no coordinate of the poll set saturates.\<close>

definition poll_fits :: "xmesh \<Rightarrow> int \<Rightarrow> bool" where
  "poll_fits c s \<longleftrightarrow> (\<forall>u \<in> set c. i64_ok (u + max s 1) \<and> i64_ok (u - max s 1))"

lemma generate_points_mem: "poll_fits c s \<Longrightarrow> p \<in> set (generate_points c s) \<longleftrightarrow>
  (\<exists>i < length c. p = c[i := c ! i + max s 1] \<or> p = c[i := c ! i - max s 1])"
  by (auto simp: generate_points_def poll_pair_def poll_fits_def i64_sat_id)

lemma generate_points_length: "length (generate_points c s) = 2 * length c"
  by (simp add: generate_points_def poll_pair_def length_concat comp_def sum_list_triv)

lemma generate_points_distinct: "poll_fits c s \<Longrightarrow> distinct (generate_points c s)"
proof -
  assume f: "poll_fits c s"
  have upd: "c[i := a] \<noteq> c[j := b]" if "i < length c" "j < length c" "i \<noteq> j" "a \<noteq> c ! i" for i j a b
    using that by (metis nth_list_update_eq nth_list_update_neq)
  have pair: "poll_pair c i (max s 1) = [c[i := c ! i + max s 1], c[i := c ! i - max s 1]]"
    if "i < length c" for i
    using f that by (simp add: poll_pair_def poll_fits_def i64_sat_id)
  have "c[i := c ! i + max s 1] \<noteq> c[i := c ! i - max s 1]" if "i < length c" for i
  proof
    assume "c[i := c ! i + max s 1] = c[i := c ! i - max s 1]"
    then have "c[i := c ! i + max s 1] ! i = c[i := c ! i - max s 1] ! i" by simp
    with that show False by simp
  qed
  then have "distinct (poll_pair c i (max s 1))" if "i < length c" for i using that by (simp add: pair)
  moreover have "set (poll_pair c i (max s 1)) \<inter> set (poll_pair c j (max s 1)) = {}"
    if "i < length c" "j < length c" "i \<noteq> j" for i j
    using that by (auto simp: pair upd upd[symmetric])
  moreover have "inj_on (\<lambda>i. poll_pair c i (max s 1)) {..<length c}"
  proof (rule inj_onI, rule ccontr)
    fix i j assume "i \<in> {..<length c}" "j \<in> {..<length c}" "i \<noteq> j"
      "poll_pair c i (max s 1) = poll_pair c j (max s 1)"
    then show False using upd[of i j "c ! i + max s 1" "c ! j + max s 1"] by (simp add: pair)
  qed
  ultimately show ?thesis
    unfolding generate_points_def
    by (intro distinct_concat) (auto simp: distinct_map atLeast0LessThan)
qed

text \<open>
  C36: the poll set has \<open>2 n\<close> distinct points, none of them the centre, all of them on the mesh when
  the centre and the step are; it is a positive spanning set, so for every non-zero direction one of
  its points improves along that direction.
\<close>

theorem generate_points_positive_spanning:
  assumes "poll_fits c s" "m dvd max s 1" "\<forall>u \<in> set c. m dvd u"
  shows "distinct (generate_points c s) \<and> length (generate_points c s) = 2 * length c
    \<and> (\<forall>p \<in> set (generate_points c s). p \<noteq> c \<and> length p = length c \<and> (\<forall>u \<in> set p. m dvd u))
    \<and> (\<forall>v :: int list. (\<exists>i < length c. v ! i \<noteq> 0) \<longrightarrow>
         (\<exists>p \<in> set (generate_points c s). 0 < (\<Sum>i < length c. (p ! i - c ! i) * v ! i)))"
proof (intro conjI)
  let ?t = "max s 1"
  have mem: "p \<in> set (generate_points c s) \<longleftrightarrow>
    (\<exists>i < length c. p = c[i := c ! i + ?t] \<or> p = c[i := c ! i - ?t])" for p
    by (rule generate_points_mem[OF assms(1)])
  have dot: "(\<Sum>j < length c. (c[i := c ! i + a] ! j - c ! j) * v ! j) = a * v ! i"
    if "i < length c" for i a and v :: "int list"
  proof -
    have "(\<Sum>j < length c. (c[i := c ! i + a] ! j - c ! j) * v ! j)
      = (\<Sum>j < length c. if j = i then a * v ! i else 0)"
      by (intro sum.cong) (auto simp: nth_list_update)
    then show ?thesis using that by simp
  qed
  show "\<forall>p \<in> set (generate_points c s). p \<noteq> c \<and> length p = length c \<and> (\<forall>u \<in> set p. m dvd u)"
  proof (intro ballI conjI)
    fix p assume "p \<in> set (generate_points c s)"
    then obtain i a where p: "i < length c" "p = c[i := c ! i + a]" "a = ?t \<or> a = - ?t"
      unfolding mem by (metis diff_conv_add_uminus)
    show "p \<noteq> c"
    proof
      assume "p = c"
      then have "c[i := c ! i + a] ! i = c ! i" using p(2) by simp
      with p show False by auto
    qed
    show "length p = length c" using p by simp
    fix u assume "u \<in> set p"
    then have "u \<in> set c \<or> u = c ! i + a" using p(2) set_update_subset_insert by fastforce
    moreover have "m dvd a" using p(3) assms(2) by auto
    ultimately show "m dvd u" using assms(3) p(1) by auto
  qed
  show "\<forall>v :: int list. (\<exists>i < length c. v ! i \<noteq> 0) \<longrightarrow>
    (\<exists>p \<in> set (generate_points c s). 0 < (\<Sum>i < length c. (p ! i - c ! i) * v ! i))"
  proof (intro allI impI)
    fix v :: "int list" assume "\<exists>i < length c. v ! i \<noteq> 0"
    then obtain i where i: "i < length c" "v ! i \<noteq> 0" by blast
    define a where "a = (if 0 < v ! i then ?t else - ?t)"
    have "0 < a * v ! i" using i(2) by (auto simp: a_def zero_less_mult_iff)
    moreover have "c[i := c ! i + a] \<in> set (generate_points c s)"
      unfolding mem using i(1) by (auto simp: a_def)
    ultimately show "\<exists>p \<in> set (generate_points c s). 0 < (\<Sum>i < length c. (p ! i - c ! i) * v ! i)"
      by (intro bexI[of _ "c[i := c ! i + a]"]) (simp_all only: dot[OF i(1)])
  qed
qed (simp_all add: generate_points_distinct[OF assms(1)] generate_points_length)

theorem generate_points_positive_spanning_witness:
  "\<exists>p \<in> set (generate_points [4, 0, -8] 2). 0 < (\<Sum>i < 3. (p ! i - [4, 0, -8] ! i) * [0, -5, 1] ! i)"
proof -
  have fits: "poll_fits [4, 0, -8] 2"
    by (simp add: poll_fits_def i64_ok_def I64_MIN_def I64_MAX_def)
  have even: "2 dvd max 2 (1 :: int)" "\<forall>u \<in> set [4, 0, - 8]. 2 dvd (u :: int)" by simp_all
  have "\<exists>i < length [4, 0, - 8 :: int]. [0, - 5, 1 :: int] ! i \<noteq> 0"
    by (rule exI[of _ 1]) simp
  then have "\<exists>p \<in> set (generate_points [4, 0, -8] 2).
      0 < (\<Sum>i < length [4, 0, - 8 :: int]. (p ! i - [4, 0, -8] ! i) * [0, -5, 1] ! i)"
    using generate_points_positive_spanning[OF fits even] by (elim conjE) (erule allE, erule mp)
  moreover have "length [4, 0, - 8 :: int] = 3" by simp
  ultimately show ?thesis by (simp only:)
qed

end
