(* ===== verification/Evaluator.thy ===== *)
theory Evaluator
  imports Types
begin

text \<open>
  \<open>core/evaluator.rs\<close>: the blanket implementation that erases the type of a typed evaluator's objectives, the
  trait's default methods, and \<open>ToyEvaluator\<close>, the black box behind \<open>Engine::run\<close>. The lemmas show that the erased
  evaluator reports what the typed one does, that the toy evaluator has the shape the engine expects, and that its
  noise is in the unit interval.
\<close>

subsection \<open>Erasure\<close>

text \<open>A typed evaluator: the functions of the trait, with the objective container still typed.\<close>

record typed_evaluator =
  te_cheap :: "xreal \<Rightarrow> env \<Rightarrow> bool res"
  te_mc_sample :: "xreal \<Rightarrow> phi \<Rightarrow> env \<Rightarrow> nat \<Rightarrow> (objectives \<times> f64 list) res"
  te_solver_bias :: "xreal \<Rightarrow> u64 \<Rightarrow> env \<Rightarrow> (objectives \<times> f64 list) res"
  te_num_objectives :: nat
  te_num_constraints :: nat
  te_search_dim :: "nat option"

definition erased :: "typed_evaluator \<Rightarrow> evaluator" where
  "erased E = \<lparr>ev_cheap = te_cheap E,
     ev_mc_sample = (\<lambda>x p e k. res_bind (te_mc_sample E x p e k) (\<lambda>r. Inr (erase_obj r))),
     ev_solver_bias = (\<lambda>x t e. res_bind (te_solver_bias E x t e) (\<lambda>r. Inr (erase_obj r))),
     ev_num_objectives = te_num_objectives E, ev_num_constraints = te_num_constraints E,
     ev_search_dim = te_search_dim E\<rparr>"

text \<open>The defaults of the trait for an evaluator that overrides nothing; \<open>ty\<close> is a value of its objective type.\<close>

definition trait_defaults :: "objectives \<Rightarrow> typed_evaluator \<Rightarrow> typed_evaluator" where
  "trait_defaults ty E = E\<lparr>te_cheap := (\<lambda>_ _. Inr True),
     te_solver_bias := (\<lambda>_ _ _. Inr (default_solver_bias ty (te_num_objectives E) (te_num_constraints E))),
     te_search_dim := None\<rparr>"

subsection \<open>\<open>ToyEvaluator\<close>\<close>

definition splitmix_mix :: "u64 \<Rightarrow> u64" where
  "splitmix_mix z0 = (let z1 = (z0 XOR drop_bit 30 z0) * 0xBF58476D1CE4E5B9;
     z2 = (z1 XOR drop_bit 27 z1) * 0x94D049BB133111EB in z2 XOR drop_bit 31 z2)"

definition prng_u64 :: "u64 \<Rightarrow> u64" where
  "prng_u64 seed = splitmix_mix (seed + 0x9E3779B97F4A7C15)"

definition u01 :: "u64 \<Rightarrow> f64" where
  "u01 seed = f_of_int (uint (drop_bit 11 (prng_u64 seed))) / f_of_int (2 ^ 53)"

text \<open>The byte stream of \<open>#[derive(Hash)]\<close> on \<open>XReal\<close>.\<close>

definition enc_xreal :: "extern \<Rightarrow> xreal \<Rightarrow> byte list" where
  "enc_xreal X x = enc_usize (length x) @ concat (map (nnf_bytes X) x)"

definition toy_noise_hash :: "extern \<Rightarrow> xreal \<Rightarrow> phi \<Rightarrow> env \<Rightarrow> nat \<Rightarrow> u64" where
  "toy_noise_hash X x p e k = stable_hash_u64 (enc_u64 (stable_hash_u64 (enc_xreal X x)) @ enc_u64 (phi_tau p)
     @ enc_u32 (phi_smc p) @ enc_env e @ enc_u32 (of_nat k))"

definition toy_noise :: "u64 \<Rightarrow> f64" where
  "toy_noise h = (u01 h - f_lit 5 10) * f_lit 2 1"

definition toy_mc_sample :: "extern \<Rightarrow> nat \<Rightarrow> xreal \<Rightarrow> phi \<Rightarrow> env \<Rightarrow> nat \<Rightarrow> objectives \<times> f64 list" where
  "toy_mc_sample X m x p e k =
     (let sm = f_sum x; f_det = f_sum (map (\<lambda>v. v * v) x); h = toy_noise_hash X x p e k;
        s = f_sqrt (f_of_int (uint (max (phi_smc p) 1))) in
      (ObjScalar (f_det + toy_noise h / s),
       map (\<lambda>j. let hj = stable_hash_u64 (enc_u64 h @ enc_u64 (of_nat j)) in
         sm - (f_of_int (int j) + 1) + toy_noise hj / s) [0..<m]))"

definition toy_solver_bias :: "nat \<Rightarrow> xreal \<Rightarrow> u64 \<Rightarrow> objectives \<times> f64 list" where
  "toy_solver_bias m x tau =
     (let t = tau_f64 tau; mag = f_sqrt (f_of_int (int (max (length x) 1))) in
      (ObjScalar (f_lit 1 (10 ^ 6) * t * mag), map (\<lambda>j. f_lit 1 (10 ^ 6) * t * (f_of_int (int j) + 1)) [0..<m]))"

definition toy_typed :: "extern \<Rightarrow> nat \<Rightarrow> nat \<Rightarrow> typed_evaluator" where
  "toy_typed X m dim = \<lparr>te_cheap = (\<lambda>_ _. Inr True), te_mc_sample = (\<lambda>x p e k. Inr (toy_mc_sample X m x p e k)),
     te_solver_bias = (\<lambda>x t _. Inr (toy_solver_bias m x t)), te_num_objectives = 1, te_num_constraints = m,
     te_search_dim = (if dim > 0 then Some dim else None)\<rparr>"

definition toy_evaluator :: "extern \<Rightarrow> nat \<Rightarrow> nat \<Rightarrow> evaluator" where
  "toy_evaluator X m dim = erased (toy_typed X m dim)"

subsection \<open>Well-formed evaluators\<close>

text \<open>
  What the documentation of the traits asks of an evaluator: it returns as many values as it declares. The engine
  tolerates less (missing objectives count as infinite, missing constraints as zero).
\<close>

definition evaluator_total :: "evaluator \<Rightarrow> bool" where
  "evaluator_total ev \<longleftrightarrow> (\<forall>x e. \<exists>b. ev_cheap ev x e = Inr b)
     \<and> (\<forall>x p e k. \<exists>r. ev_mc_sample ev x p e k = Inr r) \<and> (\<forall>x t e. \<exists>r. ev_solver_bias ev x t e = Inr r)"

lemma toy_total: "evaluator_total (toy_evaluator X m dim)"
  by (auto simp: evaluator_total_def toy_evaluator_def erased_def toy_typed_def intro: exI[of _ True])

lemma toy_shape:
  "ev_mc_sample (toy_evaluator X m dim) x p e k = Inr r \<Longrightarrow> length (fst r) = 1 \<and> length (snd r) = m"
  "ev_solver_bias (toy_evaluator X m dim) x t e = Inr r \<Longrightarrow> length (fst r) = 1 \<and> length (snd r) = m"
  by (auto simp: toy_evaluator_def erased_def toy_typed_def erase_obj_def toy_mc_sample_def toy_solver_bias_def Let_def)

subsection \<open>The generator\<close>

lemma xorshift_inj:
  assumes "0 < s" "z XOR drop_bit s z = w XOR drop_bit s (w :: u64)"
  shows "z = w"
proof -
  have step: "bit z n = bit w n" if "bit z (n + s) = bit w (n + s)" for n
    using arg_cong[OF assms(2), of "\<lambda>x. bit x n"] that by (auto simp: bit_xor_iff bit_drop_bit_eq add.commute)
  have "bit z n = bit w n" if "64 - n = k" for n k
    using that
  proof (induction k arbitrary: n rule: less_induct)
    case (less k)
    show ?case
    proof (cases "n < 64")
      case True
      with less.prems assms(1) have "bit z (n + s) = bit w (n + s)" by (intro less.IH[of "64 - (n + s)"]) auto
      then show ?thesis by (rule step)
    next
      case False
      then have "\<not> bit z n" "\<not> bit w n" using bit_imp_le_length[of z n] bit_imp_le_length[of w n] by auto
      then show ?thesis by simp
    qed
  qed
  then show ?thesis by (intro bit_word_eqI) simp
qed

lemma mult_cancel_inv:
  assumes "c * i = 1" "a * c = b * (c :: u64)"
  shows "a = b"
proof -
  have "a = a * c * i" by (simp add: mult.assoc assms(1))
  also have "\<dots> = b" by (simp add: assms(2) mult.assoc assms(1))
  finally show ?thesis .
qed

lemma mix_step_inj:
  assumes "0 < s" "c * i = 1" "(a XOR drop_bit s a) * c = (b XOR drop_bit s b) * (c :: u64)"
  shows "a = b"
  by (rule xorshift_inj[OF assms(1) mult_cancel_inv[OF assms(2,3)]])

lemma splitmix_mix_inj: "splitmix_mix a = splitmix_mix b \<longleftrightarrow> a = b"
proof
  define f1 f2 where "f1 z = (z XOR drop_bit 30 z) * 0xBF58476D1CE4E5B9"
    and "f2 z = (z XOR drop_bit 27 z) * 0x94D049BB133111EB" for z :: u64
  have mix: "splitmix_mix z = f2 (f1 z) XOR drop_bit 31 (f2 (f1 z))" for z
    by (simp only: splitmix_mix_def Let_def f1_def f2_def)
  assume "splitmix_mix a = splitmix_mix b"
  then have "f2 (f1 a) = f2 (f1 b)" unfolding mix by (rule xorshift_inj[rotated]) simp
  then have "f1 a = f1 b" unfolding f2_def by (rule mix_step_inj[of 27 _ "0x319642b2d24d8ec3", rotated 2]) simp_all
  then show "a = b" unfolding f1_def by (rule mix_step_inj[of 30 _ "0x96de1b173f119089", rotated 2]) simp_all
qed simp

lemma prng_u64_inj: "prng_u64 a = prng_u64 b \<longleftrightarrow> a = b"
  by (simp add: prng_u64_def splitmix_mix_inj)

lemma uint_div_2_11: "uint (drop_bit 11 (w :: u64)) = uint w div 2 ^ 11"
  using uint_div_distrib[of w "2 ^ 11"] by (simp add: drop_bit_eq_div)

lemma drop_11_less: "uint (drop_bit 11 (w :: u64)) < 2 ^ 53"
proof -
  have "uint w < 2 ^ 64" using uint_lt2p[of w] by simp
  then have "uint w div 2 ^ 11 < 2 ^ 53" by simp
  then show ?thesis by (simp only: uint_div_2_11)
qed

text \<open>A fraction of \<open>2^53\<close> with a smaller numerator is computed below one.\<close>

lemma unit_fraction:
  assumes "0 \<le> k" "k < 2 ^ 53"
  shows "0 \<le> f_of_int k / f_of_int (2 ^ 53)" "f_of_int k / f_of_int (2 ^ 53) < 1"
proof -
  let ?p = "4607182418800017407 :: nat" and ?n = "nat k"
  define a b where "a = imag ?n" and "b = imag (2 ^ 53)"
  have a: "munits a = ?n * one_units" and b: "munits b = 2 ^ 53 * one_units"
    unfolding a_def b_def using assms by (simp_all add: imag_exact)
  have fin: "is_finite (f_of_int k)" "is_finite (f_of_int (2 ^ 53))"
    using assms by (simp_all add: f_of_int_finite)
  have fk: "f_of_int k = F64 False a" "f_of_int (2 ^ 53) = F64 False b"
    using assms by (simp_all add: f_of_int_imag a_def b_def)
  have "0 < munits b" unfolding b by (intro mult_pos_pos one_units_pos) simp
  then have b0: "0 < b" by (simp only: munits_pos)
  obtain A :: nat where A: "munits ?p = (2 ^ 53 - 1) * A" "one_units = 2 ^ 53 * A"
  proof
    show "munits ?p = (2 ^ 53 - 1) * 2 ^ 1021" unfolding munits_def Let_def by simp
    show "one_units = 2 ^ 53 * 2 ^ 1021" by (simp add: one_units_def)
  qed
  have "?n * (A * (2 ^ 53 * one_units)) \<le> (2 ^ 53 - 1) * (A * (2 ^ 53 * one_units))"
    using assms by (intro mult_le_mono1) simp
  then have "munits a * one_units \<le> munits ?p * munits b"
    unfolding a b A(1) by (subst (2) A(2)) (simp only: mult_ac)
  then have "mround (munits a * one_units) (munits b) \<le> ?p" using b0 by (intro mround_le) simp_all
  moreover have "f_of_int k / f_of_int (2 ^ 53) = F64 False (mround (munits a * one_units) (munits b))"
    using fin b0 unfolding fk by (auto simp: divide_f64_def f64_pred_defs)
  ultimately show "0 \<le> f_of_int k / f_of_int (2 ^ 53)" "f_of_int k / f_of_int (2 ^ 53) < 1"
    by (simp_all add: f64_ord_defs f64_pred_defs fkey_def one_f64_def mround_le_INF leD INF_MAG_def)
qed

lemma u01_range: "0 \<le> u01 seed" "u01 seed < 1"
  unfolding u01_def by (rule unit_fraction[OF uint_ge_0 drop_11_less])+

text \<open>
  The generator behind the toy evaluator's noise is a permutation of the 64-bit seeds, and the fraction it derives
  from a seed lies in the half-open unit interval, in floating point and for every seed.
\<close>

theorem prng_unit_interval:
  "bij prng_u64 \<and> 0 \<le> u01 seed \<and> u01 seed < 1"
  using u01_range finite_UNIV_inj_surj[of prng_u64] by (simp add: bij_def inj_def prng_u64_inj)

end
