(* ===== verification/Calibrator.thy ===== *)
theory Calibrator
  imports Types
begin

text \<open>
  \<open>policies/calibrator.rs\<close>: the calibration state, \<open>NoopCalibrator\<close>, \<open>DeltaCalibrator\<close> and
  \<open>DeltaKCalibrator\<close>. \<open>f64::exp\<close> is the function \<open>x_exp\<close> of the parameter \<open>extern\<close> and nothing is assumed of
  it. A \<open>clamp\<close> whose bounds come from the configuration, an index into \<open>counts\<close> and an
  unwrapped comparison can panic, so the operations that reach one return a \<open>res\<close>. A \<open>BTreeMap\<close> is an
  association list in key order. The locale \<open>calibrator_policy\<close> states what the engine relies on.
\<close>

subsection \<open>Data\<close>

datatype k_interval_key = K_interval_key (kk_loose: u64) (kk_tight: u64) (kk_smc: u32)

text \<open>\<open>#[derive(Ord)]\<close>: lexicographic in the order of the fields.\<close>

instantiation k_interval_key :: linorder
begin

definition less_k_interval_key :: "k_interval_key \<Rightarrow> k_interval_key \<Rightarrow> bool" where
  "a < b \<longleftrightarrow> kk_loose a < kk_loose b \<or> kk_loose a = kk_loose b \<and>
     (kk_tight a < kk_tight b \<or> kk_tight a = kk_tight b \<and> kk_smc a < kk_smc b)"

definition less_eq_k_interval_key :: "k_interval_key \<Rightarrow> k_interval_key \<Rightarrow> bool" where
  "a \<le> b \<longleftrightarrow> kk_loose a < kk_loose b \<or> kk_loose a = kk_loose b \<and>
     (kk_tight a < kk_tight b \<or> kk_tight a = kk_tight b \<and> kk_smc a \<le> kk_smc b)"

instance
  by standard (auto simp: less_k_interval_key_def less_eq_k_interval_key_def intro: k_interval_key.expand)

end

record k_interval_state =
  ki_key :: k_interval_key
  ki_k_f :: f64
  ki_k_c :: "f64 list"
  ki_sample_count_f :: nat
  ki_sample_count_c :: "nat list"

record k_by_phi_state =
  kp_phi :: phi
  kp_k_f :: f64
  kp_k_c :: "f64 list"

record calib_state =
  cs_policy_rev :: policy_rev_t
  cs_delta_rel :: "f64 list"
  cs_k_c :: "f64 list"
  cs_k_f :: f64
  cs_eps_f :: f64
  cs_target_false :: f64
  cs_min_audits :: nat
  cs_eta_delta :: f64
  cs_delta_min :: f64
  cs_delta_max :: f64
  cs_cut_n :: "nat list"
  cs_audit_n :: "nat list"
  cs_false_infeas_n :: "nat list"
  cs_confirmed_violation_n :: "nat list"
  cs_cut_n_by_phi_idx :: "nat list list"
  cs_audit_n_by_phi_idx :: "nat list list"
  cs_false_infeas_n_by_phi_idx :: "nat list list"
  cs_confirmed_violation_n_by_phi_idx :: "nat list list"
  cs_k_interval_stats :: "k_interval_state list"
  cs_k_by_phi :: "k_by_phi_state list"

record calib_cfg =
  cc_target_false :: f64
  cc_min_audits :: nat
  cc_eta_delta :: f64
  cc_delta_min :: f64
  cc_delta_max :: f64
  cc_k_window :: nat
  cc_k_min_pairs :: nat
  cc_k_quantile :: f64
  cc_k_eta :: f64

definition calib_cfg_default :: calib_cfg where
  "calib_cfg_default = \<lparr>cc_target_false = f_lit 1 100, cc_min_audits = 20, cc_eta_delta = f_lit 1 10,
     cc_delta_min = 0, cc_delta_max = f_lit 5 100, cc_k_window = 4096, cc_k_min_pairs = 25,
     cc_k_quantile = f_lit 90 100, cc_k_eta = f_lit 2 10\<rparr>"

record audit_of =
  af_violated_j :: nat
  af_phi_at_cut :: phi
  af_phi_idx_at_cut :: nat

record paired_audit_sample =
  pa_paired_phi :: phi
  pa_paired_phi_idx :: nat
  pa_estimates :: estimates

record calib_event =
  ce_id :: cand_id
  ce_result :: job_result
  ce_audited :: bool
  ce_audit_of :: "audit_of option"
  ce_paired_sample :: "paired_audit_sample option"

text \<open>\<open>CalibState::default()\<close> and the state every \<open>init\<close> builds for \<open>m\<close> constraints.\<close>

definition calib_state_default :: calib_state where
  "calib_state_default = \<lparr>cs_policy_rev = 0, cs_delta_rel = [], cs_k_c = [], cs_k_f = 0, cs_eps_f = 0,
     cs_target_false = 0, cs_min_audits = 0, cs_eta_delta = 0, cs_delta_min = 0, cs_delta_max = 0,
     cs_cut_n = [], cs_audit_n = [], cs_false_infeas_n = [], cs_confirmed_violation_n = [],
     cs_cut_n_by_phi_idx = [], cs_audit_n_by_phi_idx = [], cs_false_infeas_n_by_phi_idx = [],
     cs_confirmed_violation_n_by_phi_idx = [], cs_k_interval_stats = [], cs_k_by_phi = []\<rparr>"

definition calib_state_init :: "nat \<Rightarrow> calib_state" where
  "calib_state_init m = \<lparr>cs_policy_rev = 0, cs_delta_rel = replicate m (f_lit 5 1000), cs_k_c = replicate m 0,
     cs_k_f = 0, cs_eps_f = f_lit 1 1000, cs_target_false = f_lit 1 100, cs_min_audits = 20,
     cs_eta_delta = f_lit 1 10, cs_delta_min = 0, cs_delta_max = f_lit 5 100,
     cs_cut_n = replicate m 0, cs_audit_n = replicate m 0, cs_false_infeas_n = replicate m 0,
     cs_confirmed_violation_n = replicate m 0, cs_cut_n_by_phi_idx = replicate m [],
     cs_audit_n_by_phi_idx = replicate m [], cs_false_infeas_n_by_phi_idx = replicate m [],
     cs_confirmed_violation_n_by_phi_idx = replicate m [], cs_k_interval_stats = [], cs_k_by_phi = []\<rparr>"

subsection \<open>Configuration\<close>

definition clamp_res :: "f64 \<Rightarrow> f64 \<Rightarrow> f64 \<Rightarrow> f64 res" where
  "clamp_res lo hi x = (case f_clamp x lo hi of None \<Rightarrow> Inl Clamp_bad_bounds | Some y \<Rightarrow> Inr y)"

text \<open>\<open>f64::clamp(0.0, 1.0)\<close>, whose constant bounds cannot panic.\<close>

definition clamp01 :: "f64 \<Rightarrow> f64" where
  "clamp01 x = the (f_clamp x 0 1)"

definition noop_configure :: "calib_cfg \<Rightarrow> calib_state \<Rightarrow> calib_state res" where
  "noop_configure cfg s =
     (let s' = s\<lparr>cs_target_false := cc_target_false cfg, cs_min_audits := cc_min_audits cfg,
        cs_eta_delta := cc_eta_delta cfg, cs_delta_min := cc_delta_min cfg, cs_delta_max := cc_delta_max cfg\<rparr> in
      res_bind (res_map (clamp_res (cs_delta_min s') (cs_delta_max s')) (cs_delta_rel s'))
        (\<lambda>ds. Inr (s'\<lparr>cs_delta_rel := ds\<rparr>)))"

definition noop_update :: "calib_event list \<Rightarrow> calib_state \<Rightarrow> u64 \<times> calib_state" where
  "noop_update events s = (0, s)"

subsection \<open>Audit counts\<close>

record counts =
  ct_cut :: nat
  ct_audit :: nat
  ct_false_infeas :: nat
  ct_confirmed_violation :: nat
  ct_cut_by_phi_idx :: "nat list"
  ct_audit_by_phi_idx :: "nat list"
  ct_false_infeas_by_phi_idx :: "nat list"
  ct_confirmed_violation_by_phi_idx :: "nat list"

definition counts_default :: counts where
  "counts_default = \<lparr>ct_cut = 0, ct_audit = 0, ct_false_infeas = 0, ct_confirmed_violation = 0,
     ct_cut_by_phi_idx = [], ct_audit_by_phi_idx = [], ct_false_infeas_by_phi_idx = [],
     ct_confirmed_violation_by_phi_idx = []\<rparr>"

definition grow :: "nat \<Rightarrow> nat list \<Rightarrow> nat list" where
  "grow idx xs = (if length xs \<le> idx then resize (Suc idx) 0 xs else xs)"

definition ensure_level :: "nat \<Rightarrow> counts \<Rightarrow> counts" where
  "ensure_level idx c =
     c\<lparr>ct_cut_by_phi_idx := grow idx (ct_cut_by_phi_idx c),
       ct_audit_by_phi_idx := grow idx (ct_audit_by_phi_idx c),
       ct_false_infeas_by_phi_idx := grow idx (ct_false_infeas_by_phi_idx c),
       ct_confirmed_violation_by_phi_idx := grow idx (ct_confirmed_violation_by_phi_idx c)\<rparr>"

definition incr_at :: "nat \<Rightarrow> nat list \<Rightarrow> nat list" where
  "incr_at i xs = xs[i := Suc (xs ! i)]"

text \<open>A cut that is audited: \<open>counts[j].cut += 1\<close> and its level, when \<open>j\<close> is in range.\<close>

definition cut_entry :: "nat \<Rightarrow> counts \<Rightarrow> counts" where
  "cut_entry lvl c =
     (let c1 = ensure_level lvl (c\<lparr>ct_cut := Suc (ct_cut c)\<rparr>) in
      c1\<lparr>ct_cut_by_phi_idx := incr_at lvl (ct_cut_by_phi_idx c1)\<rparr>)"

definition count_cut :: "audit_of \<Rightarrow> counts list \<Rightarrow> counts list" where
  "count_cut a cs = (let j = af_violated_j a in
     if j < length cs then cs[j := cut_entry (af_phi_idx_at_cut a) (cs ! j)] else cs)"

text \<open>The TRUTH outcome of an audited cut.\<close>

definition truth_entry :: "nat \<Rightarrow> bool \<Rightarrow> bool \<Rightarrow> counts \<Rightarrow> counts" where
  "truth_entry lvl feasible violated c =
     (let c1 = ensure_level lvl (c\<lparr>ct_audit := Suc (ct_audit c)\<rparr>);
        c2 = c1\<lparr>ct_audit_by_phi_idx := incr_at lvl (ct_audit_by_phi_idx c1)\<rparr>;
        c3 = (if feasible
              then c2\<lparr>ct_false_infeas := Suc (ct_false_infeas c2),
                ct_false_infeas_by_phi_idx := incr_at lvl (ct_false_infeas_by_phi_idx c2)\<rparr> else c2) in
      if violated
      then c3\<lparr>ct_confirmed_violation := Suc (ct_confirmed_violation c3),
        ct_confirmed_violation_by_phi_idx := incr_at lvl (ct_confirmed_violation_by_phi_idx c3)\<rparr> else c3)"

definition count_truth :: "audit_of \<Rightarrow> bool \<Rightarrow> f64 list \<Rightarrow> counts list \<Rightarrow> counts list" where
  "count_truth a feasible cv cs = (let j = af_violated_j a in
     if j < length cs
     then cs[j := truth_entry (af_phi_idx_at_cut a) feasible (get_or 0 cv j > 0) (cs ! j)] else cs)"

text \<open>\<open>sync_counts_to_state\<close>: every vector ends with one entry per constraint, taken from \<open>counts\<close>.\<close>

definition per_constraint :: "nat \<Rightarrow> 'a \<Rightarrow> (counts \<Rightarrow> 'a) \<Rightarrow> counts list \<Rightarrow> 'a list" where
  "per_constraint m d f cs = map (\<lambda>j. case get cs j of Some c \<Rightarrow> f c | None \<Rightarrow> d) [0..<m]"

definition sync_counts_to_state :: "counts list \<Rightarrow> calib_state \<Rightarrow> calib_state" where
  "sync_counts_to_state cs s = (let m = length (cs_delta_rel s) in
     s\<lparr>cs_cut_n := per_constraint m 0 ct_cut cs,
       cs_audit_n := per_constraint m 0 ct_audit cs,
       cs_false_infeas_n := per_constraint m 0 ct_false_infeas cs,
       cs_confirmed_violation_n := per_constraint m 0 ct_confirmed_violation cs,
       cs_cut_n_by_phi_idx := per_constraint m [] ct_cut_by_phi_idx cs,
       cs_audit_n_by_phi_idx := per_constraint m [] ct_audit_by_phi_idx cs,
       cs_false_infeas_n_by_phi_idx := per_constraint m [] ct_false_infeas_by_phi_idx cs,
       cs_confirmed_violation_n_by_phi_idx := per_constraint m [] ct_confirmed_violation_by_phi_idx cs\<rparr>)"

subsection \<open>The slack controller\<close>

text \<open>The direction \<open>s\<close> of \<open>update_delta\<close> for one constraint: up, down or none.\<close>

definition delta_dir :: "f64 \<Rightarrow> counts \<Rightarrow> int" where
  "delta_dir target_false c =
     (let p_false = (f_of_int (int (ct_false_infeas c)) + 1) / (f_of_int (int (ct_audit c)) + f_lit 2 1);
        t = clamp01 target_false in
      if p_false > t then 1 else if p_false < t / f_lit 3 1 then -1 else 0)"

text \<open>One constraint: \<open>None\<close> leaves the slack as it is.\<close>

definition delta_next :: "extern \<Rightarrow> calib_state \<Rightarrow> counts \<Rightarrow> f64 \<Rightarrow> f64 option res" where
  "delta_next X s c old =
     (if ct_audit c < max (cs_min_audits s) 1 then Inr None
      else let d = delta_dir (cs_target_false s) c in
        if d = 0 then Inr None
        else let eta = f_max (cs_eta_delta s) 0; mult = (if d > 0 then x_exp X eta else x_exp X (- eta)) in
          res_bind (clamp_res (cs_delta_min s) (cs_delta_max s) (old * mult))
            (\<lambda>nx. Inr (if f_abs (nx - old) > f_lit 1 (10 ^ 15) then Some nx else None)))"

fun update_delta_loop :: "extern \<Rightarrow> counts list \<Rightarrow> nat list \<Rightarrow> calib_state \<Rightarrow> bool \<Rightarrow> (bool \<times> calib_state) res" where
  "update_delta_loop X cs [] s changed = Inr (changed, s)"
| "update_delta_loop X cs (j # js) s changed =
     (case get cs j of None \<Rightarrow> Inl Index_out_of_bounds
      | Some c \<Rightarrow> res_bind (delta_next X s c (cs_delta_rel s ! j)) (\<lambda>r. case r of
          None \<Rightarrow> update_delta_loop X cs js s changed
        | Some nx \<Rightarrow> update_delta_loop X cs js (s\<lparr>cs_delta_rel := (cs_delta_rel s)[j := nx]\<rparr>) True))"

definition update_delta :: "extern \<Rightarrow> counts list \<Rightarrow> calib_state \<Rightarrow> (bool \<times> calib_state) res" where
  "update_delta X cs s = update_delta_loop X cs [0..<length (cs_delta_rel s)] s False"

subsection \<open>DeltaCalibrator\<close>

record delta_calibrator =
  dc_state :: calib_state
  dc_counts :: "counts list"
  dc_pending :: "cand_id \<rightharpoonup> audit_of"

definition delta_init :: "nat \<Rightarrow> delta_calibrator \<Rightarrow> delta_calibrator" where
  "delta_init m d = \<lparr>dc_state = calib_state_init m, dc_counts = replicate m counts_default, dc_pending = Map.empty\<rparr>"

definition delta_configure :: "calib_cfg \<Rightarrow> delta_calibrator \<Rightarrow> delta_calibrator res" where
  "delta_configure cfg d =
     (let s' = (dc_state d)\<lparr>cs_target_false := cc_target_false cfg, cs_min_audits := cc_min_audits cfg,
        cs_eta_delta := cc_eta_delta cfg, cs_delta_min := cc_delta_min cfg, cs_delta_max := cc_delta_max cfg\<rparr> in
      res_bind (res_map (clamp_res (cs_delta_min s') (cs_delta_max s')) (cs_delta_rel s'))
        (\<lambda>ds. Inr (d\<lparr>dc_state := s'\<lparr>cs_delta_rel := ds\<rparr>\<rparr>)))"

definition delta_event :: "calib_event \<Rightarrow> delta_calibrator \<Rightarrow> delta_calibrator" where
  "delta_event e d = (case ce_result e of
      EarlyInfeasible _ _ _ \<Rightarrow>
        (case ce_audit_of e of
          Some a \<Rightarrow> if ce_audited e \<and> dc_pending d (ce_id e) = None
            then d\<lparr>dc_counts := count_cut a (dc_counts d), dc_pending := (dc_pending d)(ce_id e \<mapsto> a)\<rparr> else d
        | None \<Rightarrow> d)
    | Partial _ _ \<Rightarrow>
        (case ce_audit_of e of
          Some a \<Rightarrow> if ce_audited e \<and> dc_pending d (ce_id e) = None
            then d\<lparr>dc_counts := count_cut a (dc_counts d), dc_pending := (dc_pending d)(ce_id e \<mapsto> a)\<rparr> else d
        | None \<Rightarrow> d)
    | Truth _ c feasible _ _ \<Rightarrow>
        (case dc_pending d (ce_id e) of
          Some a \<Rightarrow> d\<lparr>dc_counts := count_truth a feasible c (dc_counts d),
            dc_pending := (dc_pending d)(ce_id e := None)\<rparr>
        | None \<Rightarrow> d)
    | _ \<Rightarrow> d)"

definition bump_policy_rev :: "bool \<Rightarrow> calib_state \<Rightarrow> u64 \<times> calib_state" where
  "bump_policy_rev any_change s =
     (if any_change then (1, s\<lparr>cs_policy_rev := cs_policy_rev s + 1\<rparr>) else (0, s))"

definition delta_update :: "extern \<Rightarrow> calib_event list \<Rightarrow> delta_calibrator \<Rightarrow> (u64 \<times> delta_calibrator) res" where
  "delta_update X events d =
     (let d1 = fold delta_event events d in
      res_bind (update_delta X (dc_counts d1) (dc_state d1)) (\<lambda>(changed, s).
        let (delta, s') = bump_policy_rev changed (sync_counts_to_state (dc_counts d1) s) in
        Inr (delta, d1\<lparr>dc_state := s'\<rparr>)))"

subsection \<open>DeltaKCalibrator\<close>

record pending_audit =
  pd_audit_of :: audit_of
  pd_est_at_cut :: estimates
  pd_paired_samples :: "paired_audit_sample list"

record delta_k_calibrator =
  dk_state :: calib_state
  dk_counts :: "counts list"
  dk_pending :: "cand_id \<rightharpoonup> pending_audit"
  dk_samples_f :: "f64 list"
  dk_samples_c :: "f64 list list"
  dk_phi_samples_f :: "(phi \<times> f64 list) list"
  dk_phi_samples_c :: "(phi \<times> f64 list list) list"
  dk_interval_samples_f :: "(k_interval_key \<times> f64 list) list"
  dk_interval_samples_c :: "(k_interval_key \<times> f64 list list) list"
  dk_k_window :: nat
  dk_k_min_pairs :: nat
  dk_k_quantile :: f64
  dk_k_eta :: f64

definition dk_default :: delta_k_calibrator where
  "dk_default = \<lparr>dk_state = calib_state_default, dk_counts = [], dk_pending = Map.empty, dk_samples_f = [],
     dk_samples_c = [], dk_phi_samples_f = [], dk_phi_samples_c = [], dk_interval_samples_f = [],
     dk_interval_samples_c = [], dk_k_window = 4096, dk_k_min_pairs = 25, dk_k_quantile = f_lit 90 100,
     dk_k_eta = f_lit 2 10\<rparr>"

definition dk_init :: "nat \<Rightarrow> delta_k_calibrator \<Rightarrow> delta_k_calibrator" where
  "dk_init m d = d\<lparr>dk_state := calib_state_init m, dk_counts := replicate m counts_default,
     dk_pending := Map.empty, dk_samples_f := [], dk_samples_c := replicate m [], dk_phi_samples_f := [],
     dk_phi_samples_c := [], dk_interval_samples_f := [], dk_interval_samples_c := []\<rparr>"

definition dk_apply_cfg :: "calib_cfg \<Rightarrow> delta_k_calibrator \<Rightarrow> delta_k_calibrator res" where
  "dk_apply_cfg cfg d =
     (let s' = (dk_state d)\<lparr>cs_target_false := cc_target_false cfg, cs_min_audits := cc_min_audits cfg,
          cs_eta_delta := cc_eta_delta cfg, cs_delta_min := cc_delta_min cfg, cs_delta_max := cc_delta_max cfg\<rparr>;
        kw = max (cc_k_window cfg) 1;
        d' = d\<lparr>dk_k_window := kw, dk_k_min_pairs := min (max (cc_k_min_pairs cfg) 1) (max kw 1),
          dk_k_quantile := clamp01 (cc_k_quantile cfg), dk_k_eta := clamp01 (cc_k_eta cfg)\<rparr> in
      res_bind (res_map (clamp_res (cs_delta_min s') (cs_delta_max s')) (cs_delta_rel s'))
        (\<lambda>ds. Inr (d'\<lparr>dk_state := s'\<lparr>cs_delta_rel := ds\<rparr>\<rparr>)))"

definition zero_nonfinite :: "f64 \<Rightarrow> f64" where
  "zero_nonfinite v = (if is_finite v then v else 0)"

definition dk_configure :: "calib_cfg \<Rightarrow> delta_k_calibrator \<Rightarrow> delta_k_calibrator res" where
  "dk_configure cfg d = res_bind (dk_apply_cfg cfg d) (\<lambda>d1.
     let s = dk_state d1; k_c = map zero_nonfinite (cs_k_c s) in
     Inr (d1\<lparr>dk_state := s\<lparr>cs_k_c := k_c, cs_k_f := zero_nonfinite (cs_k_f s),
       cs_k_by_phi := map (\<lambda>st. st\<lparr>kp_k_f := zero_nonfinite (kp_k_f st),
         kp_k_c := map zero_nonfinite
           (if length (kp_k_c st) < length k_c then resize (length k_c) 0 (kp_k_c st) else kp_k_c st)\<rparr>)
         (cs_k_by_phi s)\<rparr>\<rparr>))"

definition push_k_sample :: "nat \<Rightarrow> f64 \<Rightarrow> f64 list \<Rightarrow> f64 list" where
  "push_k_sample cap v xs =
     (if is_finite v \<and> v \<ge> 0 then drain_to_cap (max cap 1) (xs @ [v]) else xs)"

definition push_nested_k_sample :: "nat \<Rightarrow> nat \<Rightarrow> f64 \<Rightarrow> f64 list list \<Rightarrow> f64 list list" where
  "push_nested_k_sample cap j v vecs =
     (let vs = (if length vecs \<le> j then resize (Suc j) [] vecs else vecs) in vs[j := push_k_sample cap v (vs ! j)])"

text \<open>
  \<open>partial_cmp(b).unwrap()\<close> panics when it compares a NaN, and a sort of two or more elements compares each.
\<close>

definition quantile_of :: "f64 list \<Rightarrow> f64 \<Rightarrow> f64 option res" where
  "quantile_of samples q =
     (if samples = [] then Inr None
      else if length samples \<ge> 2 \<and> (\<exists>x \<in> set samples. is_nan x) then Inl Unwrap_failed
      else let sorted_s = sort_by (\<lambda>a b. \<not> b < a) samples; qq = clamp01 q; n = length samples;
          idx = min (f_as_u64 (f_round (qq * f_of_int (int (n - 1))))) (n - 1) in
        Inr (Some (sorted_s ! idx)))"

definition ema_quantile_update :: "delta_k_calibrator \<Rightarrow> f64 \<Rightarrow> f64 list \<Rightarrow> (f64 \<times> bool) res" where
  "ema_quantile_update d old samples =
     (if length samples < max (dk_k_min_pairs d) 1 then Inr (old, False)
      else res_bind (quantile_of samples (dk_k_quantile d)) (\<lambda>r. case r of
          Some qv \<Rightarrow> let nx = f_max ((1 - dk_k_eta d) * old + dk_k_eta d * qv) 0 in
            Inr (nx, f_abs (nx - old) > f_lit 1 (10 ^ 15))
        | None \<Rightarrow> Inr (old, False)))"

definition append_paired_sample :: "paired_audit_sample \<Rightarrow> paired_audit_sample list \<Rightarrow> paired_audit_sample list" where
  "append_paired_sample ps xs =
     (case List.find (\<lambda>i. pa_paired_phi_idx (xs ! i) = pa_paired_phi_idx ps) [0..<length xs] of
        Some i \<Rightarrow> xs[i := ps]
      | None \<Rightarrow> sort_by (\<lambda>a b. pa_paired_phi_idx a \<le> pa_paired_phi_idx b) (xs @ [ps]))"

definition note_audit_checkpoint ::
  "cand_id \<Rightarrow> audit_of \<Rightarrow> estimates \<Rightarrow> paired_audit_sample option \<Rightarrow> delta_k_calibrator \<Rightarrow> delta_k_calibrator" where
  "note_audit_checkpoint i a est ps d =
     (case dk_pending d i of
        None \<Rightarrow> d\<lparr>dk_counts := count_cut a (dk_counts d),
          dk_pending := (dk_pending d)(i \<mapsto> \<lparr>pd_audit_of = a, pd_est_at_cut = est,
            pd_paired_samples = (case ps of Some p \<Rightarrow> append_paired_sample p [] | None \<Rightarrow> [])\<rparr>)\<rparr>
      | Some p \<Rightarrow>
          let p1 = (if es_phi est = af_phi_at_cut a then p\<lparr>pd_est_at_cut := est\<rparr> else p);
            p2 = (case ps of Some q \<Rightarrow> p1\<lparr>pd_paired_samples := append_paired_sample q (pd_paired_samples p1)\<rparr>
                  | None \<Rightarrow> p1) in
          d\<lparr>dk_pending := (dk_pending d)(i \<mapsto> p2)\<rparr>)"

definition calib_truth_as_estimates :: "phi \<Rightarrow> f64 list \<Rightarrow> f64 list \<Rightarrow> nat \<Rightarrow> estimates" where
  "calib_truth_as_estimates p f c m =
     \<lparr>f_hat = f, f_se = replicate (length f) 0, c_hat = map (get_or 0 c) [0..<m], c_se = replicate m 0,
      es_phi = p, tau_scale = tau_f64 (phi_tau p), es_num_objectives = length f\<rparr>"

text \<open>One constraint of the two \<open>register\<close> functions: the global and the per-\<open>phi\<close> streams.\<close>

definition push_c_global_phi :: "phi \<Rightarrow> nat \<Rightarrow> nat \<Rightarrow> f64 \<Rightarrow> delta_k_calibrator \<Rightarrow> delta_k_calibrator" where
  "push_c_global_phi p m j dc d =
     d\<lparr>dk_samples_c := (if j < length (dk_samples_c d)
          then (dk_samples_c d)[j := push_k_sample (dk_k_window d) dc (dk_samples_c d ! j)] else dk_samples_c d),
       dk_phi_samples_c := bt_upsert p (replicate m []) (push_nested_k_sample (dk_k_window d) j dc) (dk_phi_samples_c d)\<rparr>"

definition register_interval_sample :: "phi \<Rightarrow> estimates \<Rightarrow> phi \<Rightarrow> estimates \<Rightarrow> delta_k_calibrator \<Rightarrow> delta_k_calibrator" where
  "register_interval_sample loose_phi loose_est tight_phi tight_est d =
     (if phi_smc loose_phi \<noteq> phi_smc tight_phi \<or> phi_tau tight_phi \<ge> phi_tau loose_phi then d
      else
        let dtau = f_max (tau_f64 (phi_tau loose_phi) - tau_f64 (phi_tau tight_phi)) 1;
          key = K_interval_key (phi_tau loose_phi) (phi_tau tight_phi) (phi_smc loose_phi);
          w = dk_k_window d;
          df = f_max (f_hat_primary loose_est - f_hat_primary tight_est) 0 / dtau;
          d1 = d\<lparr>dk_samples_f := push_k_sample w df (dk_samples_f d),
            dk_phi_samples_f := bt_upsert loose_phi [] (push_k_sample w df) (dk_phi_samples_f d),
            dk_interval_samples_f := bt_upsert key [] (push_k_sample w df) (dk_interval_samples_f d)\<rparr>;
          m = length (cs_k_c (dk_state d)) in
        fold (\<lambda>j d.
          let loose_c = get_or 0 (c_hat loose_est) j; tight_c = get_or 0 (c_hat tight_est) j;
            dc = f_max (loose_c - tight_c) 0 / dtau; d2 = push_c_global_phi loose_phi m j dc d in
          d2\<lparr>dk_interval_samples_c := bt_upsert key (replicate m []) (push_nested_k_sample w j dc)
            (dk_interval_samples_c d2)\<rparr>) [0..<m] d1)"

definition register_cut_to_truth_fallback :: "phi \<Rightarrow> estimates \<Rightarrow> phi \<Rightarrow> estimates \<Rightarrow> delta_k_calibrator \<Rightarrow> delta_k_calibrator" where
  "register_cut_to_truth_fallback cut_phi cut_est truth_phi truth_est d =
     (let ts = f_max (tau_f64 (phi_tau cut_phi)) 1; w = dk_k_window d;
        df = f_max (f_hat_primary cut_est - f_hat_primary truth_est) 0 / ts;
        d1 = d\<lparr>dk_samples_f := push_k_sample w df (dk_samples_f d),
          dk_phi_samples_f := bt_upsert cut_phi [] (push_k_sample w df) (dk_phi_samples_f d)\<rparr>;
        m = length (cs_k_c (dk_state d)) in
      fold (\<lambda>j d. push_c_global_phi cut_phi m j
        (f_max (get_or 0 (c_hat cut_est) j - get_or 0 (c_hat truth_est) j) 0 / ts) d) [0..<m] d1)"

fun update_k_c :: "delta_k_calibrator \<Rightarrow> f64 list \<Rightarrow> f64 list list \<Rightarrow> (f64 list \<times> bool) res" where
  "update_k_c d [] ss = Inr ([], False)"
| "update_k_c d (old # olds) ss =
     res_bind (ema_quantile_update d old (case ss of [] \<Rightarrow> [] | x # _ \<Rightarrow> x)) (\<lambda>(nx, ch).
       res_bind (update_k_c d olds (tl ss)) (\<lambda>(rest, ch'). Inr ((if ch then nx else old) # rest, ch \<or> ch')))"

definition update_global_k :: "delta_k_calibrator \<Rightarrow> (bool \<times> delta_k_calibrator) res" where
  "update_global_k d = (let s = dk_state d in
     res_bind (ema_quantile_update d (cs_k_f s) (dk_samples_f d)) (\<lambda>(next_kf, ch_f).
     res_bind (update_k_c d (cs_k_c s) (dk_samples_c d)) (\<lambda>(k_c, ch_c).
       Inr (ch_f \<or> ch_c,
         d\<lparr>dk_state := s\<lparr>cs_k_f := (if ch_f then next_kf else cs_k_f s), cs_k_c := k_c\<rparr>\<rparr>))))"

text \<open>
  The loop over \<open>samples_by_j\<close> of the two bucket updates, from the index it has reached: a bucket with more
  entries than \<open>k_c\<close> extends it with zeros.
\<close>

fun bucket_k_c :: "delta_k_calibrator \<Rightarrow> f64 list list \<Rightarrow> nat \<Rightarrow> f64 list \<Rightarrow> bool \<Rightarrow> (f64 list \<times> bool) res" where
  "bucket_k_c d [] j k_c changed = Inr (k_c, changed)"
| "bucket_k_c d (samples # rest) j k_c changed =
     res_bind (ema_quantile_update d (get_or 0 k_c j) samples) (\<lambda>(nx, ch).
       let k1 = (if j \<ge> length k_c then resize (Suc j) 0 k_c else k_c);
         k2 = (if ch then k1[j := nx] else k1) in
       bucket_k_c d rest (Suc j) k2 (changed \<or> ch))"

text \<open>The keys the bucket updates visit: those of both sample maps and of the old states, in order.\<close>

definition bucket_keys :: "'k :: linorder list \<Rightarrow> 'k list \<Rightarrow> 'k list \<Rightarrow> 'k list" where
  "bucket_keys fk ck ok =
     (let add = (\<lambda>k acc. if k \<in> set acc then acc else acc @ [k]) in sort (fold add ok (fold add ck fk)))"

definition widen_k_c :: "nat \<Rightarrow> f64 list \<Rightarrow> f64 list" where
  "widen_k_c m k_c = (if length k_c < m then resize m 0 k_c else k_c)"

definition interval_step :: "delta_k_calibrator \<Rightarrow> (k_interval_key \<times> k_interval_state) list \<Rightarrow> k_interval_key \<Rightarrow>
    (k_interval_state \<times> bool) res" where
  "interval_step d old_map key =
     (let m = length (cs_k_c (dk_state d)); old = map_of old_map key;
        old_f = (case old of Some st \<Rightarrow> ki_k_f st | None \<Rightarrow> 0);
        f_samples = (case map_of (dk_interval_samples_f d) key of Some xs \<Rightarrow> xs | None \<Rightarrow> []) in
      res_bind (ema_quantile_update d old_f f_samples) (\<lambda>(k_f, ch_f).
        let k_c = widen_k_c m (case old of Some st \<Rightarrow> ki_k_c st | None \<Rightarrow> replicate m 0);
          by_j = (case map_of (dk_interval_samples_c d) key of Some ss \<Rightarrow> ss | None \<Rightarrow> []);
          cnt = map length by_j @ replicate (m - length by_j) 0 in
        res_bind (bucket_k_c d by_j 0 k_c False) (\<lambda>(k_c', ch_c).
          Inr (\<lparr>ki_key = key, ki_k_f = k_f, ki_k_c = k_c', ki_sample_count_f = length f_samples,
            ki_sample_count_c = cnt\<rparr>, ch_f \<or> ch_c))))"

definition update_interval_k :: "delta_k_calibrator \<Rightarrow> (bool \<times> delta_k_calibrator) res" where
  "update_interval_k d =
     (let old_map = bt_of (map (\<lambda>st. (ki_key st, st)) (cs_k_interval_stats (dk_state d)));
        keys = bucket_keys (map fst (dk_interval_samples_f d)) (map fst (dk_interval_samples_c d)) (map fst old_map) in
      res_bind (res_map (interval_step d old_map) keys) (\<lambda>rs.
        Inr (list_ex snd rs, d\<lparr>dk_state := (dk_state d)\<lparr>cs_k_interval_stats := map fst rs\<rparr>\<rparr>)))"

definition phi_step :: "delta_k_calibrator \<Rightarrow> (phi \<times> k_by_phi_state) list \<Rightarrow> phi \<Rightarrow> (k_by_phi_state \<times> bool) res" where
  "phi_step d old_map p =
     (let m = length (cs_k_c (dk_state d)); old = map_of old_map p;
        old_f = (case old of Some st \<Rightarrow> kp_k_f st | None \<Rightarrow> 0);
        f_samples = (case map_of (dk_phi_samples_f d) p of Some xs \<Rightarrow> xs | None \<Rightarrow> []) in
      res_bind (ema_quantile_update d old_f f_samples) (\<lambda>(k_f, ch_f).
        let k_c = widen_k_c m (case old of Some st \<Rightarrow> kp_k_c st | None \<Rightarrow> replicate m 0);
          by_j = (case map_of (dk_phi_samples_c d) p of Some ss \<Rightarrow> ss | None \<Rightarrow> []) in
        res_bind (bucket_k_c d by_j 0 k_c False) (\<lambda>(k_c', ch_c).
          Inr (\<lparr>kp_phi = p, kp_k_f = k_f, kp_k_c = k_c'\<rparr>, ch_f \<or> ch_c))))"

text \<open>\<open>#[derive(PartialEq)]\<close> on \<open>KByPhiState\<close>: a NaN differs from itself and the two zeros are equal.\<close>

definition kp_eq :: "k_by_phi_state \<Rightarrow> k_by_phi_state \<Rightarrow> bool" where
  "kp_eq a b \<longleftrightarrow> kp_phi a = kp_phi b \<and> f_eq (kp_k_f a) (kp_k_f b) \<and> list_all2 f_eq (kp_k_c a) (kp_k_c b)"

definition update_phi_bucket_k :: "delta_k_calibrator \<Rightarrow> (bool \<times> delta_k_calibrator) res" where
  "update_phi_bucket_k d =
     (let old_states = cs_k_by_phi (dk_state d); old_map = bt_of (map (\<lambda>st. (kp_phi st, st)) old_states);
        keys = bucket_keys (map fst (dk_phi_samples_f d)) (map fst (dk_phi_samples_c d)) (map fst old_map) in
      res_bind (res_map (phi_step d old_map) keys) (\<lambda>rs.
        let next_states = map fst rs in
        Inr (list_ex snd rs \<or> \<not> list_all2 kp_eq old_states next_states,
          d\<lparr>dk_state := (dk_state d)\<lparr>cs_k_by_phi := next_states\<rparr>\<rparr>)))"

text \<open>The checkpoints of a finished audit, loosest first, and what its TRUTH result teaches.\<close>

definition audit_checkpoints :: "pending_audit \<Rightarrow> (phi \<times> estimates) list" where
  "audit_checkpoints p = (af_phi_at_cut (pd_audit_of p), pd_est_at_cut p) #
     map (\<lambda>ps. (pa_paired_phi ps, pa_estimates ps))
       (sort_by (\<lambda>a b. pa_paired_phi_idx a \<le> pa_paired_phi_idx b) (pd_paired_samples p))"

definition structured_pair :: "(phi \<times> estimates) \<times> (phi \<times> estimates) \<Rightarrow> bool" where
  "structured_pair w = (case w of ((lp, _), (tp, _)) \<Rightarrow> phi_smc lp = phi_smc tp \<and> phi_tau tp < phi_tau lp)"

definition learn_from_truth :: "pending_audit \<Rightarrow> phi \<Rightarrow> estimates \<Rightarrow> delta_k_calibrator \<Rightarrow> delta_k_calibrator" where
  "learn_from_truth p truth_phi truth_est d =
     (let cps = audit_checkpoints p; windows = filter structured_pair (zip cps (tl cps));
        d1 = fold (\<lambda>((lp, le), (tp, te)). register_interval_sample lp le tp te) windows d in
      if windows = []
      then register_cut_to_truth_fallback (af_phi_at_cut (pd_audit_of p)) (pd_est_at_cut p) truth_phi truth_est d1
      else d1)"

definition dk_event :: "calib_event \<Rightarrow> delta_k_calibrator \<Rightarrow> delta_k_calibrator" where
  "dk_event e d = (case ce_result e of
      EarlyInfeasible _ est _ \<Rightarrow>
        (case ce_audit_of e of
          Some a \<Rightarrow> if ce_audited e then note_audit_checkpoint (ce_id e) a est (ce_paired_sample e) d else d
        | None \<Rightarrow> d)
    | Partial est _ \<Rightarrow>
        (case ce_audit_of e of
          Some a \<Rightarrow> if ce_audited e then note_audit_checkpoint (ce_id e) a est (ce_paired_sample e) d else d
        | None \<Rightarrow> d)
    | Truth f c feasible _ meta \<Rightarrow>
        (case dk_pending d (ce_id e) of
          None \<Rightarrow> d
        | Some p \<Rightarrow>
            let p1 = (case ce_paired_sample e of
                  Some ps \<Rightarrow> p\<lparr>pd_paired_samples := append_paired_sample ps (pd_paired_samples p)\<rparr> | None \<Rightarrow> p);
              d1 = d\<lparr>dk_pending := (dk_pending d)(ce_id e := None),
                dk_counts := count_truth (pd_audit_of p1) feasible c (dk_counts d)\<rparr>;
              truth_est = calib_truth_as_estimates (em_phi meta) f c (length (cs_k_c (dk_state d))) in
            learn_from_truth p1 (em_phi meta) truth_est d1)
    | _ \<Rightarrow> d)"

definition dk_update :: "extern \<Rightarrow> calib_event list \<Rightarrow> delta_k_calibrator \<Rightarrow> (u64 \<times> delta_k_calibrator) res" where
  "dk_update X events d0 =
     (let d = fold dk_event events d0 in
      res_bind (update_delta X (dk_counts d) (dk_state d)) (\<lambda>(ch1, s1).
      res_bind (update_global_k (d\<lparr>dk_state := s1\<rparr>)) (\<lambda>(ch2, d2).
      res_bind (update_interval_k d2) (\<lambda>(ch3, d3).
      res_bind (update_phi_bucket_k d3) (\<lambda>(ch4, d4).
        let (delta, s') = bump_policy_rev (ch1 \<or> ch2 \<or> ch3 \<or> ch4) (sync_counts_to_state (dk_counts d4) (dk_state d4)) in
        Inr (delta, d4\<lparr>dk_state := s'\<rparr>))))))"

subsection \<open>Lemmas: slack\<close>

lemma clamp01_if: "clamp01 x = (if x < 0 then 0 else if x > 1 then 1 else x)"
  by (simp add: clamp01_def f_clamp_def)

lemma clamp01_range: "is_nan (clamp01 x) \<or> 0 \<le> clamp01 x \<and> clamp01 x \<le> 1"
proof (cases "is_nan x")
  case False
  have "f_clamp x 0 1 \<noteq> None" by simp
  then obtain y where y: "f_clamp x 0 1 = Some y" by blast
  then show ?thesis using f_clamp_bounds[OF y False] by (simp add: clamp01_def)
qed (simp add: f_clamp_nan clamp01_def)

lemma clamp_res_Inr: "lo \<le> hi \<Longrightarrow> \<exists>y. clamp_res lo hi x = Inr y \<and> f_clamp x lo hi = Some y"
  by (cases "f_clamp x lo hi") (simp_all add: clamp_res_def)

lemma nan_sub_not_greater: "is_nan x \<Longrightarrow> \<not> f_abs (x - y) > z"
  by (simp add: minus_f64_def plus_f64_def f_abs_def less_f64_def is_nan_def)

text \<open>Every slack is a number within the configured range.\<close>

definition slack_ok :: "calib_state \<Rightarrow> bool" where
  "slack_ok s \<longleftrightarrow> cs_delta_min s \<le> cs_delta_max s \<and>
     (\<forall>d \<in> set (cs_delta_rel s). cs_delta_min s \<le> d \<and> d \<le> cs_delta_max s)"

lemma delta_next_ok:
  assumes "cs_delta_min s \<le> cs_delta_max s"
  shows "\<exists>r. delta_next X s c old = Inr r \<and> (\<forall>nx. r = Some nx \<longrightarrow> cs_delta_min s \<le> nx \<and> nx \<le> cs_delta_max s)"
proof -
  have cl: "\<exists>y. clamp_res (cs_delta_min s) (cs_delta_max s) x = Inr y \<and>
      (\<not> is_nan y \<longrightarrow> cs_delta_min s \<le> y \<and> y \<le> cs_delta_max s)" for x
  proof -
    obtain y where y: "clamp_res (cs_delta_min s) (cs_delta_max s) x = Inr y"
        "f_clamp x (cs_delta_min s) (cs_delta_max s) = Some y" using clamp_res_Inr[OF assms] by blast
    have "is_nan x \<Longrightarrow> is_nan y" using y(2) f_clamp_nan[OF _ assms] by auto
    with y f_clamp_bounds[OF y(2)] show ?thesis by blast
  qed
  show ?thesis
  proof (cases "ct_audit c < max (cs_min_audits s) 1 \<or> delta_dir (cs_target_false s) c = 0")
    case False
    define x where "x = old * (if delta_dir (cs_target_false s) c > 0 then x_exp X (f_max (cs_eta_delta s) 0)
      else x_exp X (- f_max (cs_eta_delta s) 0))"
    obtain y where y: "clamp_res (cs_delta_min s) (cs_delta_max s) x = Inr y"
      "\<not> is_nan y \<longrightarrow> cs_delta_min s \<le> y \<and> y \<le> cs_delta_max s" using cl by blast
    have "delta_next X s c old = Inr (if f_abs (y - old) > f_lit 1 (10 ^ 15) then Some y else None)"
      using False y(1) by (simp add: delta_next_def x_def Let_def del: power_numeral)
    with y(2) show ?thesis using nan_sub_not_greater by auto
  qed (auto simp: delta_next_def Let_def)
qed

lemma update_delta_loop_ok:
  assumes "cs_delta_min s \<le> cs_delta_max s" "\<forall>j \<in> set js. j < length cs"
  shows "\<exists>ch' ds. update_delta_loop X cs js s ch = Inr (ch', s\<lparr>cs_delta_rel := ds\<rparr>)
    \<and> length ds = length (cs_delta_rel s) \<and> (slack_ok s \<longrightarrow> slack_ok (s\<lparr>cs_delta_rel := ds\<rparr>))
    \<and> (\<not> ch' \<longrightarrow> \<not> ch \<and> ds = cs_delta_rel s)"
  using assms
proof (induction js arbitrary: s ch)
  case Nil
  show ?case by (rule exI[of _ ch], rule exI[of _ "cs_delta_rel s"]) simp
next
  case (Cons j js)
  have j: "j < length cs" using Cons.prems by simp
  obtain r where r: "delta_next X s (cs ! j) (cs_delta_rel s ! j) = Inr r"
    and rb: "\<forall>nx. r = Some nx \<longrightarrow> cs_delta_min s \<le> nx \<and> nx \<le> cs_delta_max s"
    using delta_next_ok[OF Cons.prems(1)] by blast
  show ?case
  proof (cases r)
    case None
    then show ?thesis using Cons.IH[of s ch] Cons.prems j r by (simp add: get_def)
  next
    case (Some nx)
    define s1 where "s1 = s\<lparr>cs_delta_rel := (cs_delta_rel s)[j := nx]\<rparr>"
    have s1: "cs_delta_min s1 \<le> cs_delta_max s1" "slack_ok s \<longrightarrow> slack_ok s1"
      using Cons.prems(1) rb Some
      by (auto simp: s1_def slack_ok_def dest!: set_update_subset_insert[THEN subsetD])
    obtain ch' ds where ih: "update_delta_loop X cs js s1 True = Inr (ch', s1\<lparr>cs_delta_rel := ds\<rparr>)"
      "length ds = length (cs_delta_rel s1)" "slack_ok s1 \<longrightarrow> slack_ok (s1\<lparr>cs_delta_rel := ds\<rparr>)" "ch'"
      using Cons.IH[OF s1(1), of True] Cons.prems(2) by auto
    have "s1\<lparr>cs_delta_rel := ds\<rparr> = s\<lparr>cs_delta_rel := ds\<rparr>" by (simp add: s1_def)
    with ih s1(2) Some j r show ?thesis
      by (intro exI[of _ ch'] exI[of _ ds]) (simp add: s1_def get_def)
  qed
qed

lemma update_delta_ok:
  assumes "slack_ok s" "length cs = length (cs_delta_rel s)"
  obtains ch ds where "update_delta X cs s = Inr (ch, s\<lparr>cs_delta_rel := ds\<rparr>)"
    "length ds = length (cs_delta_rel s)" "slack_ok (s\<lparr>cs_delta_rel := ds\<rparr>)" "\<not> ch \<Longrightarrow> ds = cs_delta_rel s"
  using update_delta_loop_ok[of s "[0..<length (cs_delta_rel s)]" cs X False] assms
  unfolding update_delta_def slack_ok_def by auto

subsection \<open>Lemmas: audit counts\<close>

text \<open>The totals of one constraint agree with their split over the ladder and are ordered.\<close>

definition counts_ok :: "counts \<Rightarrow> bool" where
  "counts_ok c \<longleftrightarrow> sum_list (ct_cut_by_phi_idx c) = ct_cut c
     \<and> sum_list (ct_audit_by_phi_idx c) = ct_audit c
     \<and> sum_list (ct_false_infeas_by_phi_idx c) = ct_false_infeas c
     \<and> sum_list (ct_confirmed_violation_by_phi_idx c) = ct_confirmed_violation c
     \<and> ct_false_infeas c \<le> ct_audit c \<and> ct_confirmed_violation c \<le> ct_audit c"

lemma sum_list_grow [simp]: "sum_list (grow i xs) = sum_list xs"
  and length_grow: "i < length (grow i xs)"
  by (simp_all add: grow_def resize_def sum_list_replicate)

lemma sum_list_incr_at: "i < length xs \<Longrightarrow> sum_list (incr_at i xs) = Suc (sum_list xs)"
  using elem_le_sum_list[of i xs] by (simp add: incr_at_def sum_list_update)

lemma length_incr_at [simp]: "length (incr_at i xs) = length xs"
  by (simp add: incr_at_def)

lemma counts_default_ok [simp]: "counts_ok counts_default"
  by (simp add: counts_ok_def counts_default_def)

lemma length_count_cut [simp]: "length (count_cut a cs) = length cs"
  and length_count_truth [simp]: "length (count_truth a fe cv cs) = length cs"
  by (simp_all add: count_cut_def count_truth_def Let_def)

lemma cut_entry_ok: "counts_ok c \<Longrightarrow> counts_ok (cut_entry l c)"
  by (simp add: counts_ok_def cut_entry_def ensure_level_def Let_def sum_list_incr_at length_grow)

lemma truth_entry_ok: "counts_ok c \<Longrightarrow> counts_ok (truth_entry l fe v c)"
  by (simp add: counts_ok_def truth_entry_def ensure_level_def Let_def sum_list_incr_at length_grow)

lemma count_cut_ok [inv_intros]: "list_all counts_ok cs \<Longrightarrow> list_all counts_ok (count_cut a cs)"
  by (auto simp: count_cut_def Let_def list_all_length nth_list_update cut_entry_ok)

lemma count_truth_ok [inv_intros]: "list_all counts_ok cs \<Longrightarrow> list_all counts_ok (count_truth a fe cv cs)"
  by (auto simp: count_truth_def Let_def list_all_length nth_list_update truth_entry_ok)

text \<open>How the two operations move the totals of constraint \<open>j\<close>.\<close>

lemma count_cut_totals: "j < length cs \<Longrightarrow>
    ct_cut (count_cut a cs ! j) = ct_cut (cs ! j) + (if af_violated_j a = j then 1 else 0)
    \<and> ct_audit (count_cut a cs ! j) = ct_audit (cs ! j)"
  by (auto simp: count_cut_def cut_entry_def ensure_level_def Let_def nth_list_update)

lemma count_truth_totals: "j < length cs \<Longrightarrow>
    ct_cut (count_truth a fe cv cs ! j) = ct_cut (cs ! j)
    \<and> ct_audit (count_truth a fe cv cs ! j) = ct_audit (cs ! j) + (if af_violated_j a = j then 1 else 0)"
  by (auto simp: count_truth_def truth_entry_def ensure_level_def Let_def nth_list_update)

subsection \<open>Lemmas: samples\<close>

definition sample_ok :: "f64 list \<Rightarrow> bool" where
  "sample_ok xs \<longleftrightarrow> list_all (\<lambda>x. is_finite x \<and> 0 \<le> x) xs"

definition streams_ok :: "f64 list list \<Rightarrow> bool" where
  "streams_ok xss \<longleftrightarrow> (\<forall>xs \<in> set xss. sample_ok xs)"

definition samples_ok :: "delta_k_calibrator \<Rightarrow> bool" where
  "samples_ok d \<longleftrightarrow> sample_ok (dk_samples_f d) \<and> streams_ok (dk_samples_c d)
     \<and> bt_all sample_ok (dk_phi_samples_f d) \<and> bt_all streams_ok (dk_phi_samples_c d)
     \<and> bt_all sample_ok (dk_interval_samples_f d) \<and> bt_all streams_ok (dk_interval_samples_c d)"

lemma sample_ok_Nil [simp]: "sample_ok []"
  by (simp add: sample_ok_def)

lemma push_k_sample_ok [simp, intro]: "sample_ok xs \<Longrightarrow> sample_ok (push_k_sample cap v xs)"
  using set_drain_to_cap[of "max cap 1" "xs @ [v]"] by (auto simp: sample_ok_def push_k_sample_def list_all_iff)

lemma push_k_sample_cap: "length xs \<le> max cap 1 \<Longrightarrow> length (push_k_sample cap v xs) \<le> max cap 1"
  by (simp add: push_k_sample_def length_drain_to_cap)

lemma streams_ok_update [intro]: "streams_ok xss \<Longrightarrow> sample_ok xs \<Longrightarrow> streams_ok (xss[j := xs])"
  unfolding streams_ok_def using set_update_subset_insert[of xss j xs] by blast

lemma streams_ok_replicate [simp]: "streams_ok (replicate m [])"
  by (simp add: streams_ok_def)

lemma streams_ok_nth: "streams_ok xss \<Longrightarrow> j < length xss \<Longrightarrow> sample_ok (xss ! j)"
  by (simp add: streams_ok_def)

lemma push_nested_ok [simp, intro]: "streams_ok xss \<Longrightarrow> streams_ok (push_nested_k_sample cap j v xss)"
proof -
  assume ok: "streams_ok xss"
  let ?vs = "if length xss \<le> j then resize (Suc j) [] xss else xss"
  have "streams_ok ?vs" using ok by (auto simp: streams_ok_def resize_def dest: in_set_takeD)
  moreover have "j < length ?vs" by (simp add: resize_def)
  ultimately show ?thesis unfolding push_nested_k_sample_def Let_def
    by (intro streams_ok_update push_k_sample_ok streams_ok_nth)
qed

lemma push_c_global_phi_ok: "samples_ok d \<Longrightarrow> samples_ok (push_c_global_phi p m j dc d)"
  unfolding samples_ok_def push_c_global_phi_def
  by (auto intro!: bt_all_upsert intro: streams_ok_nth)

text \<open>Registering samples leaves everything but the sample streams alone.\<close>

definition dk_core :: "delta_k_calibrator \<Rightarrow> delta_k_calibrator" where
  "dk_core d = d\<lparr>dk_samples_f := [], dk_samples_c := [], dk_phi_samples_f := [], dk_phi_samples_c := [],
     dk_interval_samples_f := [], dk_interval_samples_c := []\<rparr>"

lemma push_c_core [simp]: "dk_core (push_c_global_phi p m j dc d) = dk_core d"
  by (simp add: push_c_global_phi_def dk_core_def)

definition quiet :: "(delta_k_calibrator \<Rightarrow> delta_k_calibrator) \<Rightarrow> bool" where
  "quiet f \<longleftrightarrow> (\<forall>d. dk_core (f d) = dk_core d \<and> (samples_ok d \<longrightarrow> samples_ok (f d)))"

lemma quiet_fold: "(\<And>x. quiet (f x)) \<Longrightarrow> quiet (fold f xs)"
proof (induction xs)
  case (Cons x xs)
  then show ?case by (simp add: quiet_def)
qed (simp add: quiet_def)

lemma quiet_after: "quiet f \<Longrightarrow> (\<And>d. quiet (g d)) \<Longrightarrow> quiet (\<lambda>d. g d (f d))"
  by (simp add: quiet_def)

lemma register_interval_quiet: "quiet (register_interval_sample lp le tp te)"
proof (cases "phi_smc lp \<noteq> phi_smc tp \<or> phi_tau tp \<ge> phi_tau lp")
  case False
  define body where "body w m key dtau = (\<lambda>j d.
      let loose_c = get_or 0 (c_hat le) j; tight_c = get_or 0 (c_hat te) j;
        dc = f_max (loose_c - tight_c) 0 / dtau; d2 = push_c_global_phi lp m j dc d in
      d2\<lparr>dk_interval_samples_c := bt_upsert key (replicate m []) (push_nested_k_sample w j dc)
        (dk_interval_samples_c d2)\<rparr>)" for w m key dtau
  have one: "quiet (body w m key dtau j)" for w m key dtau j
    unfolding quiet_def
  proof (intro allI conjI impI)
    fix d
    show "dk_core (body w m key dtau j d) = dk_core d"
      by (simp add: body_def Let_def dk_core_def push_c_global_phi_def)
    assume "samples_ok d"
    then have "samples_ok (push_c_global_phi lp m j (f_max (get_or 0 (c_hat le) j - get_or 0 (c_hat te) j) 0 / dtau) d)"
      by (rule push_c_global_phi_ok)
    then show "samples_ok (body w m key dtau j d)"
      unfolding body_def Let_def samples_ok_def
      by (auto intro!: bt_all_upsert)
  qed
  define start where "start = (\<lambda>d :: delta_k_calibrator. let dtau = f_max (tau_f64 (phi_tau lp) - tau_f64 (phi_tau tp)) 1;
      key = K_interval_key (phi_tau lp) (phi_tau tp) (phi_smc lp); w = dk_k_window d;
      df = f_max (f_hat_primary le - f_hat_primary te) 0 / dtau in
    d\<lparr>dk_samples_f := push_k_sample w df (dk_samples_f d),
      dk_phi_samples_f := bt_upsert lp [] (push_k_sample w df) (dk_phi_samples_f d),
      dk_interval_samples_f := bt_upsert key [] (push_k_sample w df) (dk_interval_samples_f d)\<rparr>)"
  have st: "dk_core (start d) = dk_core d \<and> (samples_ok d \<longrightarrow> samples_ok (start d))" for d
    unfolding start_def Let_def samples_ok_def
    by (auto simp: dk_core_def intro!: bt_all_upsert)
  have eq: "register_interval_sample lp le tp te d = fold
      (body (dk_k_window d) (length (cs_k_c (dk_state d))) (K_interval_key (phi_tau lp) (phi_tau tp) (phi_smc lp))
        (f_max (tau_f64 (phi_tau lp) - tau_f64 (phi_tau tp)) 1)) [0..<length (cs_k_c (dk_state d))] (start d)" for d
    using False by (simp add: register_interval_sample_def body_def start_def Let_def)
  have "quiet start" using st by (simp add: quiet_def)
  from quiet_after[OF this quiet_fold[OF one]] show ?thesis
    unfolding ext[of "register_interval_sample lp le tp te", OF eq] .
qed (simp add: quiet_def register_interval_sample_def)

lemma register_fallback_quiet: "quiet (register_cut_to_truth_fallback cp ce tp te)"
proof -
  define start where "start = (\<lambda>d :: delta_k_calibrator. let ts = f_max (tau_f64 (phi_tau cp)) 1; w = dk_k_window d;
      df = f_max (f_hat_primary ce - f_hat_primary te) 0 / ts in
    d\<lparr>dk_samples_f := push_k_sample w df (dk_samples_f d),
      dk_phi_samples_f := bt_upsert cp [] (push_k_sample w df) (dk_phi_samples_f d)\<rparr>)"
  have st: "dk_core (start d) = dk_core d \<and> (samples_ok d \<longrightarrow> samples_ok (start d))" for d
    unfolding start_def Let_def samples_ok_def
    by (auto simp: dk_core_def intro!: bt_all_upsert)
  have one: "quiet (\<lambda>d. push_c_global_phi cp m j (dc j) d)" for m j dc
    by (simp add: quiet_def push_c_global_phi_ok)
  have eq: "register_cut_to_truth_fallback cp ce tp te d =
      fold (\<lambda>j d. push_c_global_phi cp (length (cs_k_c (dk_state d0))) j (f_max (get_or 0 (c_hat ce) j -
        get_or 0 (c_hat te) j) 0 / f_max (tau_f64 (phi_tau cp)) 1) d) [0..<length (cs_k_c (dk_state d0))] (start d)"
    if "d0 = d" for d d0
    by (simp add: register_cut_to_truth_fallback_def start_def Let_def that)
  have "quiet start" using st by (simp add: quiet_def)
  from quiet_after[OF this quiet_fold[OF one]] show ?thesis
    unfolding ext[of "register_cut_to_truth_fallback cp ce tp te", OF eq[OF refl]] .
qed

lemma learn_from_truth_quiet: "quiet (learn_from_truth p tp te)"
proof -
  let ?ws = "filter structured_pair (zip (audit_checkpoints p) (tl (audit_checkpoints p)))"
  have "quiet (fold (\<lambda>((lp, le), (tp, te)). register_interval_sample lp le tp te) ?ws)"
    by (rule quiet_fold) (auto simp: register_interval_quiet split: prod.split)
  then show ?thesis
    using register_fallback_quiet[of "af_phi_at_cut (pd_audit_of p)" "pd_est_at_cut p" tp te]
    by (simp add: learn_from_truth_def Let_def quiet_def)
qed

subsection \<open>Lemmas: the audit ledger\<close>

text \<open>Every audited cut is either still pending or has been counted at its TRUTH result.\<close>

definition open_audits :: "(cand_id \<rightharpoonup> audit_of) \<Rightarrow> nat \<Rightarrow> cand_id set" where
  "open_audits pend j = {i. \<exists>a. pend i = Some a \<and> af_violated_j a = j}"

definition ledger_ok :: "counts list \<Rightarrow> (cand_id \<rightharpoonup> audit_of) \<Rightarrow> bool" where
  "ledger_ok cs pend \<longleftrightarrow> list_all counts_ok cs \<and>
     (\<forall>j < length cs. ct_cut (cs ! j) = ct_audit (cs ! j) + card (open_audits pend j))"

lemma open_audits_finite [simp]: "finite (open_audits pend j)"
  by simp

lemma ledger_open: "ledger_ok cs pend \<Longrightarrow> pend i = None \<Longrightarrow> ledger_ok (count_cut a cs) (pend(i \<mapsto> a))"
proof -
  assume ok: "ledger_ok cs pend" and i: "pend i = None"
  have "card (open_audits (pend(i \<mapsto> a)) j) = card (open_audits pend j) + (if af_violated_j a = j then 1 else 0)" for j
  proof -
    have "open_audits (pend(i \<mapsto> a)) j = (if af_violated_j a = j then insert i (open_audits pend j) else open_audits pend j)"
      using i by (auto simp: open_audits_def split: if_splits)
    moreover have "i \<notin> open_audits pend j" using i by (simp add: open_audits_def)
    ultimately show ?thesis by simp
  qed
  then show ?thesis using ok by (auto simp: ledger_ok_def count_cut_totals intro: count_cut_ok)
qed

lemma ledger_close: "ledger_ok cs pend \<Longrightarrow> pend i = Some a \<Longrightarrow> ledger_ok (count_truth a fe cv cs) (pend(i := None))"
proof -
  assume ok: "ledger_ok cs pend" and i: "pend i = Some a"
  have "card (open_audits pend j) = card (open_audits (pend(i := None)) j) + (if af_violated_j a = j then 1 else 0)" for j
  proof -
    have "open_audits pend j = (if af_violated_j a = j then insert i (open_audits (pend(i := None)) j)
        else open_audits (pend(i := None)) j)"
      using i by (auto simp: open_audits_def split: if_splits)
    moreover have "i \<notin> open_audits (pend(i := None)) j" by (simp add: open_audits_def)
    ultimately show ?thesis by simp
  qed
  then show ?thesis using ok by (auto simp: ledger_ok_def count_truth_totals intro: count_truth_ok)
qed

lemma ledger_init: "ledger_ok (replicate m counts_default) Map.empty"
  by (simp add: ledger_ok_def open_audits_def list_all_length) (simp add: counts_default_def)

definition dk_pend :: "delta_k_calibrator \<Rightarrow> cand_id \<rightharpoonup> audit_of" where
  "dk_pend d = (\<lambda>i. map_option pd_audit_of (dk_pending d i))"

lemma core_frame:
  assumes "dk_core d' = dk_core d"
  shows "dk_state d' = dk_state d" "dk_counts d' = dk_counts d" "dk_pending d' = dk_pending d"
    "dk_k_window d' = dk_k_window d" "dk_k_min_pairs d' = dk_k_min_pairs d"
proof -
  have "dk_state (dk_core x) = dk_state x \<and> dk_counts (dk_core x) = dk_counts x \<and> dk_pending (dk_core x) = dk_pending x
     \<and> dk_k_window (dk_core x) = dk_k_window x \<and> dk_k_min_pairs (dk_core x) = dk_k_min_pairs x" for x
    by (simp add: dk_core_def)
  then show "dk_state d' = dk_state d" "dk_counts d' = dk_counts d" "dk_pending d' = dk_pending d"
    "dk_k_window d' = dk_k_window d" "dk_k_min_pairs d' = dk_k_min_pairs d"
    using assms by metis+
qed

definition dk_ledger :: "delta_k_calibrator \<Rightarrow> bool" where
  "dk_ledger d \<longleftrightarrow> samples_ok d \<and> length (dk_counts d) = length (cs_delta_rel (dk_state d))
     \<and> ledger_ok (dk_counts d) (dk_pend d)"

lemma note_audit_ledger: "dk_ledger d \<Longrightarrow> dk_ledger (note_audit_checkpoint i a est ps d)"
proof (cases "dk_pending d i")
  case None
  assume ok: "dk_ledger d"
  have "dk_pend (note_audit_checkpoint i a est ps d) = (dk_pend d)(i \<mapsto> a)"
    using None by (auto simp: note_audit_checkpoint_def dk_pend_def)
  then show ?thesis
    using ok None ledger_open[of "dk_counts d" "dk_pend d" i a]
    by (simp add: dk_ledger_def note_audit_checkpoint_def samples_ok_def dk_pend_def)
next
  case (Some p)
  assume ok: "dk_ledger d"
  have "dk_pend (note_audit_checkpoint i a est ps d) = dk_pend d"
    using Some by (auto simp: note_audit_checkpoint_def dk_pend_def Let_def fun_eq_iff split: option.splits)
  then show ?thesis
    using ok Some by (simp add: dk_ledger_def note_audit_checkpoint_def samples_ok_def Let_def)
qed

lemma dk_event_ledger: "dk_ledger d \<Longrightarrow> dk_ledger (dk_event e d)"
  and dk_event_state: "dk_state (dk_event e d) = dk_state d"
proof -
  have truth: "dk_state (dk_event e d) = dk_state d \<and> (dk_ledger d \<longrightarrow> dk_ledger (dk_event e d))"
    if t: "ce_result e = Truth f c fe v meta" "dk_pending d (ce_id e) = Some p" for f c fe v meta p
  proof -
    define p1 where "p1 = (case ce_paired_sample e of
        Some ps \<Rightarrow> p\<lparr>pd_paired_samples := append_paired_sample ps (pd_paired_samples p)\<rparr> | None \<Rightarrow> p)"
    have p1: "pd_audit_of p1 = pd_audit_of p" by (simp add: p1_def split: option.split)
    define d1 where "d1 = d\<lparr>dk_pending := (dk_pending d)(ce_id e := None),
        dk_counts := count_truth (pd_audit_of p1) fe c (dk_counts d)\<rparr>"
    define d2 where "d2 = learn_from_truth p1 (em_phi meta)
        (calib_truth_as_estimates (em_phi meta) f c (length (cs_k_c (dk_state d)))) d1"
    have ev: "dk_event e d = d2"
      using t by (simp add: dk_event_def d2_def d1_def p1_def Let_def)
    have core: "dk_core d2 = dk_core d1" and sam: "samples_ok d1 \<longrightarrow> samples_ok d2"
      using learn_from_truth_quiet unfolding d2_def quiet_def by blast+
    note fr = core_frame[OF core]
    have "dk_pend d2 = (dk_pend d)(ce_id e := None)"
      unfolding dk_pend_def fr by (auto simp: d1_def)
    moreover have "dk_pend d (ce_id e) = Some (pd_audit_of p1)" using t(2) by (simp add: dk_pend_def p1)
    ultimately have "dk_ledger d \<longrightarrow> dk_ledger d2"
      using ledger_close[of "dk_counts d" "dk_pend d" "ce_id e" "pd_audit_of p1" fe c] sam
      by (simp add: dk_ledger_def fr d1_def samples_ok_def)
    then show ?thesis by (simp add: ev fr) (simp add: d1_def)
  qed
  have note_state: "dk_state (note_audit_checkpoint i a est ps d) = dk_state d" for i a est ps
    by (simp add: note_audit_checkpoint_def Let_def split: option.split)
  have "dk_state (dk_event e d) = dk_state d \<and> (dk_ledger d \<longrightarrow> dk_ledger (dk_event e d))"
  proof (cases "ce_result e")
    case (Truth f c fe v meta)
    then show ?thesis using truth[OF Truth] by (cases "dk_pending d (ce_id e)") (simp_all add: dk_event_def)
  qed (simp_all add: dk_event_def note_state note_audit_ledger split: option.split)
  then show "dk_ledger d \<Longrightarrow> dk_ledger (dk_event e d)" "dk_state (dk_event e d) = dk_state d" by auto
qed

lemma dk_events_ledger: "dk_ledger d \<Longrightarrow> dk_ledger (fold dk_event es d)"
  and dk_events_state: "dk_state (fold dk_event es d) = dk_state d"
  by (induction es arbitrary: d) (simp_all add: dk_event_ledger dk_event_state)

subsection \<open>Lemmas: learned bias bounds\<close>

lemma quantile_total: "sample_ok xs \<Longrightarrow>
  \<exists>r. quantile_of xs q = Inr r \<and> (xs \<noteq> [] \<longrightarrow> (\<exists>v \<in> set xs. r = Some v))"
proof (cases "xs = []")
  case False
  assume ok: "sample_ok xs"
  define srt where "srt = sort_by (\<lambda>a b. \<not> b < a) xs"
  define i where "i = min (f_as_u64 (f_round (clamp01 q * f_of_int (int (length xs - 1))))) (length xs - 1)"
  have "\<not> (\<exists>x \<in> set xs. is_nan x)" using ok finite_not_nan by (auto simp: sample_ok_def list_all_iff)
  then have "quantile_of xs q = Inr (Some (srt ! i))"
    using False by (simp add: quantile_of_def srt_def i_def Let_def)
  moreover have "i < length srt" using False by (simp add: i_def srt_def min_less_iff_disj)
  then have "srt ! i \<in> set xs" using nth_mem[of i srt] by (simp add: srt_def)
  ultimately show ?thesis by blast
qed (simp add: quantile_of_def)

lemma ema_total: "sample_ok xs \<Longrightarrow> \<exists>nx ch. ema_quantile_update d old xs = Inr (nx, ch) \<and> (0 \<le> old \<or> ch \<longrightarrow> 0 \<le> nx)"
proof (cases "length xs < max (dk_k_min_pairs d) 1")
  case False
  assume ok: "sample_ok xs"
  from False have "xs \<noteq> []" by auto
  with quantile_total[OF ok, of "dk_k_quantile d"] obtain v where "quantile_of xs (dk_k_quantile d) = Inr (Some v)" by auto
  with False show ?thesis by (simp add: ema_quantile_update_def Let_def f_max_nonneg f_max_ge2)
qed (auto simp: ema_quantile_update_def)

definition nonneg_all :: "f64 list \<Rightarrow> bool" where
  "nonneg_all xs \<longleftrightarrow> (\<forall>x \<in> set xs. 0 \<le> x)"

lemma nonneg_all_update [intro]: "nonneg_all xs \<Longrightarrow> 0 \<le> x \<Longrightarrow> nonneg_all (xs[i := x])"
  unfolding nonneg_all_def using set_update_subset_insert[of xs i x] by blast

lemma nonneg_all_resize [intro]: "nonneg_all xs \<Longrightarrow> nonneg_all (resize n 0 xs)"
  by (auto simp: nonneg_all_def resize_def f_le_refl dest: in_set_takeD)

lemma nonneg_all_get_or: "nonneg_all xs \<Longrightarrow> 0 \<le> get_or 0 xs j"
  by (simp add: nonneg_all_def get_or_def f_le_refl)

lemma update_k_c_total: "streams_ok ss \<Longrightarrow>
  \<exists>ks ch. update_k_c d olds ss = Inr (ks, ch) \<and> length ks = length olds \<and> (nonneg_all olds \<longrightarrow> nonneg_all ks)
    \<and> (\<not> ch \<longrightarrow> ks = olds)"
proof (induction olds arbitrary: ss)
  case (Cons old olds)
  have "sample_ok (case ss of [] \<Rightarrow> [] | x # _ \<Rightarrow> x)" "streams_ok (tl ss)"
    using Cons.prems by (cases ss; simp add: streams_ok_def)+
  with ema_total[of "case ss of [] \<Rightarrow> [] | x # _ \<Rightarrow> x" d old] Cons.IH[of "tl ss"] obtain nx ch ks ch' where
    "ema_quantile_update d old (case ss of [] \<Rightarrow> [] | x # _ \<Rightarrow> x) = Inr (nx, ch)" "0 \<le> old \<or> ch \<longrightarrow> 0 \<le> nx"
    "update_k_c d olds (tl ss) = Inr (ks, ch')" "length ks = length olds" "nonneg_all olds \<longrightarrow> nonneg_all ks"
    "\<not> ch' \<longrightarrow> ks = olds" by blast
  then show ?case by (auto simp: nonneg_all_def)
qed (auto simp: nonneg_all_def)

lemma bucket_k_c_total: "streams_ok ss \<Longrightarrow> nonneg_all ks \<Longrightarrow>
  \<exists>ks' ch'. bucket_k_c d ss j ks ch = Inr (ks', ch') \<and> nonneg_all ks'"
proof (induction ss arbitrary: j ks ch)
  case (Cons x ss)
  have x: "sample_ok x" "streams_ok ss" using Cons.prems by (auto simp: streams_ok_def)
  from ema_total[OF x(1), of d "get_or 0 ks j"] nonneg_all_get_or[OF Cons.prems(2), of j]
  obtain nx c where nx: "ema_quantile_update d (get_or 0 ks j) x = Inr (nx, c)" "0 \<le> nx" by blast
  define k1 where "k1 = (if j \<ge> length ks then resize (Suc j) 0 ks else ks)"
  have "nonneg_all k1" using Cons.prems(2) by (auto simp: k1_def)
  then have "nonneg_all (if c then k1[j := nx] else k1)" using nx(2) by auto
  from Cons.IH[OF x(2) this, of "Suc j" "ch \<or> c"] show ?case by (simp add: nx(1) Let_def flip: k1_def)
qed simp

definition k_ok :: "calib_state \<Rightarrow> bool" where
  "k_ok s \<longleftrightarrow> 0 \<le> cs_k_f s \<and> nonneg_all (cs_k_c s)
     \<and> (\<forall>st \<in> set (cs_k_by_phi s). 0 \<le> kp_k_f st \<and> nonneg_all (kp_k_c st))
     \<and> (\<forall>st \<in> set (cs_k_interval_stats s). 0 \<le> ki_k_f st \<and> nonneg_all (ki_k_c st))"

lemma bt_of_values: "p \<in> set (bt_of kvs) \<Longrightarrow> p \<in> set kvs"
proof -
  have "p \<in> set (fold (\<lambda>(k, v). bt_upsert k v (\<lambda>_. v)) kvs acc) \<Longrightarrow> p \<in> set kvs \<or> p \<in> set acc" for acc
  proof (induction kvs arbitrary: acc)
    case (Cons kv kvs)
    obtain k v where kv: "kv = (k, v)" by force
    obtain pk pv where p: "p = (pk, pv)" by force
    from Cons.IH[of "bt_upsert k v (\<lambda>_. v) acc"] Cons.prems
    have "p \<in> set kvs \<or> p \<in> set (bt_upsert k v (\<lambda>_. v) acc)" by (simp add: kv)
    then show ?case using bt_upsert_values[of pk pv k v "\<lambda>_. v" acc] by (auto simp: kv p)
  qed simp
  from this[of "[]"] show "p \<in> set (bt_of kvs) \<Longrightarrow> p \<in> set kvs" by (simp add: bt_of_def)
qed

lemma widen_ok: "nonneg_all ks \<Longrightarrow> nonneg_all (widen_k_c m ks)"
  by (auto simp: widen_k_c_def)

lemma nonneg_replicate [simp]: "nonneg_all (replicate m 0)"
  by (simp add: nonneg_all_def f_le_refl)

lemma interval_step_total:
  assumes "samples_ok d" "\<forall>p \<in> set om. 0 \<le> ki_k_f (snd p) \<and> nonneg_all (ki_k_c (snd p))"
  shows "\<exists>st ch. interval_step d om key = Inr (st, ch) \<and> 0 \<le> ki_k_f st \<and> nonneg_all (ki_k_c st)"
proof -
  define oldf fs ks ss where "oldf = (case map_of om key of Some st \<Rightarrow> ki_k_f st | None \<Rightarrow> 0)"
    and "fs = (case map_of (dk_interval_samples_f d) key of Some xs \<Rightarrow> xs | None \<Rightarrow> [])"
    and "ks = widen_k_c (length (cs_k_c (dk_state d))) (case map_of om key of Some st \<Rightarrow> ki_k_c st
      | None \<Rightarrow> replicate (length (cs_k_c (dk_state d))) 0)"
    and "ss = (case map_of (dk_interval_samples_c d) key of Some ss \<Rightarrow> ss | None \<Rightarrow> [])"
  have old: "0 \<le> oldf" "nonneg_all ks"
    using assms(2) by (auto simp: oldf_def ks_def f_le_refl intro!: widen_ok split: option.split dest!: map_of_SomeD)
  have "sample_ok fs" "streams_ok ss"
    using assms(1) by (auto simp: samples_ok_def fs_def ss_def streams_ok_def[of "[]"] split: option.split
        dest: bt_all_map_of[of sample_ok] bt_all_map_of[of streams_ok])
  with ema_total[of fs d oldf] bucket_k_c_total[of ss ks d 0 False] old obtain kf cf kc cc where
    "ema_quantile_update d oldf fs = Inr (kf, cf)" "0 \<le> kf" "bucket_k_c d ss 0 ks False = Inr (kc, cc)" "nonneg_all kc"
    by blast
  then show ?thesis
    by (simp add: interval_step_def Let_def oldf_def[symmetric] fs_def[symmetric] ks_def[symmetric] ss_def[symmetric])
qed

lemma phi_step_total:
  assumes "samples_ok d" "\<forall>p \<in> set om. 0 \<le> kp_k_f (snd p) \<and> nonneg_all (kp_k_c (snd p))"
  shows "\<exists>st ch. phi_step d om key = Inr (st, ch) \<and> 0 \<le> kp_k_f st \<and> nonneg_all (kp_k_c st)"
proof -
  define oldf fs ks ss where "oldf = (case map_of om key of Some st \<Rightarrow> kp_k_f st | None \<Rightarrow> 0)"
    and "fs = (case map_of (dk_phi_samples_f d) key of Some xs \<Rightarrow> xs | None \<Rightarrow> [])"
    and "ks = widen_k_c (length (cs_k_c (dk_state d))) (case map_of om key of Some st \<Rightarrow> kp_k_c st
      | None \<Rightarrow> replicate (length (cs_k_c (dk_state d))) 0)"
    and "ss = (case map_of (dk_phi_samples_c d) key of Some ss \<Rightarrow> ss | None \<Rightarrow> [])"
  have old: "0 \<le> oldf" "nonneg_all ks"
    using assms(2) by (auto simp: oldf_def ks_def f_le_refl intro!: widen_ok split: option.split dest!: map_of_SomeD)
  have "sample_ok fs" "streams_ok ss"
    using assms(1) by (auto simp: samples_ok_def fs_def ss_def streams_ok_def[of "[]"] split: option.split
        dest: bt_all_map_of[of sample_ok] bt_all_map_of[of streams_ok])
  with ema_total[of fs d oldf] bucket_k_c_total[of ss ks d 0 False] old obtain kf cf kc cc where
    "ema_quantile_update d oldf fs = Inr (kf, cf)" "0 \<le> kf" "bucket_k_c d ss 0 ks False = Inr (kc, cc)" "nonneg_all kc"
    by blast
  then show ?thesis
    by (simp add: phi_step_def Let_def oldf_def[symmetric] fs_def[symmetric] ks_def[symmetric] ss_def[symmetric])
qed

subsection \<open>The update of DeltaKCalibrator\<close>

text \<open>
  The parts of the state a margin policy reads. \<open>KByPhiState\<close> values are compared as the code compares
  them, so two zeros of different sign count as equal.
\<close>

definition same_thresholds :: "calib_state \<Rightarrow> calib_state \<Rightarrow> bool" where
  "same_thresholds s t \<longleftrightarrow> cs_delta_rel s = cs_delta_rel t \<and> cs_k_c s = cs_k_c t \<and> cs_k_f s = cs_k_f t
     \<and> cs_eps_f s = cs_eps_f t \<and> list_all2 kp_eq (cs_k_by_phi s) (cs_k_by_phi t)"

definition dk_ok :: "delta_k_calibrator \<Rightarrow> bool" where
  "dk_ok d \<longleftrightarrow> dk_ledger d \<and> slack_ok (dk_state d) \<and> k_ok (dk_state d)"

lemma samples_ok_state [simp]: "samples_ok (d\<lparr>dk_state := s\<rparr>) = samples_ok d"
  by (simp add: samples_ok_def)

lemma update_global_k_total:
  assumes "samples_ok d" "k_ok (dk_state d)"
  obtains ch kf kc where "update_global_k d = Inr (ch, d\<lparr>dk_state := (dk_state d)\<lparr>cs_k_f := kf, cs_k_c := kc\<rparr>\<rparr>)"
    "0 \<le> kf" "nonneg_all kc" "\<not> ch \<Longrightarrow> kf = cs_k_f (dk_state d) \<and> kc = cs_k_c (dk_state d)"
proof -
  let ?s = "dk_state d"
  have "sample_ok (dk_samples_f d)" "streams_ok (dk_samples_c d)" using assms(1) by (simp_all add: samples_ok_def)
  with ema_total[of "dk_samples_f d" d "cs_k_f ?s"] update_k_c_total[of "dk_samples_c d" d "cs_k_c ?s"] assms(2)
  obtain nf cf kc cc where e: "ema_quantile_update d (cs_k_f ?s) (dk_samples_f d) = Inr (nf, cf)" "0 \<le> nf"
    "update_k_c d (cs_k_c ?s) (dk_samples_c d) = Inr (kc, cc)" "nonneg_all kc" "\<not> cc \<longrightarrow> kc = cs_k_c ?s"
    unfolding k_ok_def by blast
  show thesis
  proof (rule that[of "cf \<or> cc" kc "if cf then nf else cs_k_f ?s"])
    show "update_global_k d = Inr (cf \<or> cc, d\<lparr>dk_state := ?s\<lparr>cs_k_f := (if cf then nf else cs_k_f ?s), cs_k_c := kc\<rparr>\<rparr>)"
      using e by (simp add: update_global_k_def Let_def)
  qed (use e assms(2) in \<open>auto simp: k_ok_def\<close>)
qed

lemma update_interval_k_total:
  assumes "samples_ok d" "k_ok (dk_state d)"
  obtains ch ss where "update_interval_k d = Inr (ch, d\<lparr>dk_state := (dk_state d)\<lparr>cs_k_interval_stats := ss\<rparr>\<rparr>)"
    "\<forall>st \<in> set ss. 0 \<le> ki_k_f st \<and> nonneg_all (ki_k_c st)"
proof -
  define om where "om = bt_of (map (\<lambda>st. (ki_key st, st)) (cs_k_interval_stats (dk_state d)))"
  have "\<forall>p \<in> set om. 0 \<le> ki_k_f (snd p) \<and> nonneg_all (ki_k_c (snd p))"
    using assms(2) by (auto simp: om_def k_ok_def dest!: bt_of_values)
  from interval_step_total[OF assms(1) this]
  have "\<exists>rs. res_map (interval_step d om) keys = Inr rs
      \<and> (\<forall>r \<in> set rs. 0 \<le> ki_k_f (fst r) \<and> nonneg_all (ki_k_c (fst r)))" for keys
    by (intro res_map_total) fastforce
  then obtain rs where "res_map (interval_step d om) (bucket_keys (map fst (dk_interval_samples_f d))
      (map fst (dk_interval_samples_c d)) (map fst om)) = Inr rs"
    "\<forall>r \<in> set rs. 0 \<le> ki_k_f (fst r) \<and> nonneg_all (ki_k_c (fst r))" by blast
  then show thesis
    by (intro that[of "list_ex snd rs" "map fst rs"]) (auto simp: update_interval_k_def Let_def om_def[symmetric])
qed

lemma update_phi_bucket_k_total:
  assumes "samples_ok d" "k_ok (dk_state d)"
  obtains ch ss where "update_phi_bucket_k d = Inr (ch, d\<lparr>dk_state := (dk_state d)\<lparr>cs_k_by_phi := ss\<rparr>\<rparr>)"
    "\<forall>st \<in> set ss. 0 \<le> kp_k_f st \<and> nonneg_all (kp_k_c st)" "\<not> ch \<Longrightarrow> list_all2 kp_eq (cs_k_by_phi (dk_state d)) ss"
proof -
  define om where "om = bt_of (map (\<lambda>st. (kp_phi st, st)) (cs_k_by_phi (dk_state d)))"
  have "\<forall>p \<in> set om. 0 \<le> kp_k_f (snd p) \<and> nonneg_all (kp_k_c (snd p))"
    using assms(2) by (auto simp: om_def k_ok_def dest!: bt_of_values)
  from phi_step_total[OF assms(1) this]
  have "\<exists>rs. res_map (phi_step d om) keys = Inr rs
      \<and> (\<forall>r \<in> set rs. 0 \<le> kp_k_f (fst r) \<and> nonneg_all (kp_k_c (fst r)))" for keys
    by (intro res_map_total) fastforce
  then obtain rs where "res_map (phi_step d om) (bucket_keys (map fst (dk_phi_samples_f d))
      (map fst (dk_phi_samples_c d)) (map fst om)) = Inr rs"
    "\<forall>r \<in> set rs. 0 \<le> kp_k_f (fst r) \<and> nonneg_all (kp_k_c (fst r))" by blast
  then show thesis
    by (intro that[of "list_ex snd rs \<or> \<not> list_all2 kp_eq (cs_k_by_phi (dk_state d)) (map fst rs)" "map fst rs"])
      (auto simp: update_phi_bucket_k_def Let_def om_def[symmetric])
qed

lemma nan_nonneg: "0 \<le> x \<Longrightarrow> f_eq x x"
  by (simp add: f_eq_def f64_ord_defs)

lemma k_ok_refl: "k_ok s \<Longrightarrow> list_all2 kp_eq (cs_k_by_phi s) (cs_k_by_phi s)"
  by (auto simp: k_ok_def kp_eq_def nonneg_all_def list_all2_same intro: nan_nonneg)

lemma sync_frame [simp]: "cs_delta_rel (sync_counts_to_state cs s) = cs_delta_rel s"
  "cs_k_c (sync_counts_to_state cs s) = cs_k_c s" "cs_k_f (sync_counts_to_state cs s) = cs_k_f s"
  "cs_eps_f (sync_counts_to_state cs s) = cs_eps_f s" "cs_k_by_phi (sync_counts_to_state cs s) = cs_k_by_phi s"
  "cs_delta_min (sync_counts_to_state cs s) = cs_delta_min s" "cs_delta_max (sync_counts_to_state cs s) = cs_delta_max s"
  "cs_k_interval_stats (sync_counts_to_state cs s) = cs_k_interval_stats s"
  by (simp_all add: sync_counts_to_state_def Let_def)

lemma bump_frame: "bump_policy_rev ch s = (dl, s') \<Longrightarrow> dl = (if ch then 1 else 0)
   \<and> s' = s\<lparr>cs_policy_rev := cs_policy_rev s + dl\<rparr>"
  by (auto simp: bump_policy_rev_def split: if_splits)

lemma dk_update_total:
  assumes ok: "dk_ok d"
  obtains dl d' where "dk_update X es d = Inr (dl, d')" "dk_ok d'" "dl = 0 \<or> dl = 1"
    "dl = 0 \<Longrightarrow> same_thresholds (dk_state d) (dk_state d')"
    "cs_policy_rev (dk_state d') = cs_policy_rev (dk_state d) + dl"
    "sync_counts_to_state (dk_counts d') (dk_state d') = dk_state d'"
    "length (dk_counts d') = length (dk_counts d)"
    "dk_counts d' = dk_counts (fold dk_event es d)" "dk_pend d' = dk_pend (fold dk_event es d)"
proof -
  define d0 where "d0 = fold dk_event es d"
  have led: "dk_ledger d0" and st: "dk_state d0 = dk_state d"
    using ok by (simp_all add: d0_def dk_ok_def dk_events_ledger dk_events_state)
  let ?s = "dk_state d0"
  have sl: "slack_ok ?s" and k: "k_ok ?s" and sam: "samples_ok d0" and len: "length (dk_counts d0) = length (cs_delta_rel ?s)"
    using ok led by (simp_all add: dk_ok_def st dk_ledger_def)
  obtain c1 ds where u1: "update_delta X (dk_counts d0) ?s = Inr (c1, ?s\<lparr>cs_delta_rel := ds\<rparr>)"
    "length ds = length (cs_delta_rel ?s)" "slack_ok (?s\<lparr>cs_delta_rel := ds\<rparr>)" "\<not> c1 \<Longrightarrow> ds = cs_delta_rel ?s"
    using update_delta_ok[OF sl len] by metis
  define d1 where "d1 = d0\<lparr>dk_state := ?s\<lparr>cs_delta_rel := ds\<rparr>\<rparr>"
  have "samples_ok d1" "k_ok (dk_state d1)" using sam k by (simp_all add: d1_def k_ok_def)
  then obtain c2 kf kc where u2: "update_global_k d1 = Inr (c2, d1\<lparr>dk_state := (dk_state d1)\<lparr>cs_k_f := kf, cs_k_c := kc\<rparr>\<rparr>)"
    "0 \<le> kf" "nonneg_all kc" "\<not> c2 \<Longrightarrow> kf = cs_k_f (dk_state d1) \<and> kc = cs_k_c (dk_state d1)"
    using update_global_k_total by metis
  define d2 where "d2 = d1\<lparr>dk_state := (dk_state d1)\<lparr>cs_k_f := kf, cs_k_c := kc\<rparr>\<rparr>"
  have "samples_ok d2" "k_ok (dk_state d2)" using sam k u2(2,3) by (simp_all add: d2_def d1_def k_ok_def)
  then obtain c3 si where u3: "update_interval_k d2 = Inr (c3, d2\<lparr>dk_state := (dk_state d2)\<lparr>cs_k_interval_stats := si\<rparr>\<rparr>)"
    "\<forall>st \<in> set si. 0 \<le> ki_k_f st \<and> nonneg_all (ki_k_c st)"
    using update_interval_k_total by metis
  define d3 where "d3 = d2\<lparr>dk_state := (dk_state d2)\<lparr>cs_k_interval_stats := si\<rparr>\<rparr>"
  have "samples_ok d3" "k_ok (dk_state d3)" using sam k u2(2,3) u3(2) by (simp_all add: d3_def d2_def d1_def k_ok_def)
  then obtain c4 sp where u4: "update_phi_bucket_k d3 = Inr (c4, d3\<lparr>dk_state := (dk_state d3)\<lparr>cs_k_by_phi := sp\<rparr>\<rparr>)"
    "\<forall>st \<in> set sp. 0 \<le> kp_k_f st \<and> nonneg_all (kp_k_c st)" "\<not> c4 \<Longrightarrow> list_all2 kp_eq (cs_k_by_phi (dk_state d3)) sp"
    using update_phi_bucket_k_total by metis
  define d4 where "d4 = d3\<lparr>dk_state := (dk_state d3)\<lparr>cs_k_by_phi := sp\<rparr>\<rparr>"
  define ch where "ch \<longleftrightarrow> c1 \<or> c2 \<or> c3 \<or> c4"
  obtain dl s' where b: "bump_policy_rev ch (sync_counts_to_state (dk_counts d4) (dk_state d4)) = (dl, s')" by force
  note bf = bump_frame[OF b]
  define d' where "d' = d4\<lparr>dk_state := s'\<rparr>"
  have upd: "dk_update X es d = Inr (dl, d')"
    using u1(1) u2(1) u3(1) u4(1) b
    by (simp add: dk_update_def Let_def d'_def ch_def flip: d0_def d1_def d2_def d3_def d4_def)
  have cnt: "dk_counts d4 = dk_counts d0" "dk_pending d4 = dk_pending d0" "dk_counts d' = dk_counts d0" "dk_pending d' = dk_pending d0"
    by (simp_all add: d'_def d4_def d3_def d2_def d1_def)
  have state4: "dk_state d4 = ?s\<lparr>cs_delta_rel := ds, cs_k_f := kf, cs_k_c := kc, cs_k_interval_stats := si, cs_k_by_phi := sp\<rparr>"
    by (simp add: d4_def d3_def d2_def d1_def)
  show thesis
  proof (rule that[OF upd])
    have "samples_ok d'" using sam by (simp add: d'_def d4_def d3_def d2_def d1_def)
    moreover have "dk_pend d' = dk_pend d0" by (simp add: dk_pend_def cnt)
    ultimately have "dk_ledger d'"
      using led u1(2) by (simp add: dk_ledger_def cnt) (simp add: d'_def bf state4)
    moreover have "slack_ok (dk_state d')" "k_ok (dk_state d')"
      using u1(3) u2(2,3) u3(2) u4(2) by (simp_all add: d'_def bf state4 slack_ok_def k_ok_def)
    ultimately show "dk_ok d'" by (simp add: dk_ok_def)
    show "dl = 0 \<or> dl = 1" using bf by simp
    show "same_thresholds (dk_state d) (dk_state d')" if "dl = 0"
    proof -
      have "\<not> ch" using that bf by (auto split: if_splits)
      then have "ds = cs_delta_rel ?s" "kf = cs_k_f ?s" "kc = cs_k_c ?s" "list_all2 kp_eq (cs_k_by_phi ?s) sp"
        using u1(4) u2(4) u4(3) by (auto simp: ch_def d1_def d2_def d3_def)
      then show ?thesis by (simp add: same_thresholds_def d'_def bf state4 flip: st)
    qed
    show "cs_policy_rev (dk_state d') = cs_policy_rev (dk_state d) + dl"
      by (simp add: d'_def bf state4 sync_counts_to_state_def Let_def flip: st)
    show "sync_counts_to_state (dk_counts d') (dk_state d') = dk_state d'"
      by (simp add: d'_def bf state4 sync_counts_to_state_def Let_def cnt)
    show "length (dk_counts d') = length (dk_counts d)" using ok len by (simp add: cnt dk_ok_def dk_ledger_def st)
    show "dk_counts d' = dk_counts (fold dk_event es d)" "dk_pend d' = dk_pend (fold dk_event es d)"
      by (simp_all add: cnt dk_pend_def flip: d0_def)
  qed
qed

lemma kp_eq_trans: "kp_eq a b \<Longrightarrow> kp_eq b c \<Longrightarrow> kp_eq a c"
proof -
  assume a: "kp_eq a b" "kp_eq b c"
  have "list_all2 f_eq xs ys \<Longrightarrow> list_all2 f_eq ys zs \<Longrightarrow> list_all2 f_eq xs zs" for xs ys zs
    by (rule list_all2_trans) (simp_all add: f_eq_def)
  with a show ?thesis unfolding kp_eq_def by (auto simp: f_eq_def)
qed

lemma same_thresholds_trans: "same_thresholds s t \<Longrightarrow> same_thresholds t u \<Longrightarrow> same_thresholds s u"
proof -
  assume a: "same_thresholds s t" "same_thresholds t u"
  have "list_all2 kp_eq (cs_k_by_phi s) (cs_k_by_phi u)"
    by (rule list_all2_trans[of kp_eq kp_eq kp_eq, OF kp_eq_trans, where bs = "cs_k_by_phi t"])
      (use a in \<open>simp_all add: same_thresholds_def\<close>)
  with a show ?thesis by (simp add: same_thresholds_def)
qed

subsection \<open>The contract of a calibrator\<close>

text \<open>A run: the batches in order, with the policy revision delta of each.\<close>

fun calib_run :: "(calib_event list \<Rightarrow> 's \<Rightarrow> (u64 \<times> 's) res) \<Rightarrow> calib_event list list \<Rightarrow> 's \<Rightarrow> (u64 list \<times> 's) res" where
  "calib_run update [] s = Inr ([], s)"
| "calib_run update (es # batches) s =
     res_bind (update es s) (\<lambda>(dl, s').
       res_bind (calib_run update batches s') (\<lambda>(dls, s''). Inr (dl # dls, s'')))"

text \<open>
  The engine calls \<open>update\<close> after every batch, unwraps nothing, and keys its decision cache by the policy
  revision: an update must not panic, and a revision delta of zero must leave the thresholds as they were.
\<close>

locale calibrator_policy =
  fixes update :: "calib_event list \<Rightarrow> 's \<Rightarrow> (u64 \<times> 's) res"
    and state :: "'s \<Rightarrow> calib_state"
    and inv :: "'s \<Rightarrow> bool"
  assumes update_ok: "inv s \<Longrightarrow> \<exists>dl s'. update es s = Inr (dl, s') \<and> inv s'
      \<and> (dl = 0 \<longrightarrow> same_thresholds (state s) (state s'))"
    and same_refl: "inv s \<Longrightarrow> same_thresholds (state s) (state s)"
begin

lemma run_total: "inv s \<Longrightarrow> \<exists>dls s'. calib_run update bs s = Inr (dls, s') \<and> inv s'
    \<and> ((\<forall>dl \<in> set dls. dl = 0) \<longrightarrow> same_thresholds (state s) (state s'))"
proof (induction bs arbitrary: s)
  case (Cons es bs)
  obtain dl s1 where u: "update es s = Inr (dl, s1)" "inv s1" "dl = 0 \<longrightarrow> same_thresholds (state s) (state s1)"
    using update_ok[OF Cons.prems] by blast
  obtain dls s2 where r: "calib_run update bs s1 = Inr (dls, s2)" "inv s2"
    "(\<forall>dl \<in> set dls. dl = 0) \<longrightarrow> same_thresholds (state s1) (state s2)" using Cons.IH[OF u(2)] by blast
  have "(\<forall>dl \<in> set (dl # dls). dl = 0) \<longrightarrow> same_thresholds (state s) (state s2)"
    using u(3) r(3) same_thresholds_trans[of "state s" "state s1" "state s2"] by simp
  then show ?case using u(1) r(1,2) by simp
qed (simp add: same_refl)

end

interpretation noop: calibrator_policy "\<lambda>es s. Inr (noop_update es s)" "\<lambda>s. s" k_ok
  by unfold_locales (auto simp: noop_update_def same_thresholds_def k_ok_refl)

definition dk_inv :: "nat \<Rightarrow> delta_k_calibrator \<Rightarrow> bool" where
  "dk_inv m d \<longleftrightarrow> dk_ok d \<and> length (dk_counts d) = m \<and> sync_counts_to_state (dk_counts d) (dk_state d) = dk_state d"

interpretation dk: calibrator_policy "dk_update X" dk_state "dk_inv m" for X m
proof
  show "\<exists>dl d'. dk_update X es d = Inr (dl, d') \<and> dk_inv m d' \<and> (dl = 0 \<longrightarrow> same_thresholds (dk_state d) (dk_state d'))"
    if "dk_inv m d" for d es
  proof -
    have ok: "dk_ok d" "length (dk_counts d) = m" using that by (simp_all add: dk_inv_def)
    show ?thesis by (rule dk_update_total[OF ok(1), of X es]) (auto simp: dk_inv_def ok(2))
  qed
  show "same_thresholds (dk_state d) (dk_state d)" if "dk_inv m d" for d
    using that k_ok_refl by (auto simp: dk_inv_def dk_ok_def same_thresholds_def)
qed

definition delta_inv :: "delta_calibrator \<Rightarrow> bool" where
  "delta_inv d \<longleftrightarrow> slack_ok (dc_state d) \<and> length (dc_counts d) = length (cs_delta_rel (dc_state d))
     \<and> ledger_ok (dc_counts d) (dc_pending d) \<and> k_ok (dc_state d)"

lemma delta_event_inv: "delta_inv d \<Longrightarrow> delta_inv (delta_event e d)"
  by (auto simp: delta_inv_def delta_event_def ledger_open ledger_close split: job_result.split option.split)

lemma delta_event_state [simp]: "dc_state (delta_event e d) = dc_state d"
  by (simp add: delta_event_def split: job_result.split option.split)

lemma delta_events: "delta_inv d \<Longrightarrow> delta_inv (fold delta_event es d) \<and> dc_state (fold delta_event es d) = dc_state d"
  by (induction es arbitrary: d) (simp_all add: delta_event_inv)

interpretation delta: calibrator_policy "delta_update X" dc_state delta_inv for X
proof
  show "\<exists>dl d'. delta_update X es d = Inr (dl, d') \<and> delta_inv d' \<and> (dl = 0 \<longrightarrow> same_thresholds (dc_state d) (dc_state d'))"
    if d: "delta_inv d" for d es
  proof -
    define d1 where "d1 = fold delta_event es d"
    have d1: "delta_inv d1" "dc_state d1 = dc_state d" using delta_events[OF d] by (simp_all add: d1_def)
    have sl: "slack_ok (dc_state d)" "length (dc_counts d1) = length (cs_delta_rel (dc_state d))"
      using d1 by (simp_all add: delta_inv_def)
    obtain ch ds where u: "update_delta X (dc_counts d1) (dc_state d) = Inr (ch, (dc_state d)\<lparr>cs_delta_rel := ds\<rparr>)"
      "length ds = length (cs_delta_rel (dc_state d))" "slack_ok ((dc_state d)\<lparr>cs_delta_rel := ds\<rparr>)"
      "\<not> ch \<Longrightarrow> ds = cs_delta_rel (dc_state d)" using update_delta_ok[OF sl] by metis
    obtain dl s' where b: "bump_policy_rev ch (sync_counts_to_state (dc_counts d1)
        ((dc_state d)\<lparr>cs_delta_rel := ds\<rparr>)) = (dl, s')" by force
    note bf = bump_frame[OF b]
    have "delta_update X es d = Inr (dl, d1\<lparr>dc_state := s'\<rparr>)"
      using u(1) b by (simp add: delta_update_def Let_def d1(2) flip: d1_def)
    moreover have "delta_inv (d1\<lparr>dc_state := s'\<rparr>)"
      using d1 u(2,3) by (simp add: delta_inv_def bf slack_ok_def k_ok_def)
    moreover have "same_thresholds (dc_state d) s'" if "dl = 0"
    proof -
      have "\<not> ch" using that bf by (auto split: if_splits)
      then show ?thesis using u(4) d k_ok_refl by (simp add: same_thresholds_def bf delta_inv_def)
    qed
    ultimately show ?thesis by auto
  qed
  show "same_thresholds (dc_state d) (dc_state d)" if "delta_inv d" for d
    using that k_ok_refl by (auto simp: delta_inv_def same_thresholds_def)
qed

subsection \<open>Properties of DeltaKCalibrator\<close>

lemma clamp_all_total: "lo \<le> hi \<Longrightarrow> (\<forall>x \<in> set xs. \<not> is_nan x) \<Longrightarrow>
  \<exists>ys. res_map (clamp_res lo hi) xs = Inr ys \<and> length ys = length xs \<and> (\<forall>y \<in> set ys. lo \<le> y \<and> y \<le> hi)"
proof (induction xs)
  case (Cons x xs)
  from clamp_res_Inr[OF Cons.prems(1), of x] obtain y where y: "clamp_res lo hi x = Inr y" "f_clamp x lo hi = Some y" by blast
  with Cons f_clamp_bounds[OF y(2)] show ?case by auto
qed simp

lemma per_constraint_replicate: "per_constraint m z f (replicate m c) = replicate m (f c)"
  by (rule nth_equalityI) (simp_all add: per_constraint_def get_def)

definition dk_start :: "calib_cfg \<Rightarrow> nat \<Rightarrow> delta_k_calibrator res" where
  "dk_start cfg m = dk_configure cfg (dk_init m dk_default)"

lemma init_slack_not_nan: "\<forall>x \<in> set (cs_delta_rel (calib_state_init m)). \<not> is_nan x"
  using f_lit_nonneg[of 5 1000] by (auto simp: calib_state_init_def less_eq_f64_def)

lemma init_fields: "cs_k_c (calib_state_init m) = replicate m 0" "cs_k_f (calib_state_init m) = 0"
  "cs_k_by_phi (calib_state_init m) = []" "cs_k_interval_stats (calib_state_init m) = []"
  "length (cs_delta_rel (calib_state_init m)) = m"
  by (simp_all add: calib_state_init_def)

lemma dk_start_ok:
  assumes "cc_delta_min cfg \<le> cc_delta_max cfg"
  shows "\<exists>d. dk_start cfg m = Inr d \<and> dk_inv m d"
proof -
  obtain ds where ds: "res_map (clamp_res (cc_delta_min cfg) (cc_delta_max cfg)) (cs_delta_rel (calib_state_init m)) = Inr ds"
    "length ds = m" "\<forall>y \<in> set ds. cc_delta_min cfg \<le> y \<and> y \<le> cc_delta_max cfg"
    using clamp_all_total[OF assms init_slack_not_nan] by (auto simp: init_fields)
  define s where "s = (calib_state_init m)\<lparr>cs_target_false := cc_target_false cfg, cs_min_audits := cc_min_audits cfg,
    cs_eta_delta := cc_eta_delta cfg, cs_delta_min := cc_delta_min cfg, cs_delta_max := cc_delta_max cfg, cs_delta_rel := ds\<rparr>"
  have z: "zero_nonfinite 0 = 0" by (simp add: zero_nonfinite_def)
  obtain d where d: "dk_start cfg m = Inr d" "dk_state d = s" "dk_counts d = replicate m counts_default"
    "dk_pending d = Map.empty" "samples_ok d"
    using ds(1) by (simp add: dk_start_def dk_configure_def dk_apply_cfg_def dk_init_def Let_def s_def init_fields z samples_ok_def)
  have "slack_ok s" using assms ds(3) by (simp add: slack_ok_def s_def)
  moreover have "k_ok s" by (simp add: k_ok_def s_def init_fields f_le_refl)
  moreover have "ledger_ok (dk_counts d) (dk_pend d)"
    using ledger_init by (simp add: dk_pend_def d)
  moreover have "sync_counts_to_state (dk_counts d) s = s"
    using ds(2) by (simp add: sync_counts_to_state_def Let_def d s_def per_constraint_replicate)
      (simp add: calib_state_init_def counts_default_def)
  ultimately show ?thesis using d ds(2) by (simp add: dk_inv_def dk_ok_def dk_ledger_def s_def)
qed

text \<open>
  \<open>configure\<close> after \<open>init\<close> panics exactly when there is a constraint and \<open>delta_min\<close> is not at most \<open>delta_max\<close>.
\<close>

theorem dk_start_panics_iff:
  "dk_start cfg m = Inl p \<longleftrightarrow> m > 0 \<and> \<not> cc_delta_min cfg \<le> cc_delta_max cfg \<and> p = Clamp_bad_bounds"
proof (cases "cc_delta_min cfg \<le> cc_delta_max cfg")
  case True
  then show ?thesis using dk_start_ok[OF True, of m] by auto
next
  case False
  then have "clamp_res (cc_delta_min cfg) (cc_delta_max cfg) x = Inl Clamp_bad_bounds" for x
    by (simp add: clamp_res_def f_clamp_def)
  then show ?thesis using False
    by (cases m) (auto simp: dk_start_def dk_configure_def dk_apply_cfg_def dk_init_def calib_state_init_def Let_def)
qed

definition cut_demo :: "cand_id \<Rightarrow> calib_event" where
  "cut_demo i = \<lparr>ce_id = i, ce_result = EarlyInfeasible 1
       \<lparr>f_hat = [1], f_se = [0], c_hat = [0, 1], c_se = [0, 0], es_phi = Phi 10 8, tau_scale = 1, es_num_objectives = 1\<rparr>
       \<lparr>em_phi = Phi 10 8, em_env_rev = 0, em_policy_rev = 0, em_runtime_cost = 1\<rparr>,
     ce_audited = True, ce_audit_of = Some \<lparr>af_violated_j = 1, af_phi_at_cut = Phi 10 8, af_phi_idx_at_cut = 0\<rparr>,
     ce_paired_sample = None\<rparr>"

definition truth_demo :: "cand_id \<Rightarrow> calib_event" where
  "truth_demo i = \<lparr>ce_id = i, ce_result = Truth [1] [0, 0] True 0
       \<lparr>em_phi = Phi 1 64, em_env_rev = 0, em_policy_rev = 0, em_runtime_cost = 1\<rparr>,
     ce_audited = False, ce_audit_of = None, ce_paired_sample = None\<rparr>"

text \<open>
  C17: with a valid slack range no sequence of batches makes the calibrator panic, whatever the events are and whatever
  \<open>f64::exp\<close> returns; every slack stays in the configured range and every bias bound stays a non-negative number.
\<close>

theorem dk_run_safe:
  assumes "cc_delta_min cfg \<le> cc_delta_max cfg"
  shows "\<exists>d0 dls d. dk_start cfg m = Inr d0 \<and> calib_run (dk_update X) batches d0 = Inr (dls, d)
    \<and> length (cs_delta_rel (dk_state d)) = m
    \<and> (\<forall>x \<in> set (cs_delta_rel (dk_state d)). cs_delta_min (dk_state d) \<le> x \<and> x \<le> cs_delta_max (dk_state d))
    \<and> 0 \<le> cs_k_f (dk_state d) \<and> (\<forall>x \<in> set (cs_k_c (dk_state d)). 0 \<le> x)
    \<and> (\<forall>st \<in> set (cs_k_by_phi (dk_state d)). 0 \<le> kp_k_f st \<and> (\<forall>x \<in> set (kp_k_c st). 0 \<le> x))"
proof -
  obtain d0 where d0: "dk_start cfg m = Inr d0" "dk_inv m d0" using dk_start_ok[OF assms] by blast
  obtain dls d where "calib_run (dk_update X) batches d0 = Inr (dls, d)" "dk_inv m d"
    using dk.run_total[OF d0(2)] by blast
  with d0 show ?thesis
    by (auto simp: dk_inv_def dk_ok_def dk_ledger_def slack_ok_def k_ok_def nonneg_all_def)
qed

lemma calib_cfg_default_range: "cc_delta_min calib_cfg_default \<le> cc_delta_max calib_cfg_default"
  by (simp add: calib_cfg_default_def f_lit_nonneg)

theorem dk_run_safe_witness:
  "\<exists>d0 dls d. dk_start calib_cfg_default 2 = Inr d0
    \<and> calib_run (dk_update extern0) [[cut_demo 1], [truth_demo 1, cut_demo 2]] d0 = Inr (dls, d)
    \<and> length (cs_delta_rel (dk_state d)) = 2 \<and> 0 \<le> cs_k_f (dk_state d)"
  using dk_run_safe[OF calib_cfg_default_range, of 2 extern0 "[[cut_demo 1], [truth_demo 1, cut_demo 2]]"] by blast

text \<open>
  C18: as long as the calibrator reports a policy revision delta of zero, the thresholds it publishes do not change,
  so a decision cached under that revision was taken with the thresholds in force.
\<close>

theorem dk_revision_sound:
  assumes "cc_delta_min cfg \<le> cc_delta_max cfg"
    and "dk_start cfg m = Inr d0" "calib_run (dk_update X) earlier d0 = Inr (dls0, d)"
    and "calib_run (dk_update X) batches d = Inr (dls, d')" "\<forall>dl \<in> set dls. dl = 0"
  shows "same_thresholds (dk_state d) (dk_state d')"
proof -
  have "dk_inv m d0" using dk_start_ok[OF assms(1), of m] assms(2) by auto
  then have "dk_inv m d" using dk.run_total[of m d0 X earlier] assms(3) by auto
  then show ?thesis using dk.run_total[of m d X batches] assms(4,5) by auto
qed

text \<open>
  Until the TRUTH result of an audited candidate arrives there are no samples and no audit outcomes: the calibrator counts
  cuts and reports no revision.
\<close>

definition dk_idle :: "nat \<Rightarrow> delta_k_calibrator \<Rightarrow> bool" where
  "dk_idle m d \<longleftrightarrow> dk_samples_f d = [] \<and> dk_samples_c d = replicate m [] \<and> dk_phi_samples_f d = [] \<and> dk_phi_samples_c d = []
     \<and> dk_interval_samples_f d = [] \<and> dk_interval_samples_c d = [] \<and> cs_k_interval_stats (dk_state d) = []
     \<and> cs_k_by_phi (dk_state d) = [] \<and> length (dk_counts d) = m \<and> length (cs_delta_rel (dk_state d)) = m
     \<and> length (cs_k_c (dk_state d)) = m \<and> (\<forall>c \<in> set (dk_counts d). ct_audit c = 0)"

definition is_truth_event :: "calib_event \<Rightarrow> bool" where
  "is_truth_event e \<longleftrightarrow> (case ce_result e of Truth _ _ _ _ _ \<Rightarrow> True | _ \<Rightarrow> False)"

lemma dk_start_idle: "dk_start cfg m = Inr d \<Longrightarrow> dk_idle m d"
  by (auto simp: dk_start_def dk_configure_def dk_apply_cfg_def dk_init_def dk_default_def dk_idle_def Let_def res_bind_Inr
      calib_state_init_def counts_default_def res_map_Inr dest!: list_all2_lengthD)

lemma count_cut_idle: "(\<forall>c \<in> set (count_cut a cs). ct_audit c = 0) \<longleftrightarrow> (\<forall>c \<in> set cs. ct_audit c = 0)"
proof -
  have "ct_audit (count_cut a cs ! i) = ct_audit (cs ! i)" if "i < length cs" for i
    using that by (cases "i = af_violated_j a") (auto simp: count_cut_def cut_entry_def ensure_level_def Let_def)
  moreover have "length (count_cut a cs) = length cs" by (simp add: count_cut_def Let_def)
  ultimately show ?thesis by (metis in_set_conv_nth)
qed

lemma dk_event_idle: "\<not> is_truth_event e \<Longrightarrow> dk_idle m d \<Longrightarrow> dk_idle m (dk_event e d)"
  by (auto simp: dk_event_def is_truth_event_def note_audit_checkpoint_def dk_idle_def Let_def count_cut_idle
      split: job_result.split option.split)

lemma dk_events_idle: "\<forall>e \<in> set es. \<not> is_truth_event e \<Longrightarrow> dk_idle m d \<Longrightarrow> dk_idle m (fold dk_event es d)"
  by (induction es arbitrary: d) (simp_all add: dk_event_idle)

lemma ema_no_samples [simp]: "ema_quantile_update d old [] = Inr (old, False)"
  by (simp add: ema_quantile_update_def)

lemma update_k_c_idle: "update_k_c d olds (replicate (length olds) []) = Inr (olds, False)"
  by (induction olds) simp_all

lemma update_delta_idle:
  assumes "length cs = length (cs_delta_rel s)" "\<forall>c \<in> set cs. ct_audit c = 0"
  shows "update_delta X cs s = Inr (False, s)"
proof -
  have "update_delta_loop X cs js s False = Inr (False, s)" if "\<forall>j \<in> set js. j < length cs" for js
    using that assms(2) by (induction js) (auto simp: get_def delta_next_def)
  then show ?thesis using assms(1) by (simp add: update_delta_def)
qed

lemma dk_update_idle:
  assumes "dk_idle m d" "\<forall>e \<in> set es. \<not> is_truth_event e"
  shows "\<exists>d'. dk_update X es d = Inr (0, d') \<and> dk_idle m d'"
proof -
  define d1 where "d1 = fold dk_event es d"
  have i: "dk_idle m d1" using dk_events_idle[OF assms(2,1)] by (simp add: d1_def)
  then have delta: "update_delta X (dk_counts d1) (dk_state d1) = Inr (False, dk_state d1)"
    by (intro update_delta_idle) (auto simp: dk_idle_def)
  have "update_global_k d1 = Inr (False, d1)" "update_interval_k d1 = Inr (False, d1)" "update_phi_bucket_k d1 = Inr (False, d1)"
    using i update_k_c_idle[of d1 "cs_k_c (dk_state d1)"]
    by (simp_all add: dk_idle_def update_global_k_def update_interval_k_def update_phi_bucket_k_def bucket_keys_def bt_of_def Let_def)
  with delta have "dk_update X es d = Inr (0, d1\<lparr>dk_state := sync_counts_to_state (dk_counts d1) (dk_state d1)\<rparr>)"
    by (simp add: dk_update_def Let_def bump_policy_rev_def flip: d1_def)
  moreover have "dk_idle m (d1\<lparr>dk_state := sync_counts_to_state (dk_counts d1) (dk_state d1)\<rparr>)"
    using i by (simp add: dk_idle_def sync_counts_to_state_def Let_def)
  ultimately show ?thesis by blast
qed

lemma calib_run_idle:
  "dk_idle m d \<Longrightarrow> \<forall>es \<in> set bs. \<forall>e \<in> set es. \<not> is_truth_event e \<Longrightarrow>
   \<exists>d'. calib_run (dk_update X) bs d = Inr (replicate (length bs) 0, d') \<and> dk_idle m d'"
proof (induction bs arbitrary: d)
  case (Cons es bs)
  obtain d1 where "dk_update X es d = Inr (0, d1)" "dk_idle m d1" using dk_update_idle[of m d es X] Cons.prems by auto
  with Cons.IH[of d1] Cons.prems show ?case by auto
qed simp

text \<open>
  Three batches of a fresh calibrator: an audited cut, then another candidate's with a repeated checkpoint, then none. Every
  update reports zero and the thresholds stay.
\<close>

theorem dk_revision_sound_witness:
  "\<exists>d0 d d'. dk_start calib_cfg_default 2 = Inr d0
    \<and> calib_run (dk_update extern0) [[cut_demo 1]] d0 = Inr ([0], d)
    \<and> calib_run (dk_update extern0) [[cut_demo 2, cut_demo 1], []] d = Inr ([0, 0], d')
    \<and> same_thresholds (dk_state d) (dk_state d')"
proof -
  have c: "\<not> is_truth_event (cut_demo i)" for i by (simp add: is_truth_event_def cut_demo_def)
  obtain d0 where d0: "dk_start calib_cfg_default 2 = Inr d0" using dk_start_ok[OF calib_cfg_default_range] by blast
  obtain d where d: "calib_run (dk_update extern0) [[cut_demo 1]] d0 = Inr ([0], d)" "dk_idle 2 d"
    using calib_run_idle[OF dk_start_idle[OF d0], of "[[cut_demo 1]]" extern0] c by auto
  obtain d' where d': "calib_run (dk_update extern0) [[cut_demo 2, cut_demo 1], []] d = Inr ([0, 0], d')"
    using calib_run_idle[OF d(2), of "[[cut_demo 2, cut_demo 1], []]" extern0] c by (auto simp del: calib_run.simps)
  from dk_revision_sound[OF calib_cfg_default_range d0 d(1) d'] d0 d(1) d' show ?thesis
    by (intro exI[of _ d0] exI[of _ d] exI[of _ d']) (simp del: calib_run.simps)
qed

text \<open>
  C12: the published counts are a ledger. For every constraint the audited cuts are those whose TRUTH result has
  been counted plus those still open; false infeasible and confirmed outcomes are among the counted ones; and each
  total is the sum of its split over the ladder.
\<close>

theorem dk_audit_ledger:
  assumes "cc_delta_min cfg \<le> cc_delta_max cfg"
    and "dk_start cfg m = Inr d0" "calib_run (dk_update X) batches d0 = Inr (dls, d)" "j < m"
  shows "let s = dk_state d in
    cs_cut_n s ! j = cs_audit_n s ! j + card (open_audits (dk_pend d) j)
    \<and> cs_false_infeas_n s ! j \<le> cs_audit_n s ! j \<and> cs_confirmed_violation_n s ! j \<le> cs_audit_n s ! j
    \<and> sum_list (cs_cut_n_by_phi_idx s ! j) = cs_cut_n s ! j
    \<and> sum_list (cs_audit_n_by_phi_idx s ! j) = cs_audit_n s ! j
    \<and> sum_list (cs_false_infeas_n_by_phi_idx s ! j) = cs_false_infeas_n s ! j
    \<and> sum_list (cs_confirmed_violation_n_by_phi_idx s ! j) = cs_confirmed_violation_n s ! j"
proof -
  have "dk_inv m d0" using dk_start_ok[OF assms(1), of m] assms(2) by auto
  then have inv: "dk_inv m d" using dk.run_total[of m d0 X batches] assms(3) by auto
  define c where "c = dk_counts d ! j"
  have len: "length (dk_counts d) = m" "length (cs_delta_rel (dk_state d)) = m"
    and led: "ledger_ok (dk_counts d) (dk_pend d)" and sync: "sync_counts_to_state (dk_counts d) (dk_state d) = dk_state d"
    using inv by (simp_all add: dk_inv_def dk_ok_def dk_ledger_def)
  have c: "counts_ok c" "ct_cut c = ct_audit c + card (open_audits (dk_pend d) j)"
    using led assms(4) len by (simp_all add: ledger_ok_def c_def list_all_length)
  have at: "per_constraint m z f (dk_counts d) ! j = f c" for z :: "'b" and f
    using assms(4) len by (simp add: per_constraint_def get_def c_def)
  obtain s where s: "dk_state d = sync_counts_to_state (dk_counts d) s" "length (cs_delta_rel s) = m"
    using sync len(2) by metis
  show ?thesis
    unfolding s(1) using c by (simp add: sync_counts_to_state_def Let_def s(2) at counts_ok_def)
qed

text \<open>A cut, its TRUTH result, and another cut.\<close>

theorem dk_audit_ledger_witness:
  "\<exists>d0 dls d. dk_start calib_cfg_default 2 = Inr d0
    \<and> calib_run (dk_update extern0) [[cut_demo 1], [truth_demo 1, cut_demo 2]] d0 = Inr (dls, d)
    \<and> cs_cut_n (dk_state d) ! 1 = cs_audit_n (dk_state d) ! 1 + card (open_audits (dk_pend d) 1)
    \<and> sum_list (cs_cut_n_by_phi_idx (dk_state d) ! 1) = cs_cut_n (dk_state d) ! 1"
proof -
  obtain d0 where d0: "dk_start calib_cfg_default 2 = Inr d0" "dk_inv 2 d0" using dk_start_ok[OF calib_cfg_default_range] by blast
  obtain dls d where d: "calib_run (dk_update extern0) [[cut_demo 1], [truth_demo 1, cut_demo 2]] d0 = Inr (dls, d)"
    using dk.run_total[OF d0(2)] by blast
  from dk_audit_ledger[OF calib_cfg_default_range d0(1) d, of 1] d0(1) d show ?thesis
    by (auto simp: Let_def simp del: calib_run.simps)
qed

end
