(* ===== verification/Margin.thy ===== *)
theory Margin
  imports Calibrator
begin

text \<open>
  \<open>policies/margin.rs\<close>: the thresholds taken from the calibration state, the early-infeasibility test and the
  objective bounds of \<open>DefaultMargin\<close>. The lemmas show that the bounds bracket the estimate, that a cut means
  the estimate itself exceeds the slack, and that calibration states with the same thresholds lead to the same
  decisions.
\<close>

record thresholds =
  th_delta_rel :: "f64 list"
  th_k_c :: "f64 list"
  th_k_f :: f64
  th_k_by_phi :: "k_by_phi_state list"
  th_eps_f :: f64

definition k_f_for :: "thresholds \<Rightarrow> phi \<Rightarrow> f64" where
  "k_f_for th p = (case find (\<lambda>st. kp_phi st = p) (th_k_by_phi th) of Some st \<Rightarrow> kp_k_f st | None \<Rightarrow> th_k_f th)"

definition k_c_for :: "thresholds \<Rightarrow> phi \<Rightarrow> nat \<Rightarrow> f64" where
  "k_c_for th p j = (case find (\<lambda>st. kp_phi st = p) (th_k_by_phi th) of
       Some st \<Rightarrow> (case get (kp_k_c st) j of Some k \<Rightarrow> k | None \<Rightarrow> get_or 0 (th_k_c th) j)
     | None \<Rightarrow> get_or 0 (th_k_c th) j)"

definition z_for :: "f64 \<Rightarrow> f64" where
  "z_for alpha =
     (if f_abs (alpha - f_lit 5 100) < f_lit 1 (10 ^ 12) then f_lit 1645 1000
      else if f_abs (alpha - f_lit 10 100) < f_lit 1 (10 ^ 12) then f_lit 1282 1000
      else f_lit 196 100)"

definition alpha_c :: f64 where "alpha_c = f_lit 5 100"
definition alpha_f :: f64 where "alpha_f = f_lit 10 100"
definition beta_f :: f64 where "beta_f = f_lit 5 100"

definition thresholds_of :: "calib_state \<Rightarrow> thresholds" where
  "thresholds_of cal = \<lparr>th_delta_rel = cs_delta_rel cal, th_k_c = cs_k_c cal, th_k_f = cs_k_f cal,
     th_k_by_phi = cs_k_by_phi cal, th_eps_f = cs_eps_f cal\<rparr>"

text \<open>The test of one constraint, and the loop over \<open>c_hat.iter().zip(c_se).enumerate()\<close>.\<close>

definition infeasible_at :: "estimates \<Rightarrow> thresholds \<Rightarrow> nat \<Rightarrow> f64 \<Rightarrow> f64 \<Rightarrow> bool" where
  "infeasible_at est th j ch se =
     (let zc = z_for alpha_c; delta = get_or 0 (th_delta_rel th) j;
        bias = k_c_for th (es_phi est) j * tau_scale est; lhs = ch - zc * se - bias in lhs > delta)"

fun early_infeasible_from :: "estimates \<Rightarrow> thresholds \<Rightarrow> nat \<Rightarrow> (f64 \<times> f64) list \<Rightarrow> nat option" where
  "early_infeasible_from est th j [] = None"
| "early_infeasible_from est th j ((ch, se) # rest) =
     (if infeasible_at est th j ch se then Some j else early_infeasible_from est th (Suc j) rest)"

definition early_infeasible :: "estimates \<Rightarrow> thresholds \<Rightarrow> nat option" where
  "early_infeasible est th = early_infeasible_from est th 0 (zip (c_hat est) (c_se est))"

definition objective_bounds :: "estimates \<Rightarrow> thresholds \<Rightarrow> f64 \<times> f64" where
  "objective_bounds est th =
     (let z_l = z_for alpha_f; z_u = z_for beta_f; k_f = k_f_for th (es_phi est);
        fh = f_hat_primary est; fs = f_se_primary est;
        lcb = fh - z_l * fs - k_f * tau_scale est;
        ucb = fh + z_u * fs + k_f * tau_scale est in (lcb, ucb))"

subsection \<open>Arithmetic\<close>

lemma z_for_cases: "z_for a = f_lit 1645 1000 \<or> z_for a = f_lit 1282 1000 \<or> z_for a = f_lit 196 100"
  by (simp add: z_for_def)

lemma z_for_nonneg: "0 \<le> z_for a"
  using z_for_cases[of a] f_lit_nonneg by metis

lemma sub_le_f64: "0 \<le> y \<Longrightarrow> \<not> is_nan (x - y) \<Longrightarrow> (x - y :: f64) \<le> x"
proof (cases "is_finite x")
  case False
  assume a: "0 \<le> y" "\<not> is_nan (x - y)"
  have "\<not> is_nan x" using a(2) by (auto simp: minus_f64_def plus_f64_def is_nan_def)
  with False a(2) have "x - y = x"
    by (auto simp: minus_f64_def plus_f64_def finite_iff is_nan_def split: if_splits)
  then show ?thesis using \<open>\<not> is_nan x\<close> by (simp add: f_le_refl)
qed (rule sub_decreasing_f64)

lemma add_ge_f64: "0 \<le> y \<Longrightarrow> \<not> is_nan (x + y) \<Longrightarrow> x \<le> (x + y :: f64)"
proof (cases "is_finite x")
  case False
  assume a: "0 \<le> y" "\<not> is_nan (x + y)"
  have "\<not> is_nan x" using a(2) by (auto simp: plus_f64_def is_nan_def)
  with False a(2) have "x + y = x"
    by (auto simp: plus_f64_def finite_iff is_nan_def split: if_splits)
  then show ?thesis using \<open>\<not> is_nan x\<close> by (simp add: f_le_refl)
qed (rule add_increasing_f64)

lemma nan_absorbs: "is_nan x \<Longrightarrow> is_nan (x - y)" "is_nan y \<Longrightarrow> is_nan (x - y)" "is_nan x \<Longrightarrow> is_nan (x + y)"
  "is_nan y \<Longrightarrow> is_nan (x + y)"
proof -
  have "is_nan f_nan" by (simp add: is_nan_def)
  then show "is_nan x \<Longrightarrow> is_nan (x - y)" "is_nan y \<Longrightarrow> is_nan (x - y)" "is_nan x \<Longrightarrow> is_nan (x + y)"
    "is_nan y \<Longrightarrow> is_nan (x + y)" by (simp_all add: minus_f64_def plus_f64_def)
qed

text \<open>Values that every comparison and every operation treats alike: equal, or zeros of either sign, or NaNs.\<close>

definition num_eq :: "f64 \<Rightarrow> f64 \<Rightarrow> bool" where
  "num_eq x y \<longleftrightarrow> (is_nan x \<and> is_nan y) \<or> f_eq x y"

lemma num_eq_cases: "num_eq x y \<Longrightarrow> x = y \<or> is_nan x \<and> is_nan y \<or> is_zero x \<and> is_zero y"
  by (cases x; cases y) (auto simp: num_eq_def f_eq_def fkey_def is_zero_def split: if_splits)

lemma num_eq_refl [simp]: "num_eq x x"
  by (simp add: num_eq_def f_eq_def)

lemma num_eq_zero: "is_zero x \<Longrightarrow> is_zero y \<Longrightarrow> num_eq x y"
  by (auto simp: num_eq_def f_eq_def fkey_def is_zero_def is_nan_def)

lemma f_eq_num: "f_eq x y \<Longrightarrow> num_eq x y"
  by (simp add: num_eq_def)

lemma num_eq_nan: "is_nan x \<Longrightarrow> is_nan y \<Longrightarrow> num_eq x y"
  by (simp add: num_eq_def)

lemma zero_times: "is_zero x \<Longrightarrow> is_zero y \<Longrightarrow> num_eq (x * z) (y * z)"
proof -
  assume z: "is_zero x" "is_zero y"
  have d: "\<not> is_nan w \<and> \<not> is_infinite w \<and> fmag w = 0" if "is_zero w" for w
    using that by (simp add: is_zero_def is_nan_def is_infinite_def)
  show ?thesis
  proof (cases "is_nan z \<or> is_infinite z")
    case True
    then show ?thesis using z d[OF z(1)] d[OF z(2)] by (auto simp: times_f64_def)
  next
    case False
    then show ?thesis using d[OF z(1)] d[OF z(2)]
      by (intro num_eq_zero) (simp_all add: times_f64_def is_zero_def)
  qed
qed

lemma num_eq_times: "num_eq x y \<Longrightarrow> num_eq (x * z) (y * z)"
proof -
  assume a: "num_eq x y"
  have "is_nan w \<Longrightarrow> w * z = f_nan" for w by (simp add: times_f64_def)
  with num_eq_cases[OF a] show ?thesis by (auto intro: zero_times)
qed

lemma fint_zero: "is_zero x \<Longrightarrow> fint x = 0"
  by (simp add: fint_def is_zero_def)

lemma zero_plus: "is_zero x \<Longrightarrow> is_zero y \<Longrightarrow> num_eq (z + x) (z + y)"
  by (cases "is_nan z \<or> is_infinite z")
    (auto simp: plus_f64_def fint_zero is_zero_def is_nan_def is_infinite_def num_eq_def f_eq_def rnd_def fkey_def INF_MAG_def)

lemma num_eq_plus: "num_eq x y \<Longrightarrow> num_eq (z + x) (z + y)"
  by (drule num_eq_cases) (auto intro: zero_plus num_eq_nan simp: nan_absorbs)

lemma num_eq_uminus: "num_eq x y \<Longrightarrow> num_eq (- x) (- y)"
  by (auto simp: num_eq_def f_eq_def fkey_def uminus_f64_def is_nan_def split: if_splits)

lemma num_eq_minus: "num_eq x y \<Longrightarrow> num_eq (z - x) (z - y)"
  unfolding minus_f64_def by (intro num_eq_plus num_eq_uminus)

lemma num_eq_less: "num_eq x y \<Longrightarrow> z < x \<longleftrightarrow> z < y"
  and num_eq_le: "num_eq x y \<Longrightarrow> z \<le> x \<longleftrightarrow> z \<le> y"
  by (auto simp: num_eq_def f_eq_def f64_ord_defs)

subsection \<open>Properties\<close>

lemma early_infeasible_from_spec:
  "early_infeasible_from est th j cs = Some i \<longleftrightarrow> (\<exists>k < length cs. i = j + k
     \<and> infeasible_at est th i (fst (cs ! k)) (snd (cs ! k))
     \<and> (\<forall>k' < k. \<not> infeasible_at est th (j + k') (fst (cs ! k')) (snd (cs ! k'))))"
proof (induction cs arbitrary: j)
  case (Cons c cs)
  obtain ch se where c: "c = (ch, se)" by force
  show ?case
  proof (cases "infeasible_at est th j ch se")
    case True
    then show ?thesis by (auto simp: c intro: exI[of _ 0]) (metis (no_types) add.right_neutral fst_conv gr0I nth_Cons_0 snd_conv)
  next
    case False
    have "(\<exists>k < length (c # cs). Q k) \<longleftrightarrow> Q 0 \<or> (\<exists>k < length cs. Q (Suc k))" for Q
      by (auto simp: less_Suc_eq_0_disj)
    moreover have "(\<forall>k' < Suc k. Q k') \<longleftrightarrow> Q 0 \<and> (\<forall>k' < k. Q (Suc k'))" for Q k
      by (auto simp: less_Suc_eq_0_disj)
    ultimately show ?thesis using False by (auto simp: c Cons.IH)
  qed
qed simp

text \<open>
  C26: with non-negative finite standard errors and bias terms that are numbers, \<open>early_infeasible\<close> reports the
  first constraint whose bound exceeds its slack, and then the estimate itself exceeds the slack: the margin only
  ever makes the test stricter.
\<close>

theorem early_infeasible_conservative:
  assumes "early_infeasible est th = Some j"
    and "\<forall>i < length (c_se est). 0 \<le> c_se est ! i \<and> is_finite (c_se est ! i)"
    and "0 \<le> k_c_for th (es_phi est) j * tau_scale est"
  shows "j < length (c_hat est) \<and> j < length (c_se est) \<and> get_or 0 (th_delta_rel th) j < c_hat est ! j
    \<and> infeasible_at est th j (c_hat est ! j) (c_se est ! j)
    \<and> (\<forall>i < j. \<not> infeasible_at est th i (c_hat est ! i) (c_se est ! i))"
proof -
  have j: "j < length (c_hat est)" "j < length (c_se est)"
    and inf: "infeasible_at est th j (c_hat est ! j) (c_se est ! j)"
    and fst: "\<forall>i < j. \<not> infeasible_at est th i (c_hat est ! i) (c_se est ! i)"
    using assms(1) unfolding early_infeasible_def early_infeasible_from_spec by auto
  let ?b = "k_c_for th (es_phi est) j * tau_scale est" and ?s = "z_for alpha_c * c_se est ! j"
  let ?lhs = "c_hat est ! j - ?s - ?b"
  have gt: "get_or 0 (th_delta_rel th) j < ?lhs" using inf by (simp add: infeasible_at_def Let_def)
  then have n: "\<not> is_nan ?lhs" by (simp add: less_f64_def)
  then have n1: "\<not> is_nan (c_hat est ! j - ?s)" using nan_absorbs(1) by blast
  then have n2: "\<not> is_nan ?s" using nan_absorbs(2) by blast
  have "0 \<le> ?s" using assms(2) j n2 by (intro mult_nonneg_f64 z_for_nonneg) auto
  then have "?lhs \<le> c_hat est ! j"
    using sub_le_f64[OF assms(3) n] sub_le_f64[OF _ n1] f_le_trans by blast
  with gt have "get_or 0 (th_delta_rel th) j < c_hat est ! j" by (auto simp: f64_ord_defs)
  with j inf fst show ?thesis by blast
qed

text \<open>
  C37: the objective bounds bracket the estimate whenever they are numbers and the margins are not negative.
\<close>

theorem objective_bounds_bracket:
  assumes "objective_bounds est th = (lcb, ucb)" "\<not> is_nan lcb" "\<not> is_nan ucb"
    and "0 \<le> f_se_primary est" "0 \<le> k_f_for th (es_phi est) * tau_scale est"
  shows "lcb \<le> f_hat_primary est \<and> f_hat_primary est \<le> ucb"
proof -
  let ?f = "f_hat_primary est" and ?s = "f_se_primary est" and ?b = "k_f_for th (es_phi est) * tau_scale est"
  have l: "lcb = ?f - z_for alpha_f * ?s - ?b" and u: "ucb = ?f + z_for beta_f * ?s + ?b"
    using assms(1) by (simp_all add: objective_bounds_def Let_def)
  have n: "\<not> is_nan (?f - z_for alpha_f * ?s)" "\<not> is_nan (?f + z_for beta_f * ?s)"
    using assms(2,3) nan_absorbs unfolding l u by blast+
  then have m: "0 \<le> z_for alpha_f * ?s" "0 \<le> z_for beta_f * ?s"
    using nan_absorbs by (auto intro!: mult_nonneg_f64 z_for_nonneg assms(4))
  have "lcb \<le> ?f"
    using sub_le_f64[OF assms(5), of "?f - z_for alpha_f * ?s"] sub_le_f64[OF m(1) n(1)] assms(2) f_le_trans
    unfolding l by blast
  moreover have "?f \<le> ucb"
    using add_ge_f64[OF assms(5), of "?f + z_for beta_f * ?s"] add_ge_f64[OF m(2) n(2)] assms(3) f_le_trans
    unfolding u by blast
  ultimately show ?thesis ..
qed

lemma kp_eq_find:
  assumes "list_all2 kp_eq xs ys"
  shows "(find (\<lambda>st. kp_phi st = p) xs = None \<and> find (\<lambda>st. kp_phi st = p) ys = None) \<or>
    (\<exists>a b. find (\<lambda>st. kp_phi st = p) xs = Some a \<and> find (\<lambda>st. kp_phi st = p) ys = Some b \<and> kp_eq a b)"
  using assms by (induction rule: list_all2_induct) (auto simp: kp_eq_def)

lemma same_k:
  assumes "same_thresholds s t"
  shows "num_eq (k_f_for (thresholds_of s) p) (k_f_for (thresholds_of t) p)"
    and "num_eq (k_c_for (thresholds_of s) p j) (k_c_for (thresholds_of t) p j)"
proof -
  have l: "list_all2 kp_eq (cs_k_by_phi s) (cs_k_by_phi t)" and kf: "cs_k_f s = cs_k_f t" and kc: "cs_k_c s = cs_k_c t"
    using assms by (simp_all add: same_thresholds_def)
  have g: "(get xs j = None \<and> get ys j = None) \<or> (\<exists>x y. get xs j = Some x \<and> get ys j = Some y \<and> f_eq x y)"
    if "list_all2 f_eq xs ys" for xs ys
    using that by (cases "j < length ys") (auto simp: get_def list_all2_conv_all_nth)
  from kp_eq_find[OF l, of p]
  show "num_eq (k_f_for (thresholds_of s) p) (k_f_for (thresholds_of t) p)"
    by (auto simp: k_f_for_def thresholds_of_def kf kp_eq_def intro: f_eq_num)
  from kp_eq_find[OF l, of p]
  show "num_eq (k_c_for (thresholds_of s) p j) (k_c_for (thresholds_of t) p j)"
  proof (elim disjE exE conjE)
    fix a b
    assume f: "find (\<lambda>st. kp_phi st = p) (cs_k_by_phi s) = Some a" "find (\<lambda>st. kp_phi st = p) (cs_k_by_phi t) = Some b"
      and e: "kp_eq a b"
    from e g[of "kp_k_c a" "kp_k_c b"] show ?thesis
      by (auto simp: k_c_for_def thresholds_of_def kc f kp_eq_def intro: f_eq_num split: option.split)
  qed (simp add: k_c_for_def thresholds_of_def kc)
qed

text \<open>
  Calibration states with the same thresholds lead to the same early cut and to objective bounds that compare
  alike, so between two updates that report no revision every margin decision is repeatable.
\<close>

theorem same_thresholds_same_decisions:
  assumes "same_thresholds s t"
  shows "early_infeasible est (thresholds_of s) = early_infeasible est (thresholds_of t)
    \<and> num_eq (fst (objective_bounds est (thresholds_of s))) (fst (objective_bounds est (thresholds_of t)))
    \<and> num_eq (snd (objective_bounds est (thresholds_of s))) (snd (objective_bounds est (thresholds_of t)))"
proof (intro conjI)
  have d: "th_delta_rel (thresholds_of s) = th_delta_rel (thresholds_of t)"
    using assms by (simp add: same_thresholds_def thresholds_of_def)
  have "infeasible_at est (thresholds_of s) j ch se = infeasible_at est (thresholds_of t) j ch se" for j ch se
    unfolding infeasible_at_def Let_def d
    by (intro num_eq_less num_eq_minus num_eq_times same_k assms)
  then have "early_infeasible_from est (thresholds_of s) j cs = early_infeasible_from est (thresholds_of t) j cs" for j cs
    by (induction est "thresholds_of s" j cs rule: early_infeasible_from.induct) simp_all
  then show "early_infeasible est (thresholds_of s) = early_infeasible est (thresholds_of t)"
    by (simp add: early_infeasible_def)
qed (auto simp: objective_bounds_def Let_def intro!: num_eq_minus num_eq_plus num_eq_times same_k assms)

text \<open>A small estimate, for the closed examples.\<close>

definition est_demo :: estimates where
  "est_demo = \<lparr>f_hat = [1], f_se = [0], c_hat = [0, 1], c_se = [0, 0], es_phi = Phi 1 8, tau_scale = 1, es_num_objectives = 1\<rparr>"

definition th_demo :: thresholds where
  "th_demo = thresholds_of (calib_state_init 2)"

lemma th_demo_k: "k_c_for th_demo p j = 0" "k_f_for th_demo p = 0"
  by (simp_all add: k_c_for_def k_f_for_def th_demo_def thresholds_of_def init_fields get_or_def)

lemma z_vals: "z_for alpha_c = f_lit 1645 1000" "z_for beta_f = f_lit 1645 1000"
  by (simp_all add: z_for_def alpha_c_def beta_f_def f64_eval cong: if_weak_cong)

lemma z_alpha_f: "z_for alpha_f = f_lit 1282 1000"
  by (simp add: z_for_def alpha_f_def f64_eval cong: if_weak_cong)

lemma demo_terms: "f_lit 1645 1000 * 0 = 0" "f_lit 1282 1000 * 0 = 0" "0 * 1 = (0 :: f64)" "1 - 0 = (1 :: f64)"
  "0 - 0 = (0 :: f64)" "1 + 0 = (1 :: f64)"
  by (simp_all add: f64_eval cong: if_weak_cong)

lemma one_not_nan: "\<not> is_nan 1"
  by (simp add: one_f64_def is_nan_def INF_MAG_def)

lemma demo_cut: "early_infeasible est_demo th_demo = Some 1"
proof -
  have "\<not> f_lit 5 1000 < 0" "f_lit 5 1000 < 1"
    by (simp_all add: f64_eval cong: if_weak_cong)
  then show ?thesis
    by (simp add: early_infeasible_def est_demo_def infeasible_at_def th_demo_k z_vals demo_terms)
      (simp add: th_demo_def thresholds_of_def calib_state_init_def get_or_def)
qed

theorem early_infeasible_conservative_witness: "get_or 0 (th_delta_rel th_demo) 1 < c_hat est_demo ! 1"
proof -
  have "0 \<le> k_c_for th_demo (es_phi est_demo) 1 * tau_scale est_demo"
    unfolding th_demo_k by (simp add: est_demo_def demo_terms f_le_refl)
  moreover have "\<forall>i < length (c_se est_demo). 0 \<le> c_se est_demo ! i \<and> is_finite (c_se est_demo ! i)"
    by (auto simp: est_demo_def less_Suc_eq numeral_2_eq_2 f_le_refl)
  ultimately show ?thesis
    using early_infeasible_conservative[OF demo_cut] by blast
qed

theorem objective_bounds_bracket_witness:
  "fst (objective_bounds est_demo th_demo) \<le> 1 \<and> 1 \<le> snd (objective_bounds est_demo th_demo)"
proof -
  have f: "f_hat_primary est_demo = 1" "f_se_primary est_demo = 0" "tau_scale est_demo = 1"
    by (simp_all add: est_demo_def f_hat_primary_def f_se_primary_def)
  have "\<not> is_nan (fst (objective_bounds est_demo th_demo))" "\<not> is_nan (snd (objective_bounds est_demo th_demo))"
    using one_not_nan by (simp_all add: objective_bounds_def th_demo_k f z_vals z_alpha_f demo_terms Let_def)
  moreover have "0 \<le> f_se_primary est_demo" "0 \<le> k_f_for th_demo (es_phi est_demo) * tau_scale est_demo"
    by (simp_all add: f th_demo_k f_le_refl demo_terms)
  ultimately show ?thesis
    using objective_bounds_bracket[OF prod.collapse[symmetric], of est_demo th_demo] unfolding f(1) by blast
qed

theorem same_thresholds_same_decisions_witness:
  "early_infeasible est_demo (thresholds_of ((calib_state_init 2)\<lparr>cs_min_audits := 7\<rparr>)) = early_infeasible est_demo th_demo"
proof -
  have "same_thresholds ((calib_state_init 2)\<lparr>cs_min_audits := 7\<rparr>) (calib_state_init 2)"
    by (simp add: same_thresholds_def init_fields)
  then show ?thesis using same_thresholds_same_decisions unfolding th_demo_def by blast
qed

end
