(* ===== verification/Executor.thy ===== *)
theory Executor
  imports Cache Mesh Evaluator Margin
begin

text \<open>
  The sequential part of \<open>core/executor.rs\<close>: the Monte Carlo estimator \<open>compute_estimates\<close> with its Welford
  accumulators, \<open>execute_one\<close> (decision cache, evaluation cache, black box), the inline executor and the selection of an
  executor by \<open>AdaptiveExecutor\<close>. The shared caches are explicit state. The black box may panic, so every operation
  that calls it returns a \<open>res\<close>. The lemmas show that estimates are finite with non-negative standard errors, that the
  caches are sound when they start empty and change no estimate, and that a batch yields one outcome per item. The
  worker pool is in \<open>Pool\<close>.
\<close>

subsection \<open>Parameters, context and outcomes\<close>

record exec_params =
  xp_chunk_base :: nat
  xp_spin_limit :: nat

definition exec_params_default :: exec_params where
  "exec_params_default = \<lparr>xp_chunk_base = 32, xp_spin_limit = 2000\<rparr>"

record exec_ctx =
  cx_evaluator :: evaluator
  cx_env :: env
  cx_env_rev :: env_rev_t
  cx_ladder_len :: nat
  cx_base_steps :: "f64 list"

text \<open>The two caches of the context; clones of a cache share its map.\<close>

record caches =
  ch_eval :: eval_cache
  ch_decision :: decision_cache

record work_outcome =
  wo_item :: work_item
  wo_cached_decision :: "job_result option"
  wo_estimates :: "estimates option"
  wo_runtime_cost :: f64
  wo_hit_decision_cache :: bool
  wo_hit_eval_cache :: bool
  wo_did_compute :: bool

subsection \<open>The estimator\<close>

record welford =
  wf_n :: nat
  wf_mean :: f64
  wf_m2 :: f64

definition welford_default :: welford where
  "welford_default = \<lparr>wf_n = 0, wf_mean = 0, wf_m2 = 0\<rparr>"

definition welford_push :: "f64 \<Rightarrow> welford \<Rightarrow> welford" where
  "welford_push x w = (let n = Suc (wf_n w); delta = x - wf_mean w; mean = wf_mean w + delta / f_of_int (int n);
     delta2 = x - mean in \<lparr>wf_n = n, wf_mean = mean, wf_m2 = wf_m2 w + delta * delta2\<rparr>)"

definition welford_se :: "welford \<Rightarrow> f64" where
  "welford_se w = (if wf_n w < 2 then 0
     else let var = wf_m2 w / f_of_int (int (wf_n w - 1)) in f_sqrt (var / f_of_int (int (wf_n w))))"

text \<open>
  The loop over the accumulators of one sample: a value the sample does not have is the default (infinity for an
  objective, zero for a constraint), and a value that is not finite ends the whole estimate with \<open>None\<close>.
\<close>

fun push_sample :: "f64 \<Rightarrow> f64 list \<Rightarrow> nat \<Rightarrow> welford list \<Rightarrow> welford list option" where
  "push_sample d vs i [] = Some []"
| "push_sample d vs i (acc # accs) = (let v = get_or d vs i in
     if \<not> is_finite v then None
     else case push_sample d vs (Suc i) accs of None \<Rightarrow> None | Some rest \<Rightarrow> Some (welford_push v acc # rest))"

fun mc_loop :: "evaluator \<Rightarrow> xreal \<Rightarrow> phi \<Rightarrow> env \<Rightarrow> nat list \<Rightarrow> welford list \<Rightarrow> welford list \<Rightarrow>
    (welford list \<times> welford list) option res" where
  "mc_loop ev x p e [] fa ca = Inr (Some (fa, ca))"
| "mc_loop ev x p e (k # ks) fa ca = res_bind (ev_mc_sample ev x p e k) (\<lambda>(f_s, c_s).
     case push_sample f_inf f_s 0 fa of None \<Rightarrow> Inr None
     | Some fa' \<Rightarrow> (case push_sample 0 c_s 0 ca of None \<Rightarrow> Inr None
       | Some ca' \<Rightarrow> mc_loop ev x p e ks fa' ca'))"

text \<open>Mean plus bias and standard error of every accumulator, when all of them are finite.\<close>

fun finish_accs :: "f64 list \<Rightarrow> nat \<Rightarrow> welford list \<Rightarrow> (f64 \<times> f64) list option" where
  "finish_accs bs i [] = Some []"
| "finish_accs bs i (acc # accs) = (let h = wf_mean acc + get_or 0 bs i; se = welford_se acc in
     if \<not> is_finite h \<or> \<not> is_finite se then None
     else case finish_accs bs (Suc i) accs of None \<Rightarrow> None | Some rest \<Rightarrow> Some ((h, se) # rest))"

definition compute_estimates :: "evaluator \<Rightarrow> xreal \<Rightarrow> phi \<Rightarrow> env \<Rightarrow> estimates option res" where
  "compute_estimates ev x p e =
     res_bind (mc_loop ev x p e [0..<max (unat (phi_smc p)) 1] (replicate (ev_num_objectives ev) welford_default)
        (replicate (ev_num_constraints ev) welford_default)) (\<lambda>r. case r of None \<Rightarrow> Inr None | Some (fa, ca) \<Rightarrow>
       res_bind (ev_solver_bias ev x (phi_tau p) e) (\<lambda>(fb, cb).
         if (\<exists>v \<in> set fb. \<not> is_finite v) \<or> (\<exists>v \<in> set cb. \<not> is_finite v) then Inr None
         else case finish_accs fb 0 fa of None \<Rightarrow> Inr None
         | Some fs \<Rightarrow> (case finish_accs cb 0 ca of None \<Rightarrow> Inr None
           | Some cs \<Rightarrow> Inr (Some \<lparr>f_hat = map fst fs, f_se = map snd fs, c_hat = map fst cs, c_se = map snd cs,
               es_phi = p, tau_scale = tau_f64 (phi_tau p), es_num_objectives = ev_num_objectives ev\<rparr>))))"

subsection \<open>One work item\<close>

definition item_tag :: "exec_ctx \<Rightarrow> work_item \<Rightarrow> cache_tag" where
  "item_tag ctx wi = (if wi_phi_idx wi + 1 = cx_ladder_len ctx then TagTruth else TagPartial)"

definition item_dkey :: "exec_ctx \<Rightarrow> work_item \<Rightarrow> decision_key" where
  "item_dkey ctx wi = DecisionKey (wi_x wi) (wi_phi wi) (wi_env_rev wi) (wi_policy_rev wi) (item_tag ctx wi)"

definition item_ekey :: "work_item \<Rightarrow> eval_key" where
  "item_ekey wi = EvalKey (wi_x wi) (wi_phi wi) (wi_env_rev wi)"

definition outcome_decision_hit :: "work_item \<Rightarrow> job_result \<Rightarrow> work_outcome" where
  "outcome_decision_hit wi v = \<lparr>wo_item = wi, wo_cached_decision = Some v, wo_estimates = None, wo_runtime_cost = 0,
     wo_hit_decision_cache = True, wo_hit_eval_cache = False, wo_did_compute = False\<rparr>"

definition outcome_eval_hit :: "work_item \<Rightarrow> estimates \<Rightarrow> work_outcome" where
  "outcome_eval_hit wi est = \<lparr>wo_item = wi, wo_cached_decision = None, wo_estimates = Some est, wo_runtime_cost = 0,
     wo_hit_decision_cache = False, wo_hit_eval_cache = True, wo_did_compute = False\<rparr>"

definition outcome_computed :: "work_item \<Rightarrow> estimates \<Rightarrow> work_outcome" where
  "outcome_computed wi est = \<lparr>wo_item = wi, wo_cached_decision = None, wo_estimates = Some est, wo_runtime_cost = 1,
     wo_hit_decision_cache = False, wo_hit_eval_cache = False, wo_did_compute = True\<rparr>"

definition invalid_eval :: "work_item \<Rightarrow> f64 \<Rightarrow> job_result" where
  "invalid_eval wi cost = RejectedInvalidEval \<lparr>em_phi = wi_phi wi, em_env_rev = wi_env_rev wi,
     em_policy_rev = wi_policy_rev wi, em_runtime_cost = cost\<rparr>"

definition outcome_invalid :: "work_item \<Rightarrow> f64 \<Rightarrow> bool \<Rightarrow> work_outcome" where
  "outcome_invalid wi cost did = \<lparr>wo_item = wi, wo_cached_decision = Some (invalid_eval wi cost), wo_estimates = None,
     wo_runtime_cost = cost, wo_hit_decision_cache = False, wo_hit_eval_cache = False, wo_did_compute = did\<rparr>"

text \<open>The part after both caches missed: it reads no cache and writes one.\<close>

definition execute_miss :: "extern \<Rightarrow> exec_ctx \<Rightarrow> work_item \<Rightarrow> caches \<Rightarrow> (work_outcome \<times> caches) res" where
  "execute_miss X ctx wi c =
     (case mesh_to_real_aniso X (wi_x wi) (cx_base_steps ctx) of
       None \<Rightarrow> Inr (outcome_invalid wi 0 False,
         c\<lparr>ch_decision := decision_cache_put (item_dkey ctx wi) (invalid_eval wi 0) (ch_decision c)\<rparr>)
     | Some x_real \<Rightarrow> res_bind (compute_estimates (cx_evaluator ctx) x_real (wi_phi wi) (cx_env ctx)) (\<lambda>r. case r of
         None \<Rightarrow> Inr (outcome_invalid wi 1 True,
           c\<lparr>ch_decision := decision_cache_put (item_dkey ctx wi) (invalid_eval wi 1) (ch_decision c)\<rparr>)
       | Some est \<Rightarrow> Inr (outcome_computed wi est,
           c\<lparr>ch_eval := eval_cache_put (item_ekey wi) est (ch_eval c)\<rparr>)))"

definition execute_one :: "extern \<Rightarrow> exec_ctx \<Rightarrow> work_item \<Rightarrow> caches \<Rightarrow> (work_outcome \<times> caches) res" where
  "execute_one X ctx wi c =
     (case decision_cache_get (ch_decision c) (item_dkey ctx wi) of
       Some v \<Rightarrow> Inr (outcome_decision_hit wi v, c)
     | None \<Rightarrow> (case eval_cache_get (ch_eval c) (item_ekey wi) of
         Some est \<Rightarrow> Inr (outcome_eval_hit wi est, c)
       | None \<Rightarrow> execute_miss X ctx wi c))"

subsection \<open>The inline executor and the choice of an executor\<close>

fun run_batch_inline :: "extern \<Rightarrow> exec_ctx \<Rightarrow> work_item list \<Rightarrow> caches \<Rightarrow> (work_outcome list \<times> caches) res" where
  "run_batch_inline X ctx [] c = Inr ([], c)"
| "run_batch_inline X ctx (wi # wis) c = res_bind (execute_one X ctx wi c) (\<lambda>(out, c1).
     res_bind (run_batch_inline X ctx wis c1) (\<lambda>(outs, c2). Inr (out # outs, c2)))"

text \<open>\<open>AdaptiveExecutor\<close>; \<open>threads\<close> is the build flag \<open>imads_has_threads\<close>.\<close>

datatype adaptive = Inline | Pooled (ad_workers: nat) (ad_params: exec_params)

definition pool_new :: "nat \<Rightarrow> adaptive" where
  "pool_new workers = Pooled (max workers 1) exec_params_default"

definition pool_configure :: "nat \<Rightarrow> nat \<Rightarrow> exec_params \<Rightarrow> adaptive" where
  "pool_configure workers w params = (if max workers 1 = w then Pooled w params else pool_new (max workers 1))"

fun adaptive_configure :: "bool \<Rightarrow> nat \<Rightarrow> adaptive \<Rightarrow> adaptive" where
  "adaptive_configure threads workers (Pooled w params) =
     (if threads \<and> workers > 1 then pool_configure workers w params else Inline)"
| "adaptive_configure threads workers Inline = (if threads \<and> workers > 1 then pool_new workers else Inline)"

fun adaptive_configure_params :: "exec_params \<Rightarrow> adaptive \<Rightarrow> adaptive" where
  "adaptive_configure_params ps Inline = Inline"
| "adaptive_configure_params ps (Pooled w _) = Pooled w ps"

subsection \<open>Well-formed estimates\<close>

definition est_ok :: "nat \<Rightarrow> nat \<Rightarrow> phi \<Rightarrow> estimates \<Rightarrow> bool" where
  "est_ok num_obj m p est \<longleftrightarrow> length (f_hat est) = num_obj \<and> length (f_se est) = num_obj
     \<and> length (c_hat est) = m \<and> length (c_se est) = m \<and> es_num_objectives est = num_obj
     \<and> es_phi est = p \<and> tau_scale est = tau_f64 (phi_tau p)
     \<and> (\<forall>x \<in> set (f_hat est) \<union> set (c_hat est). is_finite x)
     \<and> (\<forall>x \<in> set (f_se est) \<union> set (c_se est). is_finite x \<and> 0 \<le> x)"

lemma zero_finite: "is_finite (0 :: f64)"
  by (simp add: is_finite_def)

lemma welford_se_nonneg: "is_finite (welford_se w) \<Longrightarrow> 0 \<le> welford_se w"
  using f_le_refl[of 0] finite_not_nan[of "0 :: f64"]
  by (cases "wf_n w < 2") (simp_all add: welford_se_def Let_def zero_finite f_sqrt_nonneg finite_not_nan)

lemma push_sample_length: "push_sample d vs i accs = Some r \<Longrightarrow> length r = length accs"
  by (induction d vs i accs arbitrary: r rule: push_sample.induct) (auto simp: Let_def split: if_splits option.splits)

lemma push_sample_None: "push_sample d vs i accs = None \<longleftrightarrow> (\<exists>j < length accs. \<not> is_finite (get_or d vs (i + j)))"
proof (induction d vs i accs rule: push_sample.induct)
  case (2 d vs i acc accs)
  show ?case
    using 2 by (cases "is_finite (get_or d vs i)")
      (auto simp: Let_def less_Suc_eq_0_disj split: option.splits intro: exI[of _ 0])
qed simp

lemma mc_loop_length: "mc_loop ev x p e ks fa ca = Inr (Some (fa', ca')) \<Longrightarrow>
  length fa' = length fa \<and> length ca' = length ca"
  by (induction ks arbitrary: fa ca) (fastforce simp: res_bind_Inr case_inv dest: push_sample_length)+

lemma finish_accs_ok: "finish_accs bs i accs = Some r \<Longrightarrow>
  length r = length accs \<and> (\<forall>p \<in> set r. is_finite (fst p) \<and> is_finite (snd p) \<and> 0 \<le> snd p)"
  by (induction accs arbitrary: i r) (fastforce simp: Let_def welford_se_nonneg case_inv)+

lemma compute_estimates_ok:
  assumes "compute_estimates ev x p e = Inr (Some est)"
  shows "est_ok (ev_num_objectives ev) (ev_num_constraints ev) p est"
proof -
  from assms obtain fa ca fb cb fs cs where
    mc: "mc_loop ev x p e [0..<max (unat (phi_smc p)) 1] (replicate (ev_num_objectives ev) welford_default)
        (replicate (ev_num_constraints ev) welford_default) = Inr (Some (fa, ca))"
    and fin: "finish_accs fb 0 fa = Some fs" "finish_accs cb 0 ca = Some cs"
    and est: "est = \<lparr>f_hat = map fst fs, f_se = map snd fs, c_hat = map fst cs, c_se = map snd cs,
               es_phi = p, tau_scale = tau_f64 (phi_tau p), es_num_objectives = ev_num_objectives ev\<rparr>"
    unfolding compute_estimates_def by (auto simp: res_bind_Inr case_inv)
  from mc_loop_length[OF mc] finish_accs_ok[OF fin(1)] finish_accs_ok[OF fin(2)] show ?thesis
    by (auto simp: est_ok_def est)
qed

subsection \<open>Cache soundness\<close>

text \<open>What the black box says about a mesh point, without any cache.\<close>

definition ref_eval :: "extern \<Rightarrow> exec_ctx \<Rightarrow> xmesh \<Rightarrow> phi \<Rightarrow> estimates option res" where
  "ref_eval X ctx x p = (case mesh_to_real_aniso X x (cx_base_steps ctx) of None \<Rightarrow> Inr None
     | Some xr \<Rightarrow> compute_estimates (cx_evaluator ctx) xr p (cx_env ctx))"

text \<open>The violation the engine records with a TRUTH result: the largest positive part of a constraint value.\<close>

definition truth_violation :: "f64 list \<Rightarrow> f64" where
  "truth_violation cs = fold (\<lambda>c acc. f_max acc c) (map (\<lambda>c. f_max c 0) cs) 0"

lemma truth_violation_num: "\<not> is_nan (truth_violation cs)"
proof -
  have "\<not> is_nan a \<Longrightarrow> \<not> is_nan (fold (\<lambda>c acc. f_max acc c) (map (\<lambda>c. f_max c 0) cs) a)" for a
    by (induction cs arbitrary: a) simp_all
  then show ?thesis by (simp add: truth_violation_def)
qed

lemma truth_violation_ge: "c \<in> set cs \<Longrightarrow> is_finite c \<Longrightarrow> c \<le> truth_violation cs"
proof -
  have up: "\<not> is_nan a \<Longrightarrow> a \<le> fold (\<lambda>c acc. f_max acc c) (map (\<lambda>c. f_max c 0) cs) a" for a cs
  proof (induction cs arbitrary: a)
    case (Cons d cs)
    have "f_max a (f_max d 0) \<le> fold (\<lambda>c acc. f_max acc c) (map (\<lambda>c. f_max c 0) cs) (f_max a (f_max d 0))"
      using Cons.prems by (intro Cons.IH) simp
    then show ?case using f_le_trans[OF f_max_ge1[OF Cons.prems, of "f_max d 0"]] by simp
  qed (simp add: f_le_refl)
  have "c \<in> set cs \<Longrightarrow> is_finite c \<Longrightarrow> \<not> is_nan a \<Longrightarrow> c \<le> fold (\<lambda>c acc. f_max acc c) (map (\<lambda>c. f_max c 0) cs) a" for a
  proof (induction cs arbitrary: a)
    case (Cons d cs)
    show ?case
    proof (cases "c \<in> set cs")
      case False
      then have "c = d" using Cons.prems by simp
      have "d \<le> f_max d 0" using Cons.prems \<open>c = d\<close> by (intro f_max_ge1) (simp add: finite_not_nan)
      moreover have "f_max d 0 \<le> f_max a (f_max d 0)" by (rule f_max_ge2) simp
      moreover have "f_max a (f_max d 0) \<le> fold (\<lambda>c acc. f_max acc c) (map (\<lambda>c. f_max c 0) cs) (f_max a (f_max d 0))"
        using Cons.prems by (intro up) simp
      ultimately have "d \<le> fold (\<lambda>c acc. f_max acc c) (map (\<lambda>c. f_max c 0) cs) (f_max a (f_max d 0))"
        using f_le_trans by blast
      then show ?thesis by (simp add: \<open>c = d\<close>)
    qed (use Cons in simp)
  qed simp
  then show "c \<in> set cs \<Longrightarrow> is_finite c \<Longrightarrow> c \<le> truth_violation cs" by (simp add: truth_violation_def)
qed

text \<open>A cached or computed result agrees with the black box.\<close>

fun decision_matches :: "estimates option res \<Rightarrow> job_result \<Rightarrow> bool" where
  "decision_matches r (RejectedCheap _) \<longleftrightarrow> False"
| "decision_matches r (RejectedInvalidEval _) \<longleftrightarrow> r = Inr None"
| "decision_matches r (EarlyInfeasible _ est _) \<longleftrightarrow> r = Inr (Some est)"
| "decision_matches r (Partial est _) \<longleftrightarrow> r = Inr (Some est)"
| "decision_matches r (Truth f c _ v _) \<longleftrightarrow>
    (\<exists>est. r = Inr (Some est) \<and> f = f_hat est \<and> c = c_hat est \<and> v = truth_violation c)"

definition eval_sound :: "extern \<Rightarrow> exec_ctx \<Rightarrow> eval_cache \<Rightarrow> bool" where
  "eval_sound X ctx c \<longleftrightarrow> eval_c.all_entries (\<lambda>k v. ek_env_rev k = cx_env_rev ctx \<longrightarrow>
     ref_eval X ctx (ek_x k) (ek_phi k) = Inr (Some v)) c"

text \<open>Decisions are stored under the step they were taken at: only the last step of the ladder has tag TRUTH.\<close>

definition decision_fits :: "extern \<Rightarrow> exec_ctx \<Rightarrow> decision_key \<Rightarrow> job_result \<Rightarrow> bool" where
  "decision_fits X ctx k v \<longleftrightarrow> (dk_env_rev k = cx_env_rev ctx \<and> dk_tag k \<noteq> TagCheap \<longrightarrow>
     decision_matches (ref_eval X ctx (dk_x k) (dk_phi k)) v \<and> em_phi (jr_meta v) = dk_phi k
     \<and> ((\<exists>f c fe vi m. v = Truth f c fe vi m) \<longrightarrow> dk_tag k = TagTruth)
     \<and> ((\<exists>j est m. v = EarlyInfeasible j est m) \<or> (\<exists>est m. v = Partial est m) \<longrightarrow> dk_tag k = TagPartial))"

definition decision_sound :: "extern \<Rightarrow> exec_ctx \<Rightarrow> decision_cache \<Rightarrow> bool" where
  "decision_sound X ctx c \<longleftrightarrow> decision_c.all_entries (decision_fits X ctx) c"

definition caches_sound :: "extern \<Rightarrow> exec_ctx \<Rightarrow> caches \<Rightarrow> bool" where
  "caches_sound X ctx c \<longleftrightarrow> eval_sound X ctx (ch_eval c) \<and> decision_sound X ctx (ch_decision c)"

definition caches_empty :: caches where
  "caches_empty = \<lparr>ch_eval = cache_empty, ch_decision = cache_empty\<rparr>"

lemma caches_empty_sound: "caches_sound X ctx caches_empty"
  by (simp add: caches_sound_def caches_empty_def eval_sound_def decision_sound_def eval_c.all_entries_def
      decision_c.all_entries_def eval_cache_get_def decision_cache_get_def cache_get_def cache_empty_def)

text \<open>The outcome of a work item agrees with the black box.\<close>

definition outcome_matches :: "extern \<Rightarrow> exec_ctx \<Rightarrow> work_outcome \<Rightarrow> bool" where
  "outcome_matches X ctx out \<longleftrightarrow> (case wo_cached_decision out of
     Some v \<Rightarrow> wo_estimates out = None
       \<and> decision_fits X ctx (item_dkey ctx (wo_item out)) v
   | None \<Rightarrow> (\<exists>est. wo_estimates out = Some est \<and> ref_eval X ctx (wi_x (wo_item out)) (wi_phi (wo_item out)) = Inr (Some est)))"

lemma invalid_fits: "ref_eval X ctx (wi_x wi) (wi_phi wi) = Inr None \<Longrightarrow>
  decision_fits X ctx (item_dkey ctx wi) (invalid_eval wi cost)"
  by (auto simp: decision_fits_def item_dkey_def invalid_eval_def)

lemma execute_miss_ok:
  assumes s: "caches_sound X ctx c" and run: "execute_miss X ctx wi c = Inr (out, c')"
  shows "wo_item out = wi \<and> outcome_matches X ctx out \<and> caches_sound X ctx c'"
proof -
  consider (bad) cost did where "ref_eval X ctx (wi_x wi) (wi_phi wi) = Inr None" "out = outcome_invalid wi cost did"
      "c' = c\<lparr>ch_decision := decision_cache_put (item_dkey ctx wi) (invalid_eval wi cost) (ch_decision c)\<rparr>"
    | (ok) est where "ref_eval X ctx (wi_x wi) (wi_phi wi) = Inr (Some est)" "out = outcome_computed wi est"
      "c' = c\<lparr>ch_eval := eval_cache_put (item_ekey wi) est (ch_eval c)\<rparr>"
  proof (cases "mesh_to_real_aniso X (wi_x wi) (cx_base_steps ctx)")
    case None
    show thesis by (rule bad[of 0 False]) (use run None in \<open>auto simp: execute_miss_def ref_eval_def\<close>)
  next
    case (Some xr)
    with run obtain r where r: "ref_eval X ctx (wi_x wi) (wi_phi wi) = Inr r"
      by (auto simp: execute_miss_def ref_eval_def res_bind_Inr)
    show thesis
    proof (cases r)
      case None
      show thesis by (rule bad[of 1 True]) (use run Some r None in \<open>auto simp: execute_miss_def ref_eval_def\<close>)
    next
      case (Some est)
      show thesis by (rule ok[of est]) (use run \<open>_ = Some xr\<close> r Some in \<open>auto simp: execute_miss_def ref_eval_def\<close>)
    qed
  qed
  then show ?thesis
  proof cases
    case bad
    have "decision_sound X ctx (ch_decision c')"
      using s invalid_fits[OF bad(1), of cost] unfolding caches_sound_def decision_sound_def bad(3)
      by (simp add: decision_c.all_entries_put)
    then show ?thesis using s invalid_fits[OF bad(1), of cost]
      by (simp add: bad(2,3) caches_sound_def outcome_matches_def outcome_invalid_def)
  next
    case ok
    have "eval_sound X ctx (ch_eval c')"
      using s ok(1) unfolding caches_sound_def eval_sound_def ok(3)
      by (simp add: eval_c.all_entries_put item_ekey_def)
    then show ?thesis using s ok(1) by (simp add: ok(2,3) caches_sound_def outcome_matches_def outcome_computed_def)
  qed
qed

lemma decision_hit_fits: "caches_sound X ctx c \<Longrightarrow> decision_cache_get (ch_decision c) k = Some v \<Longrightarrow>
  decision_fits X ctx k v"
  by (auto simp: caches_sound_def decision_sound_def dest: decision_c.all_entries_get)

lemma eval_hit_ref: "caches_sound X ctx c \<Longrightarrow> wi_env_rev wi = cx_env_rev ctx \<Longrightarrow>
  eval_cache_get (ch_eval c) (item_ekey wi) = Some est \<Longrightarrow> ref_eval X ctx (wi_x wi) (wi_phi wi) = Inr (Some est)"
  by (auto simp: caches_sound_def eval_sound_def item_ekey_def dest: eval_c.all_entries_get)

lemma execute_one_ok:
  assumes "caches_sound X ctx c" "wi_env_rev wi = cx_env_rev ctx" "execute_one X ctx wi c = Inr (out, c')"
  shows "wo_item out = wi \<and> outcome_matches X ctx out \<and> caches_sound X ctx c'"
proof (cases "decision_cache_get (ch_decision c) (item_dkey ctx wi)")
  case (Some v)
  then show ?thesis using assms(1,3) decision_hit_fits[OF assms(1) Some]
    by (auto simp: execute_one_def outcome_matches_def outcome_decision_hit_def)
next
  case no_dec: None
  show ?thesis
  proof (cases "eval_cache_get (ch_eval c) (item_ekey wi)")
    case None
    then show ?thesis using no_dec assms(3) execute_miss_ok[OF assms(1)] by (simp add: execute_one_def)
  next
    case (Some est)
    then show ?thesis using no_dec assms(1,3) eval_hit_ref[OF assms(1,2) Some]
      by (auto simp: execute_one_def outcome_matches_def outcome_eval_hit_def)
  qed
qed

lemma run_batch_inline_ok:
  assumes "caches_sound X ctx c" "\<forall>wi \<in> set wis. wi_env_rev wi = cx_env_rev ctx"
    "run_batch_inline X ctx wis c = Inr (outs, c')"
  shows "map wo_item outs = wis \<and> (\<forall>out \<in> set outs. outcome_matches X ctx out) \<and> caches_sound X ctx c'"
  using assms
proof (induction wis arbitrary: c outs c')
  case (Cons wi wis)
  from Cons.prems(3) obtain out c1 outs' where run: "execute_one X ctx wi c = Inr (out, c1)"
    "run_batch_inline X ctx wis c1 = Inr (outs', c')" "outs = out # outs'"
    by (auto simp: res_bind_Inr)
  with Cons.prems(1,2) have one: "wo_item out = wi \<and> outcome_matches X ctx out \<and> caches_sound X ctx c1"
    by (intro execute_one_ok) auto
  with Cons.IH[OF _ _ run(2)] Cons.prems(2) show ?case by (simp add: run(3))
qed auto

subsection \<open>Batches that cannot panic\<close>

lemma mc_loop_total: "evaluator_total ev \<Longrightarrow> \<exists>r. mc_loop ev x p e ks fa ca = Inr r"
proof (induction ks arbitrary: fa ca)
  case (Cons k ks)
  obtain fs cs where "ev_mc_sample ev x p e k = Inr (fs, cs)"
    using Cons.prems unfolding evaluator_total_def by (metis surj_pair)
  then show ?case using Cons.IH[OF Cons.prems]
    by (cases "push_sample f_inf fs 0 fa"; cases "push_sample 0 cs 0 ca") auto
qed auto

lemma compute_estimates_total:
  assumes "evaluator_total ev"
  shows "\<exists>r. compute_estimates ev x p e = Inr r"
proof -
  obtain r where r: "mc_loop ev x p e [0..<max (unat (phi_smc p)) 1] (replicate (ev_num_objectives ev) welford_default)
      (replicate (ev_num_constraints ev) welford_default) = Inr r" using mc_loop_total[OF assms] by blast
  obtain fb cb where b: "ev_solver_bias ev x (phi_tau p) e = Inr (fb, cb)"
    using assms unfolding evaluator_total_def by (metis surj_pair)
  show ?thesis unfolding compute_estimates_def r res_bind.simps
  proof (cases r)
    case (Some fc)
    show "\<exists>y. (case r of None \<Rightarrow> Inr None | Some (fa, ca) \<Rightarrow> res_bind (ev_solver_bias ev x (phi_tau p) e) (\<lambda>(fb, cb).
        if (\<exists>v \<in> set fb. \<not> is_finite v) \<or> (\<exists>v \<in> set cb. \<not> is_finite v) then Inr None
        else case finish_accs fb 0 fa of None \<Rightarrow> Inr None
         | Some fs \<Rightarrow> (case finish_accs cb 0 ca of None \<Rightarrow> Inr None
           | Some cs \<Rightarrow> Inr (Some \<lparr>f_hat = map fst fs, f_se = map snd fs, c_hat = map fst cs, c_se = map snd cs,
               es_phi = p, tau_scale = tau_f64 (phi_tau p), es_num_objectives = ev_num_objectives ev\<rparr>)))) = Inr y"
      by (cases fc; cases "finish_accs fb 0 (fst fc)"; cases "finish_accs cb 0 (snd fc)") (simp_all add: Some b)
  qed simp
qed

lemma ref_eval_total: "evaluator_total (cx_evaluator ctx) \<Longrightarrow> \<exists>r. ref_eval X ctx x p = Inr r"
  using compute_estimates_total by (simp add: ref_eval_def split: option.split)

lemma execute_one_total:
  assumes "evaluator_total (cx_evaluator ctx)"
  shows "\<exists>out c'. execute_one X ctx wi c = Inr (out, c')"
proof -
  have "\<exists>out c'. execute_miss X ctx wi c = Inr (out, c')"
  proof (cases "mesh_to_real_aniso X (wi_x wi) (cx_base_steps ctx)")
    case (Some xr)
    obtain r where "compute_estimates (cx_evaluator ctx) xr (wi_phi wi) (cx_env ctx) = Inr r"
      using compute_estimates_total[OF assms] by blast
    then show ?thesis by (cases r) (simp_all add: execute_miss_def Some)
  qed (simp add: execute_miss_def)
  then show ?thesis by (auto simp: execute_one_def split: option.split)
qed

lemma run_batch_inline_total:
  "evaluator_total (cx_evaluator ctx) \<Longrightarrow> \<exists>outs c'. run_batch_inline X ctx wis c = Inr (outs, c')"
proof (induction wis arbitrary: c)
  case (Cons wi wis)
  obtain out c1 where one: "execute_one X ctx wi c = Inr (out, c1)" using execute_one_total[OF Cons.prems] by blast
  obtain outs c2 where "run_batch_inline X ctx wis c1 = Inr (outs, c2)" using Cons.IH[OF Cons.prems] by blast
  with one show ?case by simp
qed auto

text \<open>
  C23: estimates are well formed. Whatever the black box returns, when \<open>compute_estimates\<close> gives an estimate it has one
  mean and one standard error per objective and per constraint the black box declares, all of them finite, the
  standard errors not negative, and it is labelled with the fidelity it was asked for.
\<close>

theorem computed_estimates_ok:
  assumes "compute_estimates ev x p e = Inr (Some est)"
  shows "length (f_hat est) = ev_num_objectives ev \<and> length (f_se est) = ev_num_objectives ev
    \<and> length (c_hat est) = ev_num_constraints ev \<and> length (c_se est) = ev_num_constraints ev
    \<and> es_phi est = p \<and> tau_scale est = tau_f64 (phi_tau p)
    \<and> (\<forall>v \<in> set (f_hat est) \<union> set (c_hat est). is_finite v)
    \<and> (\<forall>v \<in> set (f_se est) \<union> set (c_se est). is_finite v \<and> 0 \<le> v)"
  using compute_estimates_ok[OF assms] by (simp add: est_ok_def)

text \<open>A black box with one objective that is always one.\<close>

definition const_evaluator :: evaluator where
  "const_evaluator = \<lparr>ev_cheap = (\<lambda>_ _. Inr True), ev_mc_sample = (\<lambda>_ _ _ _. Inr ([1], [])),
     ev_solver_bias = (\<lambda>_ _ _. Inr ([], [])), ev_num_objectives = 1, ev_num_constraints = 0, ev_search_dim = Some 1\<rparr>"

lemma const_evaluator_total: "evaluator_total const_evaluator"
  by (simp add: evaluator_total_def const_evaluator_def) blast

lemma one_pushed: "wf_mean (welford_push 1 welford_default) + 0 = 1" "welford_se (welford_push 1 welford_default) = 0"
proof -
  have "(1 :: f64) - 0 = 1" "f_of_int 1 = 1" "(1 :: f64) / 1 = 1" "(0 :: f64) + 1 = 1" "(1 :: f64) + 0 = 1"
    by (simp_all add: f64_eval cong: if_weak_cong)
  then show "wf_mean (welford_push 1 welford_default) + 0 = 1" "welford_se (welford_push 1 welford_default) = 0"
    by (simp_all add: welford_push_def welford_default_def welford_se_def Let_def)
qed

lemma const_estimates: "compute_estimates const_evaluator x (Phi 1 1) e = Inr (Some \<lparr>f_hat = [1], f_se = [0],
  c_hat = [], c_se = [], es_phi = Phi 1 1, tau_scale = tau_f64 1, es_num_objectives = 1\<rparr>)"
proof -
  have fin: "is_finite (1 :: f64)" by (simp add: is_finite_def one_f64_def INF_MAG_def)
  have u: "[0..<max (unat (phi_smc (Phi 1 1))) 1] = [0]" by simp
  show ?thesis unfolding compute_estimates_def u
    by (simp add: const_evaluator_def fin zero_finite one_pushed get_or_def get_def Let_def)
qed

definition env_demo :: env where
  "env_demo = \<lparr>run_id = 1, config_hash = 2, data_snapshot_id = 3, rng_master_seed = 4\<rparr>"

theorem computed_estimates_ok_witness:
  "\<exists>est. compute_estimates const_evaluator [0] (Phi 1 1) env_demo = Inr (Some est) \<and> length (f_hat est) = 1
    \<and> f_hat est = [1]"
  using computed_estimates_ok[OF const_estimates[of "[0]" env_demo]] const_estimates[of "[0]" env_demo]
  by (auto simp: const_evaluator_def)

text \<open>
  C22: the inline executor is correct. When the black box does not panic and the caches are sound (as when the run
  starts), a batch yields exactly one outcome per item, in order; every outcome, cached or computed, is what the black
  box says about that item; and the caches stay sound.
\<close>

theorem inline_batch_correct:
  assumes "evaluator_total (cx_evaluator ctx)" "caches_sound X ctx c"
    and "\<forall>wi \<in> set wis. wi_env_rev wi = cx_env_rev ctx"
  shows "\<exists>outs c'. run_batch_inline X ctx wis c = Inr (outs, c') \<and> map wo_item outs = wis
    \<and> (\<forall>out \<in> set outs. outcome_matches X ctx out) \<and> caches_sound X ctx c'"
  using run_batch_inline_total[OF assms(1)] run_batch_inline_ok[OF assms(2,3)] by blast

definition ctx_demo :: exec_ctx where
  "ctx_demo = \<lparr>cx_evaluator = const_evaluator, cx_env = env_demo, cx_env_rev = 7, cx_ladder_len = 1, cx_base_steps = [1]\<rparr>"

definition item_demo :: "nat \<Rightarrow> work_item" where
  "item_demo i = \<lparr>wi_cand_id = of_nat i, wi_x = [int i], wi_phi_idx = 0, wi_phi = Phi 1 1, wi_env_rev = 7,
     wi_policy_rev = 0, wi_incumbent_id = 0\<rparr>"

theorem inline_batch_correct_witness:
  "\<exists>outs c'. run_batch_inline extern0 ctx_demo [item_demo 1, item_demo 1] caches_empty = Inr (outs, c') \<and> length outs = 2"
proof -
  have ev: "evaluator_total (cx_evaluator ctx_demo)" by (simp add: ctx_demo_def const_evaluator_total)
  have er: "\<forall>wi \<in> set [item_demo 1, item_demo 1]. wi_env_rev wi = cx_env_rev ctx_demo"
    by (simp add: ctx_demo_def item_demo_def)
  obtain outs c' where "run_batch_inline extern0 ctx_demo [item_demo 1, item_demo 1] caches_empty = Inr (outs, c')"
    "map wo_item outs = [item_demo 1, item_demo 1]"
    using inline_batch_correct[OF ev caches_empty_sound er, of extern0] by auto
  then show ?thesis by (metis length_map length_Cons list.size(3) One_nat_def numeral_2_eq_2)
qed

text \<open>The objective and constraint values an outcome carries, from whichever source.\<close>

definition outcome_values :: "work_outcome \<Rightarrow> (f64 list \<times> f64 list) option" where
  "outcome_values out = (case wo_cached_decision out of
     Some (EarlyInfeasible _ est _) \<Rightarrow> Some (f_hat est, c_hat est)
   | Some (Partial est _) \<Rightarrow> Some (f_hat est, c_hat est)
   | Some (Truth f c _ _ _) \<Rightarrow> Some (f, c)
   | Some _ \<Rightarrow> None
   | None \<Rightarrow> map_option (\<lambda>est. (f_hat est, c_hat est)) (wo_estimates out))"

lemma outcome_values_ref:
  assumes "outcome_matches X ctx out" "wi_env_rev (wo_item out) = cx_env_rev ctx"
  shows "\<exists>r. ref_eval X ctx (wi_x (wo_item out)) (wi_phi (wo_item out)) = Inr r
    \<and> outcome_values out = map_option (\<lambda>est. (f_hat est, c_hat est)) r"
proof (cases "wo_cached_decision out")
  case None
  with assms(1) show ?thesis by (auto simp: outcome_matches_def outcome_values_def)
next
  case (Some v)
  with assms have "decision_matches (ref_eval X ctx (wi_x (wo_item out)) (wi_phi (wo_item out))) v"
    by (auto simp: outcome_matches_def decision_fits_def item_dkey_def item_tag_def)
  then show ?thesis by (cases v) (auto simp: outcome_values_def Some)
qed

text \<open>
  C13: the caches do not change results: executing the same item from any two sound cache states gives the same
  objective and constraint values, whether they come from the decision cache, the evaluation cache or the black box.
\<close>

theorem caches_transparent:
  assumes "caches_sound X ctx c1" "caches_sound X ctx c2" "wi_env_rev wi = cx_env_rev ctx"
    and "execute_one X ctx wi c1 = Inr (out1, c1')" "execute_one X ctx wi c2 = Inr (out2, c2')"
  shows "outcome_values out1 = outcome_values out2"
proof -
  have o: "wo_item out1 = wi \<and> outcome_matches X ctx out1" "wo_item out2 = wi \<and> outcome_matches X ctx out2"
    using execute_one_ok[OF assms(1,3,4)] execute_one_ok[OF assms(2,3,5)] by auto
  with outcome_values_ref[of X ctx out1] outcome_values_ref[of X ctx out2] assms(3) show ?thesis by auto
qed

theorem caches_transparent_witness:
  "\<exists>out1 out2 c1 c2. execute_one extern0 ctx_demo (item_demo 1) caches_empty = Inr (out1, c1)
    \<and> execute_one extern0 ctx_demo (item_demo 1) c1 = Inr (out2, c2) \<and> outcome_values out1 = outcome_values out2"
proof -
  have ev: "evaluator_total (cx_evaluator ctx_demo)" by (simp add: ctx_demo_def const_evaluator_total)
  have e: "wi_env_rev (item_demo 1) = cx_env_rev ctx_demo" by (simp add: ctx_demo_def item_demo_def)
  obtain out1 c1 where r1: "execute_one extern0 ctx_demo (item_demo 1) caches_empty = Inr (out1, c1)"
    using execute_one_total[OF ev] by blast
  obtain out2 c2 where r2: "execute_one extern0 ctx_demo (item_demo 1) c1 = Inr (out2, c2)"
    using execute_one_total[OF ev] by blast
  have "caches_sound extern0 ctx_demo c1" using execute_one_ok[OF caches_empty_sound e r1] by simp
  from caches_transparent[OF caches_empty_sound this e r1 r2] r1 r2 show ?thesis by blast
qed

subsection \<open>The adaptive executor\<close>

text \<open>After \<open>configure\<close> the pool exists exactly for more than one worker, with that many; configuring again changes nothing.\<close>

lemma adaptive_configure_workers:
  "adaptive_configure threads n a = Inline \<longleftrightarrow> \<not> (threads \<and> 1 < n)"
  "threads \<Longrightarrow> 1 < n \<Longrightarrow> ad_workers (adaptive_configure threads n a) = n"
  by (cases a; auto simp: pool_configure_def pool_new_def)+

lemma adaptive_configure_idem:
  "adaptive_configure threads n (adaptive_configure threads n a) = adaptive_configure threads n a"
  by (cases a) (auto simp: pool_configure_def pool_new_def)

end
