(* ===== verification/Pool.thy ===== *)
theory Pool
  imports Executor "HOL-Library.Multiset"
begin

text \<open>
  The concurrent part of \<open>core/executor.rs\<close>: \<open>WorkerPoolExecutor::run_batch\<close>, \<open>worker_loop\<close> and \<open>Drop\<close> as an
  interleaving of the engine thread and the workers. A state has the queue behind its mutex, the worker-local rings, the
  shutdown flag, the batch sink (completion counter and result slots) and a program counter per thread; one step is one
  access to shared state. The sink's mutex is only ever locked by the engine thread, so it needs no owner. A condition
  variable may wake spuriously when the flag of the step relation says so. The lemmas show that the unsafe read of the
  slots is never of an uninitialised slot, that a batch agrees with the inline executor, that the only way to get stuck
  in a batch is a lost wakeup, which does happen, and that dropping the executor never ends its workers.
\<close>

subsection \<open>Threads and shared state\<close>

type_synonym task = "nat \<times> work_item"

datatype worker_pc =
    W_top                       \<comment> \<open>start of the loop, before \<open>local.pop_front\<close>\<close>
  | W_lock                      \<comment> \<open>waiting for the queue mutex\<close>
  | W_check                     \<comment> \<open>queue empty, mutex held, before the shutdown test\<close>
  | W_park                      \<comment> \<open>mutex held, about to wait\<close>
  | W_asleep                    \<comment> \<open>waiting on the queue's condition variable\<close>
  | W_decision task             \<comment> \<open>\<open>execute_one\<close>: before the decision cache lookup\<close>
  | W_eval task                 \<comment> \<open>before the evaluation cache lookup\<close>
  | W_compute task              \<comment> \<open>both caches missed\<close>
  | W_write task work_outcome   \<comment> \<open>before the slot is written\<close>
  | W_count                     \<comment> \<open>before \<open>done.fetch_add\<close>\<close>
  | W_notify                    \<comment> \<open>before \<open>sink.cv.notify_one\<close>\<close>
  | W_gone

record worker =
  wk_local :: "task list"
  wk_pc :: worker_pc

datatype main_pc =
    M_start
  | M_push                      \<comment> \<open>waiting for the queue mutex\<close>
  | M_wake                      \<comment> \<open>before \<open>inner.cv.notify_all\<close>\<close>
  | M_spin nat
  | M_check
  | M_locked                    \<comment> \<open>sink mutex held, before the loop test\<close>
  | M_park                      \<comment> \<open>test failed, about to wait\<close>
  | M_asleep
  | M_collect
  | M_returned "work_outcome list"
  | M_undefined                 \<comment> \<open>an uninitialised slot was read\<close>
  | M_shut                      \<comment> \<open>\<open>Drop\<close> of the last reference: flag stored, before \<open>notify_all\<close>\<close>
  | M_join
  | M_dropped

record pool =
  pl_queue :: "task list"
  pl_qlock :: "nat option"
  pl_chunk :: nat
  pl_shutdown :: bool
  pl_workers :: "worker list"
  pl_caches :: caches
  pl_done :: nat
  pl_slots :: "work_outcome option list"
  pl_main :: main_pc

definition outcome_panicked :: "work_item \<Rightarrow> work_outcome" where
  "outcome_panicked wi = \<lparr>wo_item = wi, wo_cached_decision = None, wo_estimates = None, wo_runtime_cost = 0,
     wo_hit_decision_cache = False, wo_hit_eval_cache = False, wo_did_compute = False\<rparr>"

definition div_ceil :: "nat \<Rightarrow> nat \<Rightarrow> nat" where
  "div_ceil a b = (a + b - 1) div b"

definition chunk_eff :: "nat \<Rightarrow> nat \<Rightarrow> nat \<Rightarrow> nat" where
  "chunk_eff chunk_base n workers = min (max chunk_base 1) (max (div_ceil n (max workers 1)) 1)"

definition set_worker :: "nat \<Rightarrow> worker \<Rightarrow> pool \<Rightarrow> pool" where
  "set_worker i w s = s\<lparr>pl_workers := (pl_workers s)[i := w]\<rparr>"

text \<open>
  \<open>Arc::strong_count\<close> of the shared state: one reference of the executor, one owned by every worker thread until its
  loop returns.
\<close>

definition strong_count :: "pool \<Rightarrow> nat" where
  "strong_count s = 1 + length (filter (\<lambda>w. wk_pc w \<noteq> W_gone) (pl_workers s))"

text \<open>\<open>notify_all\<close> on the queue's condition variable: a woken worker must take the mutex again.\<close>

definition wake_worker :: "worker \<Rightarrow> worker" where
  "wake_worker w = (if wk_pc w = W_asleep then w\<lparr>wk_pc := W_lock\<rparr> else w)"

definition wake_all :: "pool \<Rightarrow> pool" where
  "wake_all s = s\<lparr>pl_workers := map wake_worker (pl_workers s)\<rparr>"

subsection \<open>Steps of a worker\<close>

text \<open>The inner loop under the queue mutex, up to the shutdown test.\<close>

definition worker_drain :: "nat \<Rightarrow> worker \<Rightarrow> pool \<Rightarrow> pool" where
  "worker_drain i w s = (let room = max (pl_chunk s) 1 - length (wk_local w);
     s1 = s\<lparr>pl_queue := drop room (pl_queue s)\<rparr> in
   case wk_local w @ take room (pl_queue s) of
     t # ts \<Rightarrow> set_worker i \<lparr>wk_local = ts, wk_pc = W_decision t\<rparr> s1
   | [] \<Rightarrow> set_worker i (w\<lparr>wk_pc := W_check\<rparr>) (s1\<lparr>pl_qlock := Some i\<rparr>))"

definition worker_next :: "extern \<Rightarrow> exec_ctx \<Rightarrow> nat \<Rightarrow> nat \<Rightarrow> pool \<Rightarrow> pool option" where
  "worker_next X ctx n i s = (let w = pl_workers s ! i; goto = (\<lambda>pc. set_worker i (w\<lparr>wk_pc := pc\<rparr>)) in
     case wk_pc w of
       W_top \<Rightarrow> Some (case wk_local w of [] \<Rightarrow> goto W_lock s
         | t # ts \<Rightarrow> set_worker i \<lparr>wk_local = ts, wk_pc = W_decision t\<rparr> s)
     | W_lock \<Rightarrow> if pl_qlock s = None then Some (worker_drain i w s) else None
     | W_check \<Rightarrow> Some (if pl_shutdown s then goto W_gone (s\<lparr>pl_qlock := None\<rparr>) else goto W_park s)
     | W_park \<Rightarrow> Some (goto W_asleep (s\<lparr>pl_qlock := None\<rparr>))
     | W_asleep \<Rightarrow> None
     | W_decision t \<Rightarrow> Some (case decision_cache_get (ch_decision (pl_caches s)) (item_dkey ctx (snd t)) of
         Some v \<Rightarrow> goto (W_write t (outcome_decision_hit (snd t) v)) s
       | None \<Rightarrow> goto (W_eval t) s)
     | W_eval t \<Rightarrow> Some (case eval_cache_get (ch_eval (pl_caches s)) (item_ekey (snd t)) of
         Some est \<Rightarrow> goto (W_write t (outcome_eval_hit (snd t) est)) s
       | None \<Rightarrow> goto (W_compute t) s)
     | W_compute t \<Rightarrow> Some (case execute_miss X ctx (snd t) (pl_caches s) of
         Inr (out, c) \<Rightarrow> goto (W_write t out) (s\<lparr>pl_caches := c\<rparr>)
       | Inl p \<Rightarrow> goto (W_write t (outcome_panicked (snd t))) s)
     | W_write t out \<Rightarrow> Some (goto W_count (s\<lparr>pl_slots := (pl_slots s)[fst t := Some out]\<rparr>))
     | W_count \<Rightarrow> Some (goto (if pl_done s + 1 = n then W_notify else W_top) (s\<lparr>pl_done := pl_done s + 1\<rparr>))
     | W_notify \<Rightarrow> Some (goto W_top (if pl_main s = M_asleep then s\<lparr>pl_main := M_locked\<rparr> else s))
     | W_gone \<Rightarrow> None)"

subsection \<open>Steps of the engine thread\<close>

text \<open>\<open>Drop\<close>, once the batch has returned.\<close>

definition drop_next :: "pool \<Rightarrow> pool option" where
  "drop_next s = (case pl_main s of
       M_returned outs \<Rightarrow> Some (if strong_count s \<noteq> 1 then s\<lparr>pl_main := M_dropped\<rparr>
         else s\<lparr>pl_shutdown := True, pl_main := M_shut\<rparr>)
     | M_shut \<Rightarrow> Some ((wake_all s)\<lparr>pl_main := M_join\<rparr>)
     | M_join \<Rightarrow> if list_all (\<lambda>w. wk_pc w = W_gone) (pl_workers s) then Some (s\<lparr>pl_main := M_dropped\<rparr>) else None
     | _ \<Rightarrow> None)"

definition main_next :: "exec_params \<Rightarrow> work_item list \<Rightarrow> pool \<Rightarrow> pool option" where
  "main_next ps items s = (let n = length items; goto = (\<lambda>pc s. s\<lparr>pl_main := pc\<rparr>) in
     case pl_main s of
       M_start \<Rightarrow> Some (if n = 0 then goto (M_returned []) s
         else goto M_push (s\<lparr>pl_chunk := chunk_eff (xp_chunk_base ps) n (length (pl_workers s))\<rparr>))
     | M_push \<Rightarrow> if pl_qlock s = None then Some (goto M_wake (s\<lparr>pl_queue := pl_queue s @ enumerate 0 items\<rparr>)) else None
     | M_wake \<Rightarrow> Some (goto (M_spin 0) (wake_all s))
     | M_spin k \<Rightarrow> Some (if k < xp_spin_limit ps \<and> pl_done s < n then goto (M_spin (Suc k)) s else goto M_check s)
     | M_check \<Rightarrow> Some (goto (if pl_done s < n then M_locked else M_collect) s)
     | M_locked \<Rightarrow> Some (goto (if pl_done s < n then M_park else M_collect) s)
     | M_park \<Rightarrow> Some (goto M_asleep s)
     | M_asleep \<Rightarrow> None
     | M_collect \<Rightarrow> Some (goto (if None \<in> set (pl_slots s) then M_undefined else M_returned (map the (pl_slots s))) s)
     | M_returned outs \<Rightarrow> drop_next s
     | M_undefined \<Rightarrow> None
     | M_shut \<Rightarrow> drop_next s
     | M_join \<Rightarrow> drop_next s
     | M_dropped \<Rightarrow> None)"

lemmas main_defs = main_next_def drop_next_def

text \<open>The batch whose executor is dropped after it returns; \<open>spurious\<close> allows spurious wakeups.\<close>

inductive pool_step :: "extern \<Rightarrow> exec_ctx \<Rightarrow> exec_params \<Rightarrow> work_item list \<Rightarrow> bool \<Rightarrow> pool \<Rightarrow> pool \<Rightarrow> bool"
  for X ctx ps items spurious where
  worker: "i < length (pl_workers s) \<Longrightarrow> worker_next X ctx (length items) i s = Some s' \<Longrightarrow>
    pool_step X ctx ps items spurious s s'"
| main: "main_next ps items s = Some s' \<Longrightarrow> pool_step X ctx ps items spurious s s'"
| spurious_worker: "spurious \<Longrightarrow> i < length (pl_workers s) \<Longrightarrow> wk_pc (pl_workers s ! i) = W_asleep \<Longrightarrow>
    pool_step X ctx ps items spurious s (set_worker i ((pl_workers s ! i)\<lparr>wk_pc := W_lock\<rparr>) s)"
| spurious_main: "spurious \<Longrightarrow> pl_main s = M_asleep \<Longrightarrow>
    pool_step X ctx ps items spurious s (s\<lparr>pl_main := M_locked\<rparr>)"

inductive_cases pool_stepE: "pool_step X ctx ps items spurious s s'"

abbreviation pool_reach where
  "pool_reach X ctx ps items spurious \<equiv> (pool_step X ctx ps items spurious)\<^sup>*\<^sup>*"

text \<open>The queue mutex is held exactly by the worker that is between its test and its wait.\<close>

definition lock_ok :: "pool \<Rightarrow> bool" where
  "lock_ok s \<longleftrightarrow> (\<forall>i < length (pl_workers s). wk_pc (pl_workers s ! i) \<in> {W_check, W_park} \<longleftrightarrow> pl_qlock s = Some i)
     \<and> (\<forall>i. pl_qlock s = Some i \<longrightarrow> i < length (pl_workers s))"

text \<open>
  The states in which \<open>run_batch\<close> is called: a new sink, nothing queued, every worker looking for work (just started,
  or back from an earlier batch). A worker that still has to notify the sink of an earlier batch does not touch this one.
\<close>

definition pool_init :: "nat \<Rightarrow> caches \<Rightarrow> work_item list \<Rightarrow> pool \<Rightarrow> bool" where
  "pool_init W c items s \<longleftrightarrow> length (pl_workers s) = W \<and> 0 < W \<and> pl_queue s = [] \<and> \<not> pl_shutdown s
     \<and> pl_caches s = c \<and> pl_done s = 0 \<and> pl_slots s = replicate (length items) None \<and> pl_main s = M_start
     \<and> (\<forall>w \<in> set (pl_workers s). wk_local w = [] \<and> wk_pc w \<in> {W_top, W_lock, W_check, W_park, W_asleep}) \<and> lock_ok s"

definition pool_fresh :: "nat \<Rightarrow> caches \<Rightarrow> work_item list \<Rightarrow> pool" where
  "pool_fresh W c items = \<lparr>pl_queue = [], pl_qlock = None, pl_chunk = 1, pl_shutdown = False,
     pl_workers = replicate W \<lparr>wk_local = [], wk_pc = W_top\<rparr>, pl_caches = c, pl_done = 0,
     pl_slots = replicate (length items) None, pl_main = M_start\<rparr>"

lemma pool_fresh_init: "0 < W \<Longrightarrow> pool_init W c items (pool_fresh W c items)"
  by (simp add: pool_init_def pool_fresh_def lock_ok_def)

subsection \<open>Where the tasks are\<close>

fun pc_task :: "worker_pc \<Rightarrow> task list" where
  "pc_task (W_decision t) = [t]"
| "pc_task (W_eval t) = [t]"
| "pc_task (W_compute t) = [t]"
| "pc_task (W_write t _) = [t]"
| "pc_task _ = []"

definition worker_tasks :: "worker \<Rightarrow> task multiset" where
  "worker_tasks w = mset (wk_local w) + mset (pc_task (wk_pc w))"

definition wsum :: "(worker \<Rightarrow> 'a :: comm_monoid_add) \<Rightarrow> pool \<Rightarrow> 'a" where
  "wsum f s = sum_list (map f (pl_workers s))"

definition others :: "(worker \<Rightarrow> 'a :: comm_monoid_add) \<Rightarrow> nat \<Rightarrow> pool \<Rightarrow> 'a" where
  "others f i s = sum_list (map f (take i (pl_workers s))) + sum_list (map f (drop (Suc i) (pl_workers s)))"

lemma wsum_worker: "i < length (pl_workers s) \<Longrightarrow> wsum f s = f (pl_workers s ! i) + others f i s"
  using id_take_nth_drop[of i "pl_workers s"] unfolding wsum_def others_def
  by (metis (no_types, lifting) add.left_commute list.simps(9) map_append sum_list.Cons sum_list.append)

lemma wsum_set_worker: "i < length (pl_workers s) \<Longrightarrow> wsum f (set_worker i w s) = f w + others f i s"
  unfolding wsum_def others_def set_worker_def
  by (simp add: upd_conv_take_nth_drop add.left_commute)

lemma wsum_cong: "pl_workers s = pl_workers s' \<Longrightarrow> wsum f s = wsum f s'"
  and others_cong: "pl_workers s = pl_workers s' \<Longrightarrow> others f i s = others f i s'"
  by (simp_all add: wsum_def others_def)

lemma set_worker_sel [simp]: "pl_queue (set_worker i w s) = pl_queue s" "pl_qlock (set_worker i w s) = pl_qlock s"
  "pl_shutdown (set_worker i w s) = pl_shutdown s" "pl_caches (set_worker i w s) = pl_caches s"
  "pl_done (set_worker i w s) = pl_done s" "pl_slots (set_worker i w s) = pl_slots s"
  "pl_main (set_worker i w s) = pl_main s" "pl_workers (set_worker i w s) = (pl_workers s)[i := w]"
  "pl_chunk (set_worker i w s) = pl_chunk s"
  by (simp_all add: set_worker_def)

definition pending :: "pool \<Rightarrow> task multiset" where
  "pending s = mset (pl_queue s) + wsum worker_tasks s"

definition counting :: "pool \<Rightarrow> nat" where
  "counting s = wsum (\<lambda>w. if wk_pc w = W_count then 1 else 0) s"

definition unwritten :: "work_item list \<Rightarrow> pool \<Rightarrow> task multiset" where
  "unwritten items s = mset (filter (\<lambda>t. pl_slots s ! fst t = None) (enumerate 0 items))"

definition written :: "pool \<Rightarrow> nat" where
  "written s = length (filter (\<lambda>out. out \<noteq> None) (pl_slots s))"

text \<open>An outcome is what the black box says, or reports that it panicked.\<close>

definition outcome_good :: "extern \<Rightarrow> exec_ctx \<Rightarrow> work_outcome \<Rightarrow> bool" where
  "outcome_good X ctx out \<longleftrightarrow> outcome_matches X ctx out
     \<or> out = outcome_panicked (wo_item out) \<and> (\<exists>p. ref_eval X ctx (wi_x (wo_item out)) (wi_phi (wo_item out)) = Inl p)"

definition pool_core :: "extern \<Rightarrow> exec_ctx \<Rightarrow> work_item list \<Rightarrow> pool \<Rightarrow> bool" where
  "pool_core X ctx items s \<longleftrightarrow> length (pl_slots s) = length items
     \<and> (if pl_main s \<in> {M_start, M_push} then pending s = {#} \<and> set (pl_slots s) \<subseteq> {None}
        else pending s = unwritten items s)
     \<and> pl_done s + counting s = written s
     \<and> (\<forall>i < length items. \<forall>out. pl_slots s ! i = Some out \<longrightarrow> wo_item out = items ! i \<and> outcome_good X ctx out)
     \<and> (\<forall>w \<in> set (pl_workers s). \<forall>t out. wk_pc w = W_write t out \<longrightarrow> wo_item out = snd t \<and> outcome_good X ctx out)
     \<and> caches_sound X ctx (pl_caches s)"

fun main_ok :: "extern \<Rightarrow> exec_ctx \<Rightarrow> work_item list \<Rightarrow> pool \<Rightarrow> main_pc \<Rightarrow> bool" where
  "main_ok X ctx items s M_collect \<longleftrightarrow> None \<notin> set (pl_slots s)"
| "main_ok X ctx items s (M_returned outs) \<longleftrightarrow> map wo_item outs = items \<and> (\<forall>out \<in> set outs. outcome_good X ctx out)"
| "main_ok X ctx items s M_undefined \<longleftrightarrow> False"
| "main_ok X ctx items s _ \<longleftrightarrow> True"

definition pool_inv :: "extern \<Rightarrow> exec_ctx \<Rightarrow> work_item list \<Rightarrow> pool \<Rightarrow> bool" where
  "pool_inv X ctx items s \<longleftrightarrow> pool_core X ctx items s \<and> main_ok X ctx items s (pl_main s)"

lemma pending_mem:
  assumes "pool_core X ctx items s" "i < length (pl_workers s)" "t \<in> set (pc_task (wk_pc (pl_workers s ! i)))"
  shows "pl_main s \<notin> {M_start, M_push}" "fst t < length items" "items ! fst t = snd t" "pl_slots s ! fst t = None"
proof -
  have t: "t \<in># pending s"
    using assms(2,3) by (simp add: pending_def wsum_worker worker_tasks_def)
  then show m: "pl_main s \<notin> {M_start, M_push}" using assms(1) by (auto simp: pool_core_def split: if_splits)
  then have "t \<in> set (enumerate 0 items)" "pl_slots s ! fst t = None"
    using t assms(1) by (auto simp: pool_core_def unwritten_def)
  then show "fst t < length items" "items ! fst t = snd t" "pl_slots s ! fst t = None"
    by (auto simp: in_set_enumerate_eq)
qed

lemma all_written:
  assumes "pool_core X ctx items s" "length items \<le> pl_done s"
  shows "None \<notin> set (pl_slots s)"
proof
  assume "None \<in> set (pl_slots s)"
  then have "written s < length (pl_slots s)"
    unfolding written_def by (auto intro!: length_filter_less)
  with assms show False by (simp add: pool_core_def)
qed

lemma unwritten_write:
  assumes "length (pl_slots s) = length items" "fst t < length items" "items ! fst t = snd t" "pl_slots s ! fst t = None"
  shows "unwritten items s = {#t#} + unwritten items (s\<lparr>pl_slots := (pl_slots s)[fst t := Some out]\<rparr>)"
proof -
  let ?s' = "s\<lparr>pl_slots := (pl_slots s)[fst t := Some out]\<rparr>"
  have d: "distinct (enumerate 0 items)" by (simp add: distinct_enumerate)
  have f: "filter (\<lambda>u. pl_slots ?s' ! fst u = None) (enumerate 0 items)
      = removeAll t (filter (\<lambda>u. pl_slots s ! fst u = None) (enumerate 0 items))"
    unfolding removeAll_filter_not_eq filter_filter
    using assms by (intro filter_cong) (auto simp: in_set_enumerate_eq nth_list_update prod_eq_iff)
  have "t \<in> set (filter (\<lambda>u. pl_slots s ! fst u = None) (enumerate 0 items))"
    using assms by (simp add: in_set_enumerate_eq)
  then show ?thesis
    unfolding unwritten_def f using d
    by (metis add_mset_add_single distinct_filter distinct_remove1_removeAll mset_remove1 insert_DiffM set_mset_mset union_commute)
qed

lemma written_write: "i < length (pl_slots s) \<Longrightarrow> pl_slots s ! i = None \<Longrightarrow>
  written (s\<lparr>pl_slots := (pl_slots s)[i := Some out]\<rparr>) = Suc (written s)"
  unfolding written_def by (subst (2) id_take_nth_drop[of i]) (simp_all add: upd_conv_take_nth_drop)

subsection \<open>The invariant\<close>

lemma wsum_update:
  "pl_workers s' = (pl_workers s)[i := w'] \<Longrightarrow> i < length (pl_workers s) \<Longrightarrow> wsum f s' = f w' + others f i s"
  using wsum_set_worker[of i s f w'] wsum_cong[of s' "set_worker i w' s" f] by simp

lemma writers_update:
  assumes "\<forall>v \<in> set ws. \<forall>t out. wk_pc v = W_write t out \<longrightarrow> Q t out" "\<And>t out. wk_pc w' = W_write t out \<Longrightarrow> Q t out"
  shows "\<forall>v \<in> set (ws[i := w']). \<forall>t out. wk_pc v = W_write t out \<longrightarrow> Q t out"
  using assms set_update_subset_insert[of ws i w'] by blast

lemma core_writers: "pool_core X ctx items s \<Longrightarrow>
  \<forall>v \<in> set (pl_workers s). \<forall>t out. wk_pc v = W_write t out \<longrightarrow> wo_item out = snd t \<and> outcome_good X ctx out"
  by (simp add: pool_core_def)

lemma core_move:
  assumes core: "pool_core X ctx items s" and i: "i < length (pl_workers s)"
    and same: "pl_workers s' = (pl_workers s)[i := w']" "pl_slots s' = pl_slots s" "pl_done s' = pl_done s"
      "pl_main s' \<in> {M_start, M_push} \<longleftrightarrow> pl_main s \<in> {M_start, M_push}"
    and tasks: "mset (pl_queue s') + worker_tasks w' = mset (pl_queue s) + worker_tasks (pl_workers s ! i)"
    and count: "wk_pc w' \<noteq> W_count" "wk_pc (pl_workers s ! i) \<noteq> W_count"
    and good: "\<And>t out. wk_pc w' = W_write t out \<Longrightarrow> wo_item out = snd t \<and> outcome_good X ctx out"
    and sound: "caches_sound X ctx (pl_caches s')"
  shows "pool_core X ctx items s'"
proof -
  have "pending s' = pending s"
    using tasks by (simp add: pending_def wsum_worker[OF i] wsum_update[OF same(1) i] flip: add.assoc)
  moreover have "counting s' = counting s"
    using count by (simp add: counting_def wsum_worker[OF i] wsum_update[OF same(1) i])
  moreover have "unwritten items s' = unwritten items s" "written s' = written s"
    by (simp_all add: unwritten_def written_def same(2))
  moreover note writers_update[OF core_writers[OF core] good, of w' i]
  ultimately show ?thesis
    using core sound unfolding pool_core_def same by simp
qed

lemma core_goto:
  assumes core: "pool_core X ctx items s" and i: "i < length (pl_workers s)" and w: "w = pl_workers s ! i"
    and tasks: "pc_task pc = pc_task (wk_pc w)" and count: "pc \<noteq> W_count" "wk_pc w \<noteq> W_count"
    and good: "\<And>t out. pc = W_write t out \<Longrightarrow> wo_item out = snd t \<and> outcome_good X ctx out"
    and same: "pl_workers s1 = pl_workers s" "pl_slots s1 = pl_slots s" "pl_done s1 = pl_done s"
      "pl_main s1 \<in> {M_start, M_push} \<longleftrightarrow> pl_main s \<in> {M_start, M_push}" "pl_queue s1 = pl_queue s"
    and sound: "caches_sound X ctx (pl_caches s1)"
  shows "pool_core X ctx items (set_worker i (w\<lparr>wk_pc := pc\<rparr>) s1)"
  by (rule core_move[OF core i, where w' = "w\<lparr>wk_pc := pc\<rparr>"])
    (use same tasks count good sound in \<open>simp_all add: w[symmetric] worker_tasks_def\<close>)

lemma core_sound: "pool_core X ctx items s \<Longrightarrow> caches_sound X ctx (pl_caches s)"
  by (simp add: pool_core_def)

lemma core_drain:
  assumes core: "pool_core X ctx items s" and i: "i < length (pl_workers s)" and w: "w = pl_workers s ! i"
    and pc: "wk_pc w = W_lock"
  shows "pool_core X ctx items (worker_drain i w s)"
proof -
  define room where "room = max (pl_chunk s) 1 - length (wk_local w)"
  have q: "mset (pl_queue s) = mset (take room (pl_queue s)) + mset (drop room (pl_queue s))"
    by (metis append_take_drop_id mset_append)
  show ?thesis
  proof (cases "wk_local w @ take room (pl_queue s)")
    case Nil
    then have d: "worker_drain i w s = set_worker i (w\<lparr>wk_pc := W_check\<rparr>)
        (s\<lparr>pl_queue := drop room (pl_queue s), pl_qlock := Some i\<rparr>)"
      unfolding worker_drain_def Let_def room_def[symmetric] Nil by simp
    show ?thesis unfolding d
      by (rule core_move[OF core i, where w' = "w\<lparr>wk_pc := W_check\<rparr>"])
        (use Nil q pc core_sound[OF core] in \<open>simp_all add: w[symmetric] worker_tasks_def\<close>)
  next
    case (Cons t ts)
    then have d: "worker_drain i w s = set_worker i \<lparr>wk_local = ts, wk_pc = W_decision t\<rparr>
        (s\<lparr>pl_queue := drop room (pl_queue s)\<rparr>)"
      unfolding worker_drain_def Let_def room_def[symmetric] Cons by simp
    have "mset (wk_local w) + mset (take room (pl_queue s)) = add_mset t (mset ts)"
      using Cons by (metis mset.simps(2) mset_append)
    then show ?thesis unfolding d
      by (intro core_move[OF core i, where w' = "\<lparr>wk_local = ts, wk_pc = W_decision t\<rparr>"])
        (use q pc core_sound[OF core] in \<open>simp_all add: w[symmetric] worker_tasks_def add.commute add.left_commute\<close>)
  qed
qed

lemma core_write:
  assumes core: "pool_core X ctx items s" and i: "i < length (pl_workers s)" and w: "w = pl_workers s ! i"
    and pc: "wk_pc w = W_write t out"
  shows "pool_core X ctx items (set_worker i (w\<lparr>wk_pc := W_count\<rparr>) (s\<lparr>pl_slots := (pl_slots s)[fst t := Some out]\<rparr>))"
    (is "pool_core X ctx items ?s'")
proof -
  have m: "pl_main s \<notin> {M_start, M_push}" "fst t < length items" "items ! fst t = snd t" "pl_slots s ! fst t = None"
    using pending_mem[OF core i, of t] pc w by simp_all
  have len: "length (pl_slots s) = length items" using core by (simp add: pool_core_def)
  have good: "wo_item out = snd t \<and> outcome_good X ctx out"
    using core pc i unfolding w pool_core_def by (meson nth_mem)
  have "pending s = {#t#} + pending ?s'"
    by (simp add: pending_def wsum_worker[OF i] wsum_update[of ?s' s i, OF _ i] worker_tasks_def pc flip: w)
  moreover have "unwritten items s = {#t#} + unwritten items ?s'"
    using unwritten_write[OF len m(2-4), of out] by (simp add: unwritten_def)
  moreover have "pending s = unwritten items s" using core m(1) by (simp add: pool_core_def split: if_splits)
  ultimately have "pending ?s' = unwritten items ?s'" by simp
  moreover have "counting ?s' = Suc (counting s)"
    by (simp add: counting_def wsum_worker[OF i] wsum_update[of ?s' s i, OF _ i] pc flip: w)
  moreover have "written ?s' = Suc (written s)"
    using written_write[of "fst t" s out] m len by (simp add: written_def)
  moreover have "\<forall>k < length items. \<forall>o'. pl_slots ?s' ! k = Some o' \<longrightarrow> wo_item o' = items ! k \<and> outcome_good X ctx o'"
    using core good m len by (auto simp: nth_list_update pool_core_def)
  moreover have "\<forall>v \<in> set (pl_workers ?s'). \<forall>t' o'. wk_pc v = W_write t' o' \<longrightarrow> wo_item o' = snd t' \<and> outcome_good X ctx o'"
    unfolding set_worker_sel by (rule writers_update) (use core_writers[OF core] in simp_all)
  ultimately show ?thesis using core m(1) len by (simp add: pool_core_def)
qed

lemma core_count:
  assumes core: "pool_core X ctx items s" and i: "i < length (pl_workers s)" and w: "w = pl_workers s ! i"
    and pc: "wk_pc w = W_count" and pc': "pc' = W_top \<or> pc' = W_notify"
  shows "pool_core X ctx items (set_worker i (w\<lparr>wk_pc := pc'\<rparr>) (s\<lparr>pl_done := pl_done s + 1\<rparr>))" (is "pool_core X ctx items ?s'")
proof -
  have ws: "pl_workers ?s' = (pl_workers s)[i := w\<lparr>wk_pc := pc'\<rparr>]" by simp
  have "pending ?s' = pending s"
    using pc' pc unfolding pending_def wsum_worker[OF i] wsum_update[OF ws i] w[symmetric] by (auto simp: worker_tasks_def)
  moreover have "counting s = Suc (counting ?s')"
    using pc' pc unfolding counting_def wsum_worker[OF i] wsum_update[OF ws i] w[symmetric] by auto
  moreover have "unwritten items ?s' = unwritten items s" "written ?s' = written s"
    by (simp_all add: unwritten_def written_def)
  moreover have "\<forall>v \<in> set (pl_workers ?s'). \<forall>t' o'. wk_pc v = W_write t' o' \<longrightarrow> wo_item o' = snd t' \<and> outcome_good X ctx o'"
    unfolding ws by (rule writers_update[OF core_writers[OF core]]) (use pc' in auto)
  ultimately show ?thesis using core by (simp add: pool_core_def)
qed

lemma execute_miss_panic:
  "execute_miss X ctx wi c = Inl p \<Longrightarrow> ref_eval X ctx (wi_x wi) (wi_phi wi) = Inl p"
proof -
  assume e: "execute_miss X ctx wi c = Inl p"
  then obtain xr where x: "mesh_to_real_aniso X (wi_x wi) (cx_base_steps ctx) = Some xr"
    by (auto simp: execute_miss_def split: option.splits)
  show ?thesis
  proof (cases "compute_estimates (cx_evaluator ctx) xr (wi_phi wi) (cx_env ctx)")
    case (Inl q)
    then show ?thesis using e x by (simp add: execute_miss_def ref_eval_def)
  next
    case (Inr r)
    then show ?thesis using e x by (cases r) (simp_all add: execute_miss_def)
  qed
qed

lemma worker_core:
  assumes core: "pool_core X ctx items s" and i: "i < length (pl_workers s)"
    and env: "\<forall>wi \<in> set items. wi_env_rev wi = cx_env_rev ctx"
    and step: "worker_next X ctx (length items) i s = Some s'"
  shows "pool_core X ctx items s'"
proof -
  define w where "w = pl_workers s ! i"
  note move = core_goto[OF core i w_def]
  note sound = core_sound[OF core]
  have task: "wi_env_rev (snd t) = cx_env_rev ctx" if "t \<in> set (pc_task (wk_pc w))" for t
  proof -
    have "items ! fst t = snd t" "fst t < length items" using pending_mem[OF core i] that by (auto simp: w_def)
    then show ?thesis using env by (metis nth_mem)
  qed
  show ?thesis
  proof (cases "wk_pc w")
    case W_top
    show ?thesis
    proof (cases "wk_local w")
      case Nil
      then show ?thesis using step W_top by (auto simp: worker_next_def Let_def sound simp flip: w_def intro!: move)
    next
      case (Cons t ts)
      then have "s' = set_worker i \<lparr>wk_local = ts, wk_pc = W_decision t\<rparr> s"
        using step W_top by (simp add: worker_next_def Let_def flip: w_def)
      then show ?thesis
        by (intro core_move[OF core i, where w' = "\<lparr>wk_local = ts, wk_pc = W_decision t\<rparr>"])
          (use W_top Cons sound in \<open>simp_all add: worker_tasks_def flip: w_def\<close>)
    qed
  next
    case W_lock
    then show ?thesis using step core_drain[OF core i w_def]
      by (simp add: worker_next_def Let_def split: if_splits flip: w_def)
  next
    case W_check
    then show ?thesis using step
      by (auto simp: worker_next_def Let_def sound simp flip: w_def split: if_splits intro!: move)
  next
    case W_park
    then show ?thesis using step by (auto simp: worker_next_def Let_def sound simp flip: w_def intro!: move)
  next
    case (W_decision t)
    show ?thesis
    proof (cases "decision_cache_get (ch_decision (pl_caches s)) (item_dkey ctx (snd t))")
      case None
      then show ?thesis using step W_decision by (auto simp: worker_next_def Let_def sound simp flip: w_def intro!: move)
    next
      case (Some v)
      have "outcome_good X ctx (outcome_decision_hit (snd t) v)"
        using decision_hit_fits[OF sound Some] by (simp add: outcome_good_def outcome_matches_def outcome_decision_hit_def)
      then show ?thesis using step W_decision Some
        by (auto simp: worker_next_def Let_def sound outcome_decision_hit_def simp flip: w_def intro!: move)
    qed
  next
    case (W_eval t)
    show ?thesis
    proof (cases "eval_cache_get (ch_eval (pl_caches s)) (item_ekey (snd t))")
      case None
      then show ?thesis using step W_eval by (auto simp: worker_next_def Let_def sound simp flip: w_def intro!: move)
    next
      case (Some est)
      have "outcome_good X ctx (outcome_eval_hit (snd t) est)"
        using eval_hit_ref[OF sound task Some] W_eval by (simp add: outcome_good_def outcome_matches_def outcome_eval_hit_def)
      then show ?thesis using step W_eval Some
        by (auto simp: worker_next_def Let_def sound outcome_eval_hit_def simp flip: w_def intro!: move)
    qed
  next
    case (W_compute t)
    show ?thesis
    proof (cases "execute_miss X ctx (snd t) (pl_caches s)")
      case (Inl p)
      then have "outcome_good X ctx (outcome_panicked (snd t))"
        using execute_miss_panic[OF Inl] by (auto simp: outcome_good_def outcome_panicked_def)
      then show ?thesis using step W_compute Inl
        by (auto simp: worker_next_def Let_def sound outcome_panicked_def simp flip: w_def intro!: move)
    next
      case (Inr r)
      obtain out c where r: "r = (out, c)" by (cases r)
      have "wo_item out = snd t \<and> outcome_matches X ctx out \<and> caches_sound X ctx c"
        using execute_miss_ok[OF sound] Inr r by blast
      then show ?thesis using step W_compute Inr r
        by (auto simp: worker_next_def Let_def outcome_good_def simp flip: w_def intro!: move)
    qed
  next
    case (W_write t out)
    then show ?thesis using step core_write[OF core i w_def W_write] by (simp add: worker_next_def Let_def flip: w_def)
  next
    case W_count
    then show ?thesis
      using step core_count[OF core i w_def W_count, of W_top] core_count[OF core i w_def W_count, of W_notify]
      by (simp add: worker_next_def Let_def split: if_splits flip: w_def)
  next
    case W_notify
    then show ?thesis using step
      by (auto simp: worker_next_def Let_def sound simp flip: w_def split: if_splits intro!: move)
  qed (use step in \<open>simp_all add: worker_next_def Let_def flip: w_def\<close>)
qed

lemma wake_worker_sel [simp]: "wk_local (wake_worker w) = wk_local w" "worker_tasks (wake_worker w) = worker_tasks w"
  "wk_pc (wake_worker w) = W_count \<longleftrightarrow> wk_pc w = W_count"
  "wk_pc (wake_worker w) = W_write t out \<longleftrightarrow> wk_pc w = W_write t out"
  by (auto simp: wake_worker_def worker_tasks_def)

lemma frame_sel [simp]:
  "wsum f (s\<lparr>pl_main := pc\<rparr>) = wsum f s" "wsum f (s\<lparr>pl_chunk := k\<rparr>) = wsum f s"
  "wsum f (s\<lparr>pl_shutdown := b\<rparr>) = wsum f s" "wsum f (s\<lparr>pl_queue := q\<rparr>) = wsum f s"
  "pending (s\<lparr>pl_main := pc\<rparr>) = pending s" "pending (s\<lparr>pl_chunk := k\<rparr>) = pending s"
  "pending (s\<lparr>pl_shutdown := b\<rparr>) = pending s"
  "counting (s\<lparr>pl_main := pc\<rparr>) = counting s" "counting (s\<lparr>pl_chunk := k\<rparr>) = counting s"
  "counting (s\<lparr>pl_shutdown := b\<rparr>) = counting s" "counting (s\<lparr>pl_queue := q\<rparr>) = counting s"
  "unwritten items (s\<lparr>pl_main := pc\<rparr>) = unwritten items s" "unwritten items (s\<lparr>pl_chunk := k\<rparr>) = unwritten items s"
  "unwritten items (s\<lparr>pl_shutdown := b\<rparr>) = unwritten items s" "unwritten items (s\<lparr>pl_queue := q\<rparr>) = unwritten items s"
  "written (s\<lparr>pl_main := pc\<rparr>) = written s" "written (s\<lparr>pl_chunk := k\<rparr>) = written s"
  "written (s\<lparr>pl_shutdown := b\<rparr>) = written s" "written (s\<lparr>pl_queue := q\<rparr>) = written s"
  by (simp_all add: wsum_def pending_def counting_def unwritten_def written_def)

lemma wake_frame [simp]: "pending (wake_all s) = pending s" "counting (wake_all s) = counting s"
  "unwritten items (wake_all s) = unwritten items s" "written (wake_all s) = written s"
  by (simp_all add: wsum_def pending_def counting_def unwritten_def written_def wake_all_def comp_def)

lemma core_main:
  assumes core: "pool_core X ctx items s" and main: "pl_main s \<in> {M_start, M_push} \<longleftrightarrow> pc \<in> {M_start, M_push}"
  shows "pool_core X ctx items (s\<lparr>pl_main := pc\<rparr>)"
  using assms by (auto simp: pool_core_def split: if_splits)

lemma core_wake: "pool_core X ctx items s \<Longrightarrow> pool_core X ctx items (wake_all s)"
  by (simp add: pool_core_def) (auto simp: wake_all_def)

lemma pcore_frame: "pool_core X ctx items s \<Longrightarrow> pool_core X ctx items (s\<lparr>pl_chunk := c\<rparr>)"
  "pool_core X ctx items s \<Longrightarrow> pool_core X ctx items (s\<lparr>pl_shutdown := b\<rparr>)"
  by (simp_all add: pool_core_def)

lemma core_push:
  assumes core: "pool_core X ctx items s" and main: "pl_main s = M_push"
  shows "pool_core X ctx items (s\<lparr>pl_queue := pl_queue s @ enumerate 0 items, pl_main := M_wake\<rparr>)"
proof -
  have p: "pending s = {#}" "set (pl_slots s) \<subseteq> {None}" "length (pl_slots s) = length items"
    using core main by (simp_all add: pool_core_def)
  have "pl_slots s ! i = None" if "i < length items" for i
    using p(2,3) nth_mem[of i "pl_slots s"] that by (metis subsetD singletonD)
  then have "filter (\<lambda>t. pl_slots s ! fst t = None) (enumerate 0 items) = enumerate 0 items"
    by (intro filter_True) (auto simp: in_set_enumerate_eq)
  then have "unwritten items s = mset (enumerate 0 items)" by (simp add: unwritten_def)
  with core p(1) show ?thesis
    by (simp add: pool_core_def main pending_def[of "s\<lparr>pl_queue := q, pl_main := pc\<rparr>" for q pc])
      (simp add: pending_def)
qed

lemma core_empty_batch:
  assumes "pool_core X ctx [] s"
  shows "pool_core X ctx [] (s\<lparr>pl_main := pc\<rparr>)"
proof -
  have "unwritten [] s = {#}" by (simp add: unwritten_def)
  then show ?thesis using assms by (auto simp: pool_core_def split: if_splits)
qed

lemma main_inv:
  assumes inv: "pool_inv X ctx items s" and step: "main_next ps items s = Some s'"
  shows "pool_inv X ctx items s'"
proof -
  have core: "pool_core X ctx items s" using inv by (simp add: pool_inv_def)
  have len: "length (pl_slots s) = length items" using core by (simp add: pool_core_def)
  show ?thesis
  proof (cases "pl_main s")
    case M_start
    show ?thesis
    proof (cases items)
      case Nil
      then have "s' = s\<lparr>pl_main := M_returned []\<rparr>" using step M_start by (simp add: main_defs)
      moreover have "pool_core X ctx items (s\<lparr>pl_main := M_returned []\<rparr>)"
        using core_empty_batch core Nil by simp
      ultimately show ?thesis using Nil by (simp add: pool_inv_def)
    next
      case (Cons a list)
      then have "s' = s\<lparr>pl_chunk := chunk_eff (xp_chunk_base ps) (length items) (length (pl_workers s)), pl_main := M_push\<rparr>"
        using step M_start by (simp add: main_defs)
      then show ?thesis using core_main[OF pcore_frame(1)[OF core], of _ M_push] M_start by (simp add: pool_inv_def)
    qed
  next
    case M_push
    then show ?thesis using step core_push[OF core] by (auto simp: main_defs pool_inv_def split: if_splits)
  next
    case M_wake
    then show ?thesis using step core_main[OF core_wake[OF core], of "M_spin 0"]
      by (auto simp: main_defs pool_inv_def wake_all_def)
  next
    case (M_spin k)
    then show ?thesis using step core_main[OF core, of "M_spin (Suc k)"] core_main[OF core, of M_check]
      by (auto simp: main_defs pool_inv_def split: if_splits)
  next
    case M_check
    then show ?thesis using step core_main[OF core, of M_locked] core_main[OF core, of M_collect] all_written[OF core]
      by (auto simp: main_defs pool_inv_def split: if_splits)
  next
    case M_locked
    then show ?thesis using step core_main[OF core, of M_park] core_main[OF core, of M_collect] all_written[OF core]
      by (auto simp: main_defs pool_inv_def split: if_splits)
  next
    case M_park
    then show ?thesis using step core_main[OF core, of M_asleep] by (auto simp: main_defs pool_inv_def)
  next
    case M_collect
    then have full: "None \<notin> set (pl_slots s)" using inv by (simp add: pool_inv_def)
    let ?outs = "map the (pl_slots s)"
    have at: "pl_slots s ! i = Some (?outs ! i)" if "i < length items" for i
      using full len that nth_mem[of i "pl_slots s"] by (cases "pl_slots s ! i") auto
    then have "wo_item (?outs ! i) = items ! i \<and> outcome_good X ctx (?outs ! i)" if "i < length items" for i
      using core that unfolding pool_core_def by blast
    then have "map wo_item ?outs = items" "\<forall>out \<in> set ?outs. outcome_good X ctx out"
      using len by (auto simp: in_set_conv_nth intro!: nth_equalityI)
    moreover have "s' = s\<lparr>pl_main := M_returned ?outs\<rparr>" using step M_collect full by (simp add: main_defs)
    ultimately show ?thesis using core_main[OF core, of "M_returned ?outs"] M_collect by (simp add: pool_inv_def)
  next
    case (M_returned outs)
    then show ?thesis using step core_main[OF pcore_frame(2)[OF core], of True M_shut] core_main[OF core, of M_dropped]
      by (auto simp: main_defs pool_inv_def split: if_splits)
  next
    case M_shut
    then show ?thesis using step core_main[OF core_wake[OF core], of M_join]
      by (auto simp: main_defs pool_inv_def wake_all_def)
  next
    case M_join
    then show ?thesis using step core_main[OF core, of M_dropped]
      by (auto simp: main_defs pool_inv_def split: if_splits)
  qed (use step in \<open>simp_all add: main_defs\<close>)
qed

lemma worker_frame:
  assumes "worker_next X ctx n i s = Some s'"
  shows "pl_main s' = pl_main s \<or> pl_main s = M_asleep \<and> pl_main s' = M_locked"
    and "None \<notin> set (pl_slots s) \<Longrightarrow> None \<notin> set (pl_slots s')"
proof -
  have "(pl_main s' = pl_main s \<or> pl_main s = M_asleep \<and> pl_main s' = M_locked)
      \<and> (pl_slots s' = pl_slots s \<or> (\<exists>k out. pl_slots s' = (pl_slots s)[k := Some out]))"
    using assms unfolding worker_next_def Let_def worker_drain_def
    by (cases "wk_pc (pl_workers s ! i)"; auto split: option.splits list.splits sum.splits if_splits prod.splits; blast)
  then show "pl_main s' = pl_main s \<or> pl_main s = M_asleep \<and> pl_main s' = M_locked"
    "None \<notin> set (pl_slots s) \<Longrightarrow> None \<notin> set (pl_slots s')"
    using set_update_subset_insert by fastforce+
qed

lemma main_ok_cong: "main_ok X ctx items s pc \<Longrightarrow> (None \<notin> set (pl_slots s) \<Longrightarrow> None \<notin> set (pl_slots s')) \<Longrightarrow>
  main_ok X ctx items s' pc"
  by (cases pc) auto

lemma step_inv:
  assumes "pool_step X ctx ps items sp s s'" "pool_inv X ctx items s"
    and env: "\<forall>wi \<in> set items. wi_env_rev wi = cx_env_rev ctx"
  shows "pool_inv X ctx items s'"
  using assms(1)
proof cases
  case (worker i)
  have "main_ok X ctx items s' (pl_main s')"
    using assms(2) worker_frame[OF worker(2)] main_ok_cong[of X ctx items s "pl_main s" s']
    by (auto simp: pool_inv_def)
  then show ?thesis using worker_core[OF _ worker(1) env worker(2)] assms(2) by (simp add: pool_inv_def)
next
  case main
  then show ?thesis by (rule main_inv[OF assms(2)])
next
  case (spurious_worker i)
  have "pool_core X ctx items s'" unfolding spurious_worker(1)
    by (rule core_goto[OF _ spurious_worker(3) refl]) (use assms(2) core_sound[of X ctx items s] spurious_worker(4) in \<open>simp_all add: pool_inv_def\<close>)
  then show ?thesis using assms(2) main_ok_cong[of X ctx items s "pl_main s" s'] by (simp add: pool_inv_def spurious_worker(1))
next
  case spurious_main
  then show ?thesis using assms(2) core_main[of X ctx items s M_locked] by (simp add: pool_inv_def)
qed

lemma init_inv:
  assumes "pool_init W c items s" "caches_sound X ctx c"
  shows "pool_inv X ctx items s"
proof -
  have w: "wk_local w = [] \<and> pc_task (wk_pc w) = [] \<and> wk_pc w \<noteq> W_count \<and> (\<forall>t out. wk_pc w \<noteq> W_write t out)"
    if "w \<in> set (pl_workers s)" for w
    using assms(1) that by (auto simp: pool_init_def)
  then have m: "map worker_tasks (pl_workers s) = map (\<lambda>_. {#}) (pl_workers s)"
    "map (\<lambda>w. if wk_pc w = W_count then 1 else 0) (pl_workers s) = map (\<lambda>_. 0 :: nat) (pl_workers s)"
    by (auto simp: worker_tasks_def)
  have "pending s = {#}" "counting s = 0"
    using assms(1) unfolding pending_def counting_def wsum_def m by (simp_all add: pool_init_def sum_list_triv)
  moreover have "written s = 0" using assms(1) by (simp add: written_def pool_init_def)
  ultimately show ?thesis using assms w by (auto simp: pool_inv_def pool_core_def pool_init_def)
qed

lemma reach_inv:
  assumes "pool_reach X ctx ps items sp s0 s" "pool_init W c items s0" "caches_sound X ctx c"
    and "\<forall>wi \<in> set items. wi_env_rev wi = cx_env_rev ctx"
  shows "pool_inv X ctx items s"
  using assms(1) by induction (use init_inv[OF assms(2,3)] step_inv assms(4) in blast)+

subsection \<open>Safety and refinement\<close>

text \<open>
  C6: the unsafe read is safe. Under every interleaving, spurious wakeups and panicking evaluations included, the engine
  thread never reads an uninitialised slot; when \<open>run_batch\<close> returns it has one outcome per item in submission order,
  each of them what the black box says about the item, or the empty outcome when the black box panics on it.
\<close>

theorem pool_batch_safe:
  assumes "pool_init W c items s0" "caches_sound X ctx c" "\<forall>wi \<in> set items. wi_env_rev wi = cx_env_rev ctx"
    and "pool_reach X ctx ps items sp s0 s"
  shows "pl_main s \<noteq> M_undefined \<and> pl_done s \<le> length items \<and> caches_sound X ctx (pl_caches s)
    \<and> (case pl_main s of M_returned outs \<Rightarrow> map wo_item outs = items \<and> list_all (outcome_good X ctx) outs | _ \<Rightarrow> True)"
proof -
  have inv: "pool_inv X ctx items s" by (rule reach_inv[OF assms(4,1,2,3)])
  then have "pl_done s \<le> written s" "length (pl_slots s) = length items" by (simp_all add: pool_inv_def pool_core_def)
  moreover have "written s \<le> length (pl_slots s)" by (simp add: written_def)
  ultimately show ?thesis using inv by (cases "pl_main s") (auto simp: pool_inv_def pool_core_def list_all_iff)
qed

text \<open>
  C5: the worker pool refines the inline executor. When the black box does not panic, a batch that returns from the pool
  has the items and the values of the batch run inline from the same caches, whatever the interleaving.
\<close>

theorem pool_refines_inline:
  assumes "pool_init W c items s0" "caches_sound X ctx c" "\<forall>wi \<in> set items. wi_env_rev wi = cx_env_rev ctx"
    and "evaluator_total (cx_evaluator ctx)" "pool_reach X ctx ps items sp s0 s" "pl_main s = M_returned outs"
  shows "\<exists>outs' c'. run_batch_inline X ctx items c = Inr (outs', c') \<and> map wo_item outs' = map wo_item outs
    \<and> map outcome_values outs' = map outcome_values outs"
proof -
  have inv: "pool_inv X ctx items s" by (rule reach_inv[OF assms(5,1,2,3)])
  then have outs: "map wo_item outs = items" "\<forall>out \<in> set outs. outcome_good X ctx out"
    by (simp_all add: pool_inv_def assms(6))
  obtain outs' c' where inl: "run_batch_inline X ctx items c = Inr (outs', c')" "map wo_item outs' = items"
    "\<forall>out \<in> set outs'. outcome_matches X ctx out" using inline_batch_correct[OF assms(4,2,3)] by blast
  have "outcome_values a = outcome_values b" if ab: "(a, b) \<in> set (zip outs' outs)" for a b
  proof -
    have len: "length outs' = length outs" using inl(2) outs(1) by (metis length_map)
    obtain k where k: "k < length outs" "a = outs' ! k" "b = outs ! k" using ab by (auto simp: in_set_zip)
    have same: "wo_item a = wo_item b" "wo_item b \<in> set items"
      using inl(2) outs(1) k len by (metis nth_map, metis length_map nth_map nth_mem)
    have "a \<in> set outs'" "b \<in> set outs" using ab set_zip_leftD set_zip_rightD by metis+
    then have "outcome_matches X ctx a" "outcome_good X ctx b" using inl(3) outs(2) by auto
    moreover have "outcome_matches X ctx b"
      using \<open>outcome_good X ctx b\<close> ref_eval_total[OF assms(4)] unfolding outcome_good_def by (metis Inl_Inr_False)
    ultimately show ?thesis using same assms(3) outcome_values_ref[of X ctx a] outcome_values_ref[of X ctx b] by auto
  qed
  moreover have "length outs' = length outs" using inl(2) outs(1) by (metis length_map)
  ultimately have "map outcome_values outs' = map outcome_values outs"
    by (intro nth_equalityI) (auto simp: in_set_zip)
  with inl outs show ?thesis by auto
qed

end
