(* ===== verification/Pool_Liveness.thy ===== *)
theory Pool_Liveness
  imports Pool
begin

text \<open>
  When does the worker pool of \<open>core/executor.rs\<close> get stuck? Explicit traces of a pool with one worker show a batch
  that returns, a batch whose completion signal is lost (the worker notifies between the engine thread's test of the
  counter and its wait, which the worker can do because it does not take the sink's mutex). An invariant on the sleeping
  threads shows that this is the only way. After the batch the pool is left with its workers asleep for ever: every
  worker owns a reference to the shared state, so that \<open>Drop\<close> never sees the last one and never asks them to stop.
\<close>

subsection \<open>Traces of one worker\<close>

text \<open>The states of a pool with one worker whose ring is empty, and a batch of one item.\<close>

definition solo :: "main_pc \<Rightarrow> worker_pc \<Rightarrow> task list \<Rightarrow> nat option \<Rightarrow> bool \<Rightarrow> caches \<Rightarrow> work_outcome option \<Rightarrow> nat \<Rightarrow> nat \<Rightarrow> pool" where
  "solo m pc q lk sh c slot d ch = \<lparr>pl_queue = q, pl_qlock = lk, pl_chunk = ch, pl_shutdown = sh,
     pl_workers = [\<lparr>wk_local = [], wk_pc = pc\<rparr>], pl_caches = c, pl_done = d, pl_slots = [slot], pl_main = m\<rparr>"

lemma solo_fresh: "pool_fresh 1 c [wi] = solo M_start W_top [] None False c None 0 1"
  by (simp add: pool_fresh_def solo_def)

lemma solo_worker: "worker_next X ctx 1 0 (solo m pc q lk sh c slot d ch) = Some s' \<Longrightarrow>
  pool_step X ctx ps [wi] sp (solo m pc q lk sh c slot d ch) s'"
  by (rule pool_step.worker[of 0]) (simp_all add: solo_def)

lemma solo_main: "main_next ps [wi] (solo m pc q lk sh c slot d ch) = Some s' \<Longrightarrow>
  pool_step X ctx ps [wi] sp (solo m pc q lk sh c slot d ch) s'"
  by (rule pool_step.main)

lemmas solo_simps = solo_def worker_next_def main_defs worker_drain_def set_worker_def wake_all_def
  wake_worker_def chunk_eff_def div_ceil_def enumerate_eq_zip

lemma trace_dispatch:
  "pool_reach X ctx ps [wi] sp (pool_fresh 1 c [wi]) (solo (M_spin 0) W_top [(0, wi)] None False c None 0 1)"
proof -
  have "pool_step X ctx ps [wi] sp (solo M_start W_top [] None False c None 0 1) (solo M_push W_top [] None False c None 0 1)"
    by (rule solo_main) (simp add: solo_simps)
  moreover have "pool_step X ctx ps [wi] sp (solo M_push W_top [] None False c None 0 1)
      (solo M_wake W_top [(0, wi)] None False c None 0 1)" by (rule solo_main) (simp add: solo_simps)
  moreover have "pool_step X ctx ps [wi] sp (solo M_wake W_top [(0, wi)] None False c None 0 1)
      (solo (M_spin 0) W_top [(0, wi)] None False c None 0 1)" by (rule solo_main) (simp add: solo_simps)
  ultimately show ?thesis unfolding solo_fresh by (meson r_into_rtranclp rtranclp.rtrancl_into_rtrancl)
qed

lemma trace_spin: "k \<le> xp_spin_limit ps \<Longrightarrow>
  pool_reach X ctx ps [wi] sp (solo (M_spin k) W_top q None False c None 0 1) (solo M_check W_top q None False c None 0 1)"
proof (induction "xp_spin_limit ps - k" arbitrary: k)
  case 0
  then have "main_next ps [wi] (solo (M_spin k) W_top q None False c None 0 1) = Some (solo M_check W_top q None False c None 0 1)"
    by (simp add: solo_simps)
  then show ?case by (intro r_into_rtranclp solo_main)
next
  case (Suc n)
  then have "main_next ps [wi] (solo (M_spin k) W_top q None False c None 0 1) = Some (solo (M_spin (Suc k)) W_top q None False c None 0 1)"
    by (simp add: solo_simps)
  moreover have "pool_reach X ctx ps [wi] sp (solo (M_spin (Suc k)) W_top q None False c None 0 1) (solo M_check W_top q None False c None 0 1)"
    using Suc by auto
  ultimately show ?case by (meson converse_rtranclp_into_rtranclp solo_main)
qed

lemma trace_execute: "\<exists>out c'. pool_reach X ctx ps [wi] sp (solo m (W_decision (0, wi)) [] None sh c None 0 1)
  (solo m (W_write (0, wi) out) [] None sh c' None 0 1)"
proof -
  let ?at = "\<lambda>pc c'. solo m pc [] None sh c' None 0 1"
  note w = solo_worker[of X ctx m _ "[]" None sh _ None 0 1]
  have "\<exists>out c'. pool_reach X ctx ps [wi] sp (?at (W_compute (0, wi)) c) (?at (W_write (0, wi) out) c')"
  proof (cases "execute_miss X ctx wi c")
    case (Inl p)
    then have "pool_step X ctx ps [wi] sp (?at (W_compute (0, wi)) c) (?at (W_write (0, wi) (outcome_panicked wi)) c)"
      by (intro w) (simp add: solo_simps)
    then show ?thesis by blast
  next
    case (Inr r)
    then have "pool_step X ctx ps [wi] sp (?at (W_compute (0, wi)) c) (?at (W_write (0, wi) (fst r)) (snd r))"
      by (intro w) (simp add: solo_simps split: prod.split)
    then show ?thesis by blast
  qed
  then obtain out c' where comp: "pool_reach X ctx ps [wi] sp (?at (W_compute (0, wi)) c) (?at (W_write (0, wi) out) c')" by blast
  show ?thesis
  proof (cases "decision_cache_get (ch_decision c) (item_dkey ctx wi)")
    case (Some v)
    then have "pool_step X ctx ps [wi] sp (?at (W_decision (0, wi)) c) (?at (W_write (0, wi) (outcome_decision_hit wi v)) c)"
      by (intro w) (simp add: solo_simps)
    then show ?thesis by blast
  next
    case None
    then have d: "pool_step X ctx ps [wi] sp (?at (W_decision (0, wi)) c) (?at (W_eval (0, wi)) c)"
      by (intro w) (simp add: solo_simps)
    show ?thesis
    proof (cases "eval_cache_get (ch_eval c) (item_ekey wi)")
      case (Some est)
      then have "pool_step X ctx ps [wi] sp (?at (W_eval (0, wi)) c) (?at (W_write (0, wi) (outcome_eval_hit wi est)) c)"
        by (intro w) (simp add: solo_simps)
      with d show ?thesis by (meson converse_rtranclp_into_rtranclp r_into_rtranclp)
    next
      case None
      then have "pool_step X ctx ps [wi] sp (?at (W_eval (0, wi)) c) (?at (W_compute (0, wi)) c)"
        by (intro w) (simp add: solo_simps)
      with d comp show ?thesis by (meson converse_rtranclp_into_rtranclp)
    qed
  qed
qed

text \<open>The worker takes the item, executes it, counts it and is about to notify.\<close>

lemma trace_work: "\<exists>out c'. pool_reach X ctx ps [wi] sp (solo m W_top [(0, wi)] None sh c None 0 1)
  (solo m W_notify [] None sh c' (Some out) 1 1)"
proof -
  note w = solo_worker
  have "pool_step X ctx ps [wi] sp (solo m W_top [(0, wi)] None sh c None 0 1) (solo m W_lock [(0, wi)] None sh c None 0 1)"
    by (rule w) (simp add: solo_simps)
  moreover have "pool_step X ctx ps [wi] sp (solo m W_lock [(0, wi)] None sh c None 0 1) (solo m (W_decision (0, wi)) [] None sh c None 0 1)"
    by (rule w) (simp add: solo_simps)
  moreover obtain out c' where "pool_reach X ctx ps [wi] sp (solo m (W_decision (0, wi)) [] None sh c None 0 1)
      (solo m (W_write (0, wi) out) [] None sh c' None 0 1)" using trace_execute by blast
  moreover have "pool_step X ctx ps [wi] sp (solo m (W_write (0, wi) out) [] None sh c' None 0 1) (solo m W_count [] None sh c' (Some out) 0 1)"
    by (rule w) (simp add: solo_simps)
  moreover have "pool_step X ctx ps [wi] sp (solo m W_count [] None sh c' (Some out) 0 1) (solo m W_notify [] None sh c' (Some out) 1 1)"
    by (rule w) (simp add: solo_simps)
  ultimately show ?thesis by (meson converse_rtranclp_into_rtranclp rtranclp.rtrancl_into_rtrancl)
qed

text \<open>An idle worker that finds nothing to do goes to sleep.\<close>

lemma trace_sleep: "pool_reach X ctx ps [wi] sp (solo m W_top [] None False c sl d 1) (solo m W_asleep [] None False c sl d 1)"
proof -
  have "pool_step X ctx ps [wi] sp (solo m W_top [] None False c sl d 1) (solo m W_lock [] None False c sl d 1)"
    by (rule solo_worker) (simp add: solo_simps)
  moreover have "pool_step X ctx ps [wi] sp (solo m W_lock [] None False c sl d 1) (solo m W_check [] (Some 0) False c sl d 1)"
    by (rule solo_worker) (simp add: solo_simps)
  moreover have "pool_step X ctx ps [wi] sp (solo m W_check [] (Some 0) False c sl d 1) (solo m W_park [] (Some 0) False c sl d 1)"
    by (rule solo_worker) (simp add: solo_simps)
  moreover have "pool_step X ctx ps [wi] sp (solo m W_park [] (Some 0) False c sl d 1) (solo m W_asleep [] None False c sl d 1)"
    by (rule solo_worker) (simp add: solo_simps)
  ultimately show ?thesis by (meson converse_rtranclp_into_rtranclp r_into_rtranclp)
qed

lemma trace_check: "pool_reach X ctx ps [wi] sp (pool_fresh 1 c [wi]) (solo M_check W_top [(0, wi)] None False c None 0 1)"
  by (rule rtranclp_trans[OF trace_dispatch trace_spin]) simp

lemma trace_return:
  "\<exists>out c'. pool_reach X ctx ps [wi] sp (pool_fresh 1 c [wi]) (solo (M_returned [out]) W_notify [] None False c' (Some out) 1 1)"
proof -
  obtain out c' where work: "pool_reach X ctx ps [wi] sp (solo M_check W_top [(0, wi)] None False c None 0 1)
      (solo M_check W_notify [] None False c' (Some out) 1 1)" using trace_work by blast
  have "pool_step X ctx ps [wi] sp (solo M_check W_notify [] None False c' (Some out) 1 1)
      (solo M_collect W_notify [] None False c' (Some out) 1 1)" by (rule solo_main) (simp add: solo_simps)
  moreover have "pool_step X ctx ps [wi] sp (solo M_collect W_notify [] None False c' (Some out) 1 1)
      (solo (M_returned [out]) W_notify [] None False c' (Some out) 1 1)" by (rule solo_main) (simp add: solo_simps)
  ultimately show ?thesis
    using rtranclp_trans[OF trace_check work] by (meson rtranclp.rtrancl_into_rtrancl)
qed

definition stuck :: "extern \<Rightarrow> exec_ctx \<Rightarrow> exec_params \<Rightarrow> work_item list \<Rightarrow> pool \<Rightarrow> bool" where
  "stuck X ctx ps items s \<longleftrightarrow> \<not> (\<exists>s'. pool_step X ctx ps items False s s')"

lemma solo_stuck: "main_next ps [wi] (solo m W_asleep q lk sh c sl d ch) = None \<Longrightarrow>
  stuck X ctx ps [wi] (solo m W_asleep q lk sh c sl d ch)"
  unfolding stuck_def by (auto elim!: pool_stepE simp: solo_def worker_next_def)

lemma lost_completion:
  "\<exists>s. pool_reach X ctx ps [wi] False (pool_fresh 1 c [wi]) s \<and> pl_main s = M_asleep \<and> pl_done s = 1
     \<and> None \<notin> set (pl_slots s) \<and> stuck X ctx ps [wi] s"
proof -
  have "pool_step X ctx ps [wi] False (solo M_check W_top [(0, wi)] None False c None 0 1)
      (solo M_locked W_top [(0, wi)] None False c None 0 1)" by (rule solo_main) (simp add: solo_simps)
  moreover have "pool_step X ctx ps [wi] False (solo M_locked W_top [(0, wi)] None False c None 0 1)
      (solo M_park W_top [(0, wi)] None False c None 0 1)" by (rule solo_main) (simp add: solo_simps)
  ultimately have park: "pool_reach X ctx ps [wi] False (pool_fresh 1 c [wi]) (solo M_park W_top [(0, wi)] None False c None 0 1)"
    using trace_check by (meson rtranclp.rtrancl_into_rtrancl)
  obtain out c' where work: "pool_reach X ctx ps [wi] False (solo M_park W_top [(0, wi)] None False c None 0 1)
      (solo M_park W_notify [] None False c' (Some out) 1 1)" using trace_work by blast
  have "pool_step X ctx ps [wi] False (solo M_park W_notify [] None False c' (Some out) 1 1)
      (solo M_park W_top [] None False c' (Some out) 1 1)" by (rule solo_worker) (simp add: solo_simps)
  moreover have "pool_step X ctx ps [wi] False (solo M_park W_top [] None False c' (Some out) 1 1)
      (solo M_asleep W_top [] None False c' (Some out) 1 1)" by (rule solo_main) (simp add: solo_simps)
  ultimately have "pool_reach X ctx ps [wi] False (pool_fresh 1 c [wi]) (solo M_asleep W_top [] None False c' (Some out) 1 1)"
    using rtranclp_trans[OF park work] by (meson rtranclp.rtrancl_into_rtrancl)
  then have "pool_reach X ctx ps [wi] False (pool_fresh 1 c [wi]) (solo M_asleep W_asleep [] None False c' (Some out) 1 1)"
    using trace_sleep by (meson rtranclp_trans)
  moreover have "stuck X ctx ps [wi] (solo M_asleep W_asleep [] None False c' (Some out) 1 1)"
    by (rule solo_stuck) (simp add: solo_simps)
  ultimately show ?thesis by (intro exI[of _ "solo M_asleep W_asleep [] None False c' (Some out) 1 1"]) (simp add: solo_def)
qed

text \<open>
  C14: completion can be lost. For every item, every cache state and every spin limit, a pool with one worker can reach a
  state in which the batch is complete (the item is executed, its slot written and counted) but \<open>run_batch\<close> waits for a
  notification that has already been sent, and no thread can move again.
\<close>

theorem completion_wakeup_lost:
  "\<exists>s. pool_reach X ctx ps [wi] False (pool_fresh 1 c [wi]) s \<and> pl_main s = M_asleep \<and> pl_done s = 1
     \<and> None \<notin> set (pl_slots s) \<and> stuck X ctx ps [wi] s"
  by (rule lost_completion)

theorem pool_batch_safe_witness:
  "\<exists>s out. pool_reach extern0 ctx_demo exec_params_default [item_demo 1] False (pool_fresh 1 caches_empty [item_demo 1]) s
     \<and> pl_main s = M_returned [out] \<and> wo_item out = item_demo 1"
proof -
  obtain out c' where r: "pool_reach extern0 ctx_demo exec_params_default [item_demo 1] False
      (pool_fresh 1 caches_empty [item_demo 1]) (solo (M_returned [out]) W_notify [] None False c' (Some out) 1 1)"
    using trace_return by blast
  have "\<forall>wi \<in> set [item_demo 1]. wi_env_rev wi = cx_env_rev ctx_demo" by (simp add: ctx_demo_def item_demo_def)
  from pool_batch_safe[OF pool_fresh_init caches_empty_sound this r] have "wo_item out = item_demo 1"
    by (simp add: solo_def)
  with r show ?thesis by (intro exI conjI) (auto simp: solo_def)
qed

theorem pool_refines_inline_witness:
  "\<exists>s out outs' c'. pool_reach extern0 ctx_demo exec_params_default [item_demo 1] False (pool_fresh 1 caches_empty [item_demo 1]) s
     \<and> pl_main s = M_returned [out] \<and> run_batch_inline extern0 ctx_demo [item_demo 1] caches_empty = Inr (outs', c')
     \<and> map outcome_values outs' = [outcome_values out]"
proof -
  obtain out c' where r: "pool_reach extern0 ctx_demo exec_params_default [item_demo 1] False
      (pool_fresh 1 caches_empty [item_demo 1]) (solo (M_returned [out]) W_notify [] None False c' (Some out) 1 1)"
    using trace_return by blast
  have er: "\<forall>wi \<in> set [item_demo 1]. wi_env_rev wi = cx_env_rev ctx_demo" by (simp add: ctx_demo_def item_demo_def)
  have ev: "evaluator_total (cx_evaluator ctx_demo)" by (simp add: ctx_demo_def const_evaluator_total)
  have m: "pl_main (solo (M_returned [out]) W_notify [] None False c' (Some out) 1 1) = M_returned [out]"
    by (simp add: solo_def)
  from pool_refines_inline[OF pool_fresh_init caches_empty_sound er ev r m] r m show ?thesis by auto
qed

subsection \<open>The workers outlive the executor\<close>

definition alive :: "pool \<Rightarrow> bool" where
  "alive s \<longleftrightarrow> \<not> pl_shutdown s \<and> pl_main s \<notin> {M_shut, M_join} \<and> pl_workers s \<noteq> []
     \<and> (\<forall>w \<in> set (pl_workers s). wk_pc w \<noteq> W_gone)"

lemma update_mem: "w \<in> set (ws[i := w']) \<Longrightarrow> w = w' \<or> w \<in> set ws"
  using set_update_subset_insert[of ws i w'] by blast

lemma alive_worker: "alive s \<Longrightarrow> worker_next X ctx n i s = Some s' \<Longrightarrow> alive s'"
  unfolding worker_next_def worker_drain_def Let_def
  by (cases "wk_pc (pl_workers s ! i)")
    (auto simp: alive_def dest!: update_mem split: if_splits list.splits option.splits sum.splits)

lemma alive_count: "alive s \<Longrightarrow> strong_count s \<noteq> 1"
  by (cases "pl_workers s") (simp_all add: alive_def strong_count_def)

lemma alive_main:
  assumes "alive s" "main_next ps items s = Some s'"
  shows "alive s'"
proof -
  have "alive (wake_all s)" using assms(1) by (auto simp: alive_def wake_all_def wake_worker_def)
  then show ?thesis using assms alive_count[OF assms(1)]
    by (cases "pl_main s") (auto simp: main_defs alive_def split: if_splits)
qed

lemma reach_alive:
  assumes "pool_reach X ctx ps items sp s0 s" "pool_init W c items s0"
  shows "alive s"
  using assms(1)
proof induction
  case base
  show ?case using assms(2) by (auto simp: alive_def pool_init_def)
next
  case (step s s')
  from step(2) show ?case
  proof cases
    case (worker i)
    then show ?thesis using alive_worker[OF step.IH] by blast
  next
    case main
    then show ?thesis using alive_main[OF step.IH] by blast
  qed (use step.IH in \<open>auto simp: alive_def dest!: update_mem\<close>)
qed

text \<open>
  C16: dropping the executor leaks its threads. Under every interleaving no worker ever ends, the shutdown flag is never
  set, and the drop returns without waking or joining anybody, because each worker holds a reference to the shared state
  and the last drop is recognised by a reference count of one.
\<close>

theorem drop_leaks_workers:
  assumes "pool_init W c items s0" "pool_reach X ctx ps items sp s0 s"
  shows "\<not> pl_shutdown s \<and> pl_main s \<notin> {M_shut, M_join} \<and> (\<forall>i < length (pl_workers s). wk_pc (pl_workers s ! i) \<noteq> W_gone)"
  using reach_alive[OF assms(2,1)] by (simp add: alive_def)

theorem drop_leaks_workers_witness:
  "\<exists>s. pool_reach extern0 ctx_demo exec_params_default [item_demo 1] False (pool_fresh 1 caches_empty [item_demo 1]) s
     \<and> pl_main s = M_dropped \<and> length (pl_workers s) = 1 \<and> wk_pc (pl_workers s ! 0) \<noteq> W_gone"
proof -
  obtain out c' where r: "pool_reach extern0 ctx_demo exec_params_default [item_demo 1] False
      (pool_fresh 1 caches_empty [item_demo 1]) (solo (M_returned [out]) W_notify [] None False c' (Some out) 1 1)"
    using trace_return by blast
  have "pool_step extern0 ctx_demo exec_params_default [item_demo 1] False
      (solo (M_returned [out]) W_notify [] None False c' (Some out) 1 1) (solo M_dropped W_notify [] None False c' (Some out) 1 1)"
    by (rule solo_main) (simp add: solo_simps strong_count_def)
  with r have d: "pool_reach extern0 ctx_demo exec_params_default [item_demo 1] False
      (pool_fresh 1 caches_empty [item_demo 1]) (solo M_dropped W_notify [] None False c' (Some out) 1 1)"
    by (rule rtranclp.rtrancl_into_rtrancl)
  from drop_leaks_workers[OF pool_fresh_init d] have "wk_pc (pl_workers (solo M_dropped W_notify [] None False c' (Some out) 1 1) ! 0) \<noteq> W_gone"
    by (simp add: solo_def)
  with d show ?thesis by (intro exI conjI) (auto simp: solo_def)
qed

subsection \<open>Nothing else gets stuck\<close>

definition sleep_ok :: "pool \<Rightarrow> bool" where
  "sleep_ok s \<longleftrightarrow> lock_ok s
     \<and> (\<forall>w \<in> set (pl_workers s). wk_pc w \<in> {W_lock, W_check, W_park, W_asleep} \<longrightarrow> wk_local w = [])
     \<and> (pl_main s \<in> {M_start, M_push} \<longrightarrow> pl_queue s = [])
     \<and> (pl_queue s \<noteq> [] \<longrightarrow> (\<forall>w \<in> set (pl_workers s). wk_pc w \<notin> {W_check, W_park}
          \<and> (pl_main s \<noteq> M_wake \<longrightarrow> wk_pc w \<noteq> W_asleep)))"

lemma sleep_okD:
  assumes "sleep_ok s"
  shows "lock_ok s"
    "\<And>w. w \<in> set (pl_workers s) \<Longrightarrow> wk_pc w \<in> {W_lock, W_check, W_park, W_asleep} \<Longrightarrow> wk_local w = []"
    "pl_main s \<in> {M_start, M_push} \<Longrightarrow> pl_queue s = []"
    "\<And>w. pl_queue s \<noteq> [] \<Longrightarrow> w \<in> set (pl_workers s) \<Longrightarrow> wk_pc w \<notin> {W_check, W_park}"
    "\<And>w. pl_queue s \<noteq> [] \<Longrightarrow> w \<in> set (pl_workers s) \<Longrightarrow> pl_main s \<noteq> M_wake \<Longrightarrow> wk_pc w \<noteq> W_asleep"
  using assms unfolding sleep_ok_def by blast+

lemma sleep_okI:
  assumes "lock_ok s"
    "\<And>w. w \<in> set (pl_workers s) \<Longrightarrow> wk_pc w \<in> {W_lock, W_check, W_park, W_asleep} \<Longrightarrow> wk_local w = []"
    "pl_main s \<in> {M_start, M_push} \<Longrightarrow> pl_queue s = []"
    "\<And>w. pl_queue s \<noteq> [] \<Longrightarrow> w \<in> set (pl_workers s) \<Longrightarrow> wk_pc w \<notin> {W_check, W_park}"
    "\<And>w. pl_queue s \<noteq> [] \<Longrightarrow> w \<in> set (pl_workers s) \<Longrightarrow> pl_main s \<noteq> M_wake \<Longrightarrow> wk_pc w \<noteq> W_asleep"
  shows "sleep_ok s"
  using assms unfolding sleep_ok_def by blast

lemma init_sleep: "pool_init W c items s \<Longrightarrow> sleep_ok s"
  by (auto simp: pool_init_def sleep_ok_def)

lemma update_all: "\<forall>v \<in> set ws. P v \<Longrightarrow> P w \<Longrightarrow> \<forall>v \<in> set (ws[i := w]). P v"
  using set_update_subset_insert[of ws i w] by blast

lemma lock_move:
  assumes "lock_ok s" "i < length (pl_workers s)" "pl_workers s' = (pl_workers s)[i := w']"
    and "(wk_pc (pl_workers s ! i) \<in> {W_check, W_park} \<and> pl_qlock s' = (if wk_pc w' \<in> {W_check, W_park} then pl_qlock s else None))
      \<or> (wk_pc (pl_workers s ! i) \<notin> {W_check, W_park} \<and> wk_pc w' \<notin> {W_check, W_park} \<and> pl_qlock s' = pl_qlock s)
      \<or> (pl_qlock s = None \<and> wk_pc w' \<in> {W_check, W_park} \<and> pl_qlock s' = Some i)"
  shows "lock_ok s'"
proof -
  have own: "pl_qlock s = Some i" if "wk_pc (pl_workers s ! i) \<in> {W_check, W_park}"
    using assms(1,2) that unfolding lock_ok_def by blast
  have at: "wk_pc (pl_workers s ! j) \<in> {W_check, W_park} \<longleftrightarrow> pl_qlock s = Some j" if "j < length (pl_workers s)" for j
    using assms(1) that unfolding lock_ok_def by blast
  have "wk_pc ((pl_workers s)[i := w'] ! j) \<in> {W_check, W_park} \<longleftrightarrow> pl_qlock s' = Some j" if "j < length (pl_workers s)" for j
    using assms(2,4) own at[OF that] at[OF assms(2)] that by (cases "j = i") (auto split: if_splits)
  moreover have "j < length (pl_workers s)" if "pl_qlock s' = Some j" for j
    using assms(1,2,4) that unfolding lock_ok_def by (auto split: if_splits)
  ultimately show ?thesis unfolding lock_ok_def assms(3) length_list_update by blast
qed

lemma sleep_goto:
  assumes ok: "sleep_ok s" and same: "pl_workers s' = (pl_workers s)[i := w']"
      "pl_queue s' = pl_queue s \<or> pl_queue s' = []"
    and main: "pl_main s' = pl_main s \<or> pl_main s = M_asleep \<and> pl_main s' = M_locked"
    and lock: "lock_ok s'"
    and loc: "wk_pc w' \<in> {W_lock, W_check, W_park, W_asleep} \<Longrightarrow> wk_local w' = []"
    and idle: "wk_pc w' \<in> {W_check, W_park, W_asleep} \<Longrightarrow> pl_queue s' = []"
  shows "sleep_ok s'"
proof (rule sleep_okI)
  note d = sleep_okD[OF ok]
  have q: "pl_queue s' \<noteq> [] \<Longrightarrow> pl_queue s \<noteq> []" using same(2) by auto
  show "lock_ok s'" by (rule lock)
  show "pl_queue s' = []" if "pl_main s' \<in> {M_start, M_push}"
  proof -
    have "pl_main s \<in> {M_start, M_push}" using that main by auto
    with d(3) same(2) show ?thesis by auto
  qed
  fix w assume "w \<in> set (pl_workers s')"
  then have w: "w = w' \<or> w \<in> set (pl_workers s)" unfolding same(1) by (rule update_mem)
  show "wk_local w = []" if "wk_pc w \<in> {W_lock, W_check, W_park, W_asleep}" using w loc d(2) that by blast
  show "wk_pc w \<notin> {W_check, W_park}" if "pl_queue s' \<noteq> []" using w idle d(4)[OF q[OF that]] that by blast
  show "wk_pc w \<noteq> W_asleep" if "pl_queue s' \<noteq> []" "pl_main s' \<noteq> M_wake"
  proof -
    have "pl_main s \<noteq> M_wake" using main that(2) by auto
    with w idle d(5)[OF q[OF that(1)]] that(1) show ?thesis by blast
  qed
qed

lemma sleep_plain:
  assumes ok: "sleep_ok s" and i: "i < length (pl_workers s)" and s1: "pl_workers s1 = pl_workers s"
      "pl_queue s1 = pl_queue s" "pl_qlock s1 = pl_qlock s"
      "pl_main s1 = pl_main s \<or> pl_main s = M_asleep \<and> pl_main s1 = M_locked"
    and pc: "wk_pc (pl_workers s ! i) \<notin> {W_check, W_park}" "wk_pc w' \<notin> {W_check, W_park, W_asleep}"
      "wk_pc w' = W_lock \<Longrightarrow> wk_local w' = []"
  shows "sleep_ok (set_worker i w' s1)"
proof (rule sleep_goto[OF ok, where w' = w'])
  show "lock_ok (set_worker i w' s1)"
    by (rule lock_move[OF _ i, where w' = w']) (use ok pc s1 in \<open>auto simp: sleep_ok_def\<close>)
qed (use s1 pc in auto)

lemma sleep_release:
  assumes ok: "sleep_ok s" and i: "i < length (pl_workers s)" and w: "w = pl_workers s ! i"
    and pc: "wk_pc w \<in> {W_check, W_park}" "pc' \<in> {W_park, W_asleep}"
    and lk: "lk = (if pc' = W_park then pl_qlock s else None)"
  shows "sleep_ok (set_worker i (w\<lparr>wk_pc := pc'\<rparr>) (s\<lparr>pl_qlock := lk\<rparr>))"
proof -
  have wm: "w \<in> set (pl_workers s)" using i w by simp
  have loc: "wk_local w = []" using ok wm pc(1) unfolding sleep_ok_def by blast
  have q: "pl_queue s = []" using ok wm pc(1) unfolding sleep_ok_def by blast
  show ?thesis
  proof (rule sleep_goto[OF ok, where w' = "w\<lparr>wk_pc := pc'\<rparr>"])
    show "lock_ok (set_worker i (w\<lparr>wk_pc := pc'\<rparr>) (s\<lparr>pl_qlock := lk\<rparr>))"
      by (rule lock_move[OF _ i, where w' = "w\<lparr>wk_pc := pc'\<rparr>"]) (use ok pc lk w in \<open>auto simp: sleep_ok_def\<close>)
  qed (use loc q pc in auto)
qed

lemma sleep_drain:
  assumes ok: "sleep_ok s" and i: "i < length (pl_workers s)" and w: "w = pl_workers s ! i"
    and pc: "wk_pc w = W_lock" and free: "pl_qlock s = None"
  shows "sleep_ok (worker_drain i w s)"
proof -
  have wm: "w \<in> set (pl_workers s)" using i w by simp
  have loc: "wk_local w = []" using ok wm pc unfolding sleep_ok_def by blast
  have lk: "lock_ok s" using ok by (simp add: sleep_ok_def)
  define room where "room = max (pl_chunk s) 1"
  have room: "0 < room" by (simp add: room_def)
  show ?thesis
  proof (cases "pl_queue s")
    case Nil
    have d: "worker_drain i w s = set_worker i (w\<lparr>wk_pc := W_check\<rparr>) (s\<lparr>pl_qlock := Some i\<rparr>)"
      using loc Nil by (simp add: worker_drain_def Let_def)
    have "lock_ok (set_worker i (w\<lparr>wk_pc := W_check\<rparr>) (s\<lparr>pl_qlock := Some i\<rparr>))"
      by (rule lock_move[OF lk i, where w' = "w\<lparr>wk_pc := W_check\<rparr>"]) (use free in simp_all)
    then show ?thesis unfolding d
      by (intro sleep_goto[OF ok, where w' = "w\<lparr>wk_pc := W_check\<rparr>"]) (use loc Nil in simp_all)
  next
    case (Cons t q)
    obtain k where k: "room = Suc k" using room by (cases room) auto
    let ?w' = "\<lparr>wk_local = take k q, wk_pc = W_decision t\<rparr>"
    have d: "worker_drain i w s = set_worker i ?w' (s\<lparr>pl_queue := drop k q\<rparr>)"
      using loc Cons k unfolding worker_drain_def Let_def room_def by simp
    have "sleep_ok (set_worker i ?w' s)" by (rule sleep_plain[OF ok i]) (use pc w in simp_all)
    then show ?thesis using Cons unfolding d by (auto simp: sleep_ok_def lock_ok_def)
  qed
qed

lemma sleep_worker:
  assumes ok: "sleep_ok s" and al: "alive s" and i: "i < length (pl_workers s)" and step: "worker_next X ctx n i s = Some s'"
  shows "sleep_ok s'"
proof -
  define w where "w = pl_workers s ! i"
  note plain = sleep_plain[OF ok i] and release = sleep_release[OF ok i w_def]
  note unf = worker_next_def Let_def
  show ?thesis
  proof (cases "wk_pc w")
    case W_lock
    then show ?thesis using step sleep_drain[OF ok i w_def] by (auto simp: unf simp flip: w_def split: if_splits)
  next
    case W_check
    then show ?thesis using step release[of W_park "pl_qlock s"] al
      by (simp add: unf alive_def flip: w_def)
  next
    case W_park
    then show ?thesis using step release[of W_asleep None] by (auto simp: unf simp flip: w_def)
  qed (use step in \<open>auto simp: unf simp flip: w_def intro!: plain split: list.splits option.splits sum.splits if_splits\<close>)
qed

lemma sleep_main_pc:
  assumes ok: "sleep_ok s" and pc: "pc \<noteq> M_start"
    "pl_main s \<noteq> M_wake" "pc = M_push \<Longrightarrow> pl_main s = M_start"
  shows "sleep_ok (s\<lparr>pl_main := pc\<rparr>)"
proof (rule sleep_okI)
  note d = sleep_okD[OF ok]
  show "lock_ok (s\<lparr>pl_main := pc\<rparr>)" using d(1) by (simp add: lock_ok_def)
  show "pl_queue (s\<lparr>pl_main := pc\<rparr>) = []" if "pl_main (s\<lparr>pl_main := pc\<rparr>) \<in> {M_start, M_push}"
    using that pc d(3) by auto
qed (use sleep_okD[OF ok] pc in auto)

lemma wake_mem: "w \<in> set (pl_workers (wake_all s)) \<Longrightarrow>
  wk_pc w \<noteq> W_asleep \<and> (\<exists>v \<in> set (pl_workers s). wk_local w = wk_local v \<and> (wk_pc w = wk_pc v \<or> wk_pc v = W_asleep \<and> wk_pc w = W_lock))"
  by (auto simp: wake_all_def wake_worker_def)

lemma wake_sleep:
  assumes ok: "sleep_ok s" and pc: "pc \<notin> {M_start, M_push}"
  shows "sleep_ok ((wake_all s)\<lparr>pl_main := pc\<rparr>)" (is "sleep_ok ?s'")
proof (rule sleep_okI)
  note d = sleep_okD[OF ok]
  show "lock_ok ?s'" using d(1) by (auto simp: lock_ok_def wake_all_def wake_worker_def)
  show "pl_queue ?s' = []" if "pl_main ?s' \<in> {M_start, M_push}" using that pc by auto
  fix w assume "w \<in> set (pl_workers ?s')"
  then have "w \<in> set (pl_workers (wake_all s))" by simp
  from wake_mem[OF this] obtain v where v: "wk_pc w \<noteq> W_asleep" "v \<in> set (pl_workers s)" "wk_local w = wk_local v"
    "wk_pc w = wk_pc v \<or> wk_pc v = W_asleep \<and> wk_pc w = W_lock" by blast
  show "wk_local w = []" if "wk_pc w \<in> {W_lock, W_check, W_park, W_asleep}"
    using d(2)[OF v(2)] v(3,4) that by auto
  show "wk_pc w \<notin> {W_check, W_park}" if "pl_queue ?s' \<noteq> []"
    using d(4)[OF _ v(2)] v(4) that by (auto simp: wake_all_def)
  show "wk_pc w \<noteq> W_asleep" by (rule v(1))
qed

lemma sleep_main:
  assumes ok: "sleep_ok s" and al: "alive s" and step: "main_next ps items s = Some s'"
  shows "sleep_ok s'"
proof -
  note pc = sleep_main_pc[OF ok]
  show ?thesis
  proof (cases "pl_main s")
    case M_start
    then have "sleep_ok (s\<lparr>pl_main := M_returned []\<rparr>)" "sleep_ok (s\<lparr>pl_main := M_push\<rparr>)"
      using pc[of "M_returned []"] pc[of M_push] by auto
    moreover have "sleep_ok (s\<lparr>pl_chunk := k, pl_main := M_push\<rparr>) \<longleftrightarrow> sleep_ok (s\<lparr>pl_main := M_push\<rparr>)" for k
      by (simp add: sleep_ok_def lock_ok_def)
    ultimately show ?thesis using step M_start by (auto simp: main_defs split: if_splits)
  next
    case M_push
    then have lk: "pl_qlock s = None" and s': "s' = s\<lparr>pl_queue := pl_queue s @ enumerate 0 items, pl_main := M_wake\<rparr>"
      using step by (auto simp: main_defs split: if_splits)
    note d = sleep_okD[OF ok]
    have free: "wk_pc w \<notin> {W_check, W_park}" if "w \<in> set (pl_workers s)" for w
      using d(1) lk that by (auto simp: lock_ok_def in_set_conv_nth)
    show ?thesis unfolding s'
    proof (rule sleep_okI)
      show "lock_ok (s\<lparr>pl_queue := pl_queue s @ enumerate 0 items, pl_main := M_wake\<rparr>)" using d(1) by (simp add: lock_ok_def)
    qed (use d M_push free in auto)
  next
    case M_wake
    then have s': "s' = (wake_all s)\<lparr>pl_main := M_spin 0\<rparr>" using step by (simp add: main_defs)
    show ?thesis unfolding s' by (rule wake_sleep[OF ok]) simp
  next
    case (M_spin k)
    then show ?thesis using step pc[of "M_spin (Suc k)"] pc[of M_check] by (auto simp: main_defs split: if_splits)
  next
    case M_check
    then show ?thesis using step pc[of M_locked] pc[of M_collect] by (auto simp: main_defs split: if_splits)
  next
    case M_locked
    then show ?thesis using step pc[of M_park] pc[of M_collect] by (auto simp: main_defs split: if_splits)
  next
    case M_park
    then show ?thesis using step pc[of M_asleep] by (auto simp: main_defs)
  next
    case M_collect
    then show ?thesis using step pc[of M_undefined] pc[of "M_returned (map the (pl_slots s))"]
      by (auto simp: main_defs split: if_splits)
  next
    case (M_returned outs)
    then show ?thesis using step pc[of M_dropped] alive_count[OF al] by (simp add: main_defs)
  next
    case M_shut
    then show ?thesis using al by (simp add: alive_def)
  next
    case M_join
    then show ?thesis using al by (simp add: alive_def)
  qed (use step in \<open>simp_all add: main_defs\<close>)
qed

lemma reach_sleep:
  assumes "pool_reach X ctx ps items False s0 s" "pool_init W c items s0"
  shows "sleep_ok s"
  using assms(1)
proof induction
  case base
  show ?case by (rule init_sleep[OF assms(2)])
next
  case (step s s')
  note al = reach_alive[OF step(1) assms(2)]
  from step(2) show ?case
  proof cases
    case (worker i)
    then show ?thesis by (rule sleep_worker[OF step.IH al])
  next
    case main
    then show ?thesis by (rule sleep_main[OF step.IH al])
  qed simp_all
qed

lemma asleep_complete:
  assumes "pool_core X ctx items s" "sleep_ok s" "alive s" "pl_main s = M_asleep" "\<forall>w \<in> set (pl_workers s). wk_pc w = W_asleep"
  shows "pl_done s = length items"
proof -
  obtain w where w: "w \<in> set (pl_workers s)" using assms(3) unfolding alive_def by (metis list.set_sel(1))
  with assms(4,5) have q: "pl_queue s = []" using sleep_okD(5)[OF assms(2) _ w] by auto
  have "wk_local w = []" if "w \<in> set (pl_workers s)" for w
    using sleep_okD(2)[OF assms(2) that] assms(5) that by simp
  then have m: "map worker_tasks (pl_workers s) = map (\<lambda>_. {#}) (pl_workers s)"
    "map (\<lambda>w. if wk_pc w = W_count then 1 else 0) (pl_workers s) = map (\<lambda>_. 0 :: nat) (pl_workers s)"
    using assms(5) by (auto simp: worker_tasks_def)
  have "pending s = {#}" "counting s = 0"
    using q unfolding pending_def counting_def wsum_def m by (simp_all add: sum_list_triv)
  with assms(1,4) have u: "unwritten items s = {#}" "pl_done s = written s" "length (pl_slots s) = length items"
    by (simp_all add: pool_core_def)
  have "pl_slots s ! i \<noteq> None" if "i < length items" for i
  proof
    assume "pl_slots s ! i = None"
    then have "(i, items ! i) \<in># unwritten items s" using that by (simp add: unwritten_def in_set_enumerate_eq)
    with u(1) show False by simp
  qed
  then have "filter (\<lambda>out. out \<noteq> None) (pl_slots s) = pl_slots s"
    using u(3) by (intro filter_True) (auto simp: in_set_conv_nth)
  with u show ?thesis by (simp add: written_def)
qed

text \<open>
  C15: nothing but a lost wakeup blocks the pool. A reachable state in which no thread can move, spurious wakeups aside,
  is one in which the batch is complete and \<open>run_batch\<close> sleeps through it, or one in which the executor has been dropped
  and all its workers sleep for ever.
\<close>

theorem pool_stuck_only_lost_wakeup:
  assumes "pool_init W c items s0" "caches_sound X ctx c" "\<forall>wi \<in> set items. wi_env_rev wi = cx_env_rev ctx"
    and "pool_reach X ctx ps items False s0 s" "stuck X ctx ps items s"
  shows "pl_main s = M_asleep \<and> pl_done s = length items
    \<or> pl_main s = M_dropped \<and> list_all (\<lambda>w. wk_pc w = W_asleep) (pl_workers s)"
proof -
  have inv: "pool_inv X ctx items s" by (rule reach_inv[OF assms(4,1,2,3)])
  have ok: "sleep_ok s" by (rule reach_sleep[OF assms(4,1)])
  have al: "alive s" by (rule reach_alive[OF assms(4,1)])
  have main: "main_next ps items s = None"
    using assms(5) pool_step.main unfolding stuck_def by (metis option.exhaust)
  have work: "worker_next X ctx (length items) i s = None" if "i < length (pl_workers s)" for i
    using assms(5) pool_step.worker that unfolding stuck_def by (metis option.exhaust)
  have idle: "wk_pc (pl_workers s ! i) \<in> {W_lock, W_asleep, W_gone}" "wk_pc (pl_workers s ! i) = W_lock \<Longrightarrow> pl_qlock s \<noteq> None"
    if "i < length (pl_workers s)" for i
    using work[OF that] unfolding worker_next_def Let_def by (cases "wk_pc (pl_workers s ! i)"; auto split: if_splits)+
  have free: "pl_qlock s = None"
  proof (rule ccontr)
    assume "pl_qlock s \<noteq> None"
    then obtain i where i: "pl_qlock s = Some i" "i < length (pl_workers s)" using ok by (auto simp: sleep_ok_def lock_ok_def)
    then have "wk_pc (pl_workers s ! i) \<in> {W_check, W_park}" using ok unfolding sleep_ok_def lock_ok_def by blast
    with idle(1)[OF i(2)] show False by auto
  qed
  have "wk_pc w \<in> {W_asleep, W_gone}" if "w \<in> set (pl_workers s)" for w
    using that idle free by (fastforce simp: in_set_conv_nth)
  then have pcs: "\<forall>w \<in> set (pl_workers s). wk_pc w = W_asleep" using al unfolding alive_def by blast
  show ?thesis
  proof (cases "pl_main s")
    case M_asleep
    with asleep_complete[OF _ ok al M_asleep pcs] inv show ?thesis by (simp add: pool_inv_def)
  next
    case M_dropped
    with pcs show ?thesis by (simp add: list_all_iff)
  qed (use main free inv al in \<open>auto simp: main_defs pool_inv_def alive_def\<close>)
qed

theorem pool_stuck_only_lost_wakeup_witness:
  "\<exists>s. pool_reach extern0 ctx_demo exec_params_default [item_demo 1] False (pool_fresh 1 caches_empty [item_demo 1]) s
     \<and> stuck extern0 ctx_demo exec_params_default [item_demo 1] s \<and> pl_main s = M_asleep \<and> pl_done s = 1"
proof -
  obtain s where s: "pool_reach extern0 ctx_demo exec_params_default [item_demo 1] False (pool_fresh 1 caches_empty [item_demo 1]) s"
    "stuck extern0 ctx_demo exec_params_default [item_demo 1] s" "pl_main s = M_asleep" using lost_completion by blast
  have "\<forall>wi \<in> set [item_demo 1]. wi_env_rev wi = cx_env_rev ctx_demo" by (simp add: ctx_demo_def item_demo_def)
  from pool_stuck_only_lost_wakeup[OF pool_fresh_init caches_empty_sound this s(1,2)] s show ?thesis by auto
qed

end
