(* ===== verification/Mesh_Roundtrip.thy ===== *)
theory Mesh_Roundtrip
  imports Mesh Complex_Main
begin

text \<open>
  The round trip between mesh and continuous coordinates for an arbitrary base step: \<open>mesh_to_real\<close> multiplies by the base
  step and \<open>quantize_real_to_mesh\<close> multiplies by its rounded inverse and divides by the mesh multiplier, four roundings in
  all. The relative error of one rounding is at most \<open>2 ^ -53\<close>, so the integer the last step rounds to is the right one.
\<close>

subsection \<open>The relative error of a rounding\<close>

lemma munits_two_52: "munits (2 ^ 52) = 2 ^ 52"
  by (rule munits_small) simp

lemma munits_gap:
  assumes "2 ^ 52 \<le> n"
  shows "2 ^ 52 * (munits (Suc n) - munits n) \<le> munits n"
proof -
  define k q where "k = n div 2 ^ 52 - 1" and "q = 2 ^ 52 + n mod 2 ^ 52"
  have "0 < n div 2 ^ 52" using assms by (simp add: div_greater_zero_iff)
  then have "n div 2 ^ 52 = Suc k" by (simp add: k_def)
  then have "n = Suc k * 2 ^ 52 + n mod 2 ^ 52" using div_mult_mod_eq[of n "2 ^ 52"] by (simp only:)
  then have nk: "n = k * 2 ^ 52 + q" by (simp only: q_def mult_Suc ac_simps)
  have q: "2 ^ 52 \<le> q" "q < 2 ^ 53" using mod_less_divisor[of "2 ^ 52" n] by (simp_all add: q_def)
  have "munits n = 2 ^ k * q" unfolding nk using q by (subst munits_shift) (simp_all add: munits_small)
  moreover have "munits (Suc n) = 2 ^ k * Suc q"
    unfolding nk add_Suc_right[symmetric] using q by (subst munits_shift) (simp_all add: munits_small)
  ultimately show ?thesis using mult_le_mono2[OF q(1), of "2 ^ k"] by (simp add: mult.commute)
qed

text \<open>\<open>y\<close> is \<open>v\<close> up to a relative error of \<open>e\<close>.\<close>

definition rel_err :: "real \<Rightarrow> real \<Rightarrow> real \<Rightarrow> bool" where
  "rel_err e v y \<longleftrightarrow> \<bar>y - v\<bar> \<le> e * v"

abbreviation ulp2 :: real where "ulp2 \<equiv> 1 / 2 ^ 53"

lemma mround_bound:
  assumes "0 < d" "a \<le> 2 ^ 1700 * d"
  shows "mround a d < INF_MAG"
proof -
  have "munits (1648 * 2 ^ 52 + 2 ^ 52) = 2 ^ 1648 * 2 ^ 52" by (simp only: munits_shift order_refl munits_two_52)
  also have "\<dots> = 2 ^ 1700" by (simp only: flip: power_add) simp
  finally have "mround a d \<le> 1648 * 2 ^ 52 + 2 ^ 52" using assms by (intro mround_le) (simp_all only:)
  then show ?thesis by (rule le_less_trans) (simp add: INF_MAG_def)
qed

lemma mround_near:
  assumes d: "0 < d" and lo: "2 ^ 52 * d \<le> a" and hi: "a \<le> 2 ^ 1700 * d"
  shows "rel_err ulp2 (real a / real d) (real (munits (mround a d)))"
proof -
  let ?v = "real a / real d"
  have mn: "mround a d = mnear a d" using mround_bound[OF d hi] by (simp add: mround_def min_def split: if_splits)
  define n where "n = mfloor (a div d)"
  define lo hi where "lo = real (munits n)" and "hi = real (munits (Suc n))"
  have b: "munits n \<le> a div d" "a div d < munits (Suc n)" using mfloor_bounds by (simp_all add: n_def)
  have "munits n * d \<le> a" "a < munits (Suc n) * d"
    using b d by (simp_all add: less_eq_div_iff_mult_less_eq div_less_iff_less_mult)
  then have "real (munits n * d) \<le> real a" "real a < real (munits (Suc n) * d)" by (simp_all only: of_nat_le_iff of_nat_less_iff)
  then have v: "lo \<le> ?v" "?v < hi" using d by (simp_all add: lo_def hi_def pos_le_divide_eq pos_divide_less_eq)
  have "2 ^ 52 \<le> a div d" using lo d by (simp add: less_eq_div_iff_mult_less_eq)
  then have "2 ^ 52 \<le> n" unfolding n_def mfloor_galois munits_two_52 .
  then have "real (2 ^ 52 * (munits (Suc n) - munits n)) \<le> real (munits n)"
    using munits_gap by (simp only: of_nat_le_iff)
  then have gap: "2 ^ 52 * (hi - lo) \<le> lo" using munits_Suc[of n] by (simp add: of_nat_diff lo_def hi_def)
  have le: "d * (munits n + munits (Suc n)) \<le> 2 * a \<longleftrightarrow> lo + hi \<le> 2 * ?v"
    and ge: "2 * a \<le> d * (munits n + munits (Suc n)) \<longleftrightarrow> 2 * ?v \<le> lo + hi"
  proof -
    have e: "real (d * (munits n + munits (Suc n))) = (lo + hi) * real d" "real (2 * a) = 2 * ?v * real d"
      using d by (simp_all add: lo_def hi_def algebra_simps)
    have "d * (munits n + munits (Suc n)) \<le> 2 * a \<longleftrightarrow> (lo + hi) * real d \<le> 2 * ?v * real d"
      unfolding e[symmetric] by (simp only: of_nat_le_iff)
    then show "d * (munits n + munits (Suc n)) \<le> 2 * a \<longleftrightarrow> lo + hi \<le> 2 * ?v" using d by (simp del: times_divide_eq_right times_divide_eq_left)
    have "2 * a \<le> d * (munits n + munits (Suc n)) \<longleftrightarrow> 2 * ?v * real d \<le> (lo + hi) * real d"
      unfolding e[symmetric] by (simp only: of_nat_le_iff)
    then show "2 * a \<le> d * (munits n + munits (Suc n)) \<longleftrightarrow> 2 * ?v \<le> lo + hi" using d by (simp del: times_divide_eq_right times_divide_eq_left)
  qed
  show ?thesis
  proof (cases "mnear a d = n")
    case True
    then have "2 * ?v \<le> lo + hi" unfolding ge[symmetric] by (auto simp: mnear_def Let_def simp flip: n_def split: if_splits)
    with gap v show ?thesis unfolding rel_err_def mn True lo_def[symmetric] by (simp add: abs_if field_simps)
  next
    case False
    then have s: "mnear a d = Suc n" and "lo + hi \<le> 2 * ?v"
      unfolding le[symmetric] by (auto simp: mnear_def Let_def simp flip: n_def split: if_splits)
    with gap v show ?thesis unfolding rel_err_def mn s hi_def[symmetric] by (simp add: abs_if field_simps)
  qed
qed

lemma rel_err_trans:
  assumes "rel_err a v y" "rel_err e y z" "0 \<le> v" "a \<le> 1" "0 \<le> e"
  shows "rel_err (a + 2 * e) v z"
proof -
  have "a * v \<le> 1 * v" using assms(3,4) by (intro mult_right_mono) simp_all
  then have "e * y \<le> e * (2 * v)" using assms(1,5) by (intro mult_left_mono) (simp_all add: rel_err_def abs_le_iff)
  with assms(1,2) show ?thesis by (simp add: rel_err_def distrib_right)
qed

lemma rel_err_times:
  assumes "rel_err e v y" "rel_err e v' y'" "0 \<le> v" "0 \<le> v'" "0 \<le> e" "e \<le> 1"
  shows "rel_err (3 * e) (v * v') (y * y')"
proof -
  have "\<bar>y * y' - v * v'\<bar> = \<bar>(y - v) * (y' - v') + v * (y' - v') + (y - v) * v'\<bar>" by (simp add: algebra_simps)
  also have "\<dots> \<le> \<bar>y - v\<bar> * \<bar>y' - v'\<bar> + v * \<bar>y' - v'\<bar> + \<bar>y - v\<bar> * v'"
    using assms(3,4) by (simp add: abs_mult abs_triangle_ineq[THEN order_trans] add_mono)
  also have "\<dots> \<le> (e * v) * (1 * v') + v * (e * v') + (e * v) * v'"
  proof (intro add_mono mult_mono)
    show "\<bar>y' - v'\<bar> \<le> 1 * v'" using assms(2,4,6) mult_right_mono[of e 1 v'] by (simp add: rel_err_def)
  qed (use assms in \<open>simp_all add: rel_err_def\<close>)
  finally show ?thesis by (simp add: rel_err_def)
qed

subsection \<open>The four roundings\<close>

lemma rel_err_upper: "rel_err e v y \<Longrightarrow> e \<le> 1 / 2 \<Longrightarrow> 0 \<le> v \<Longrightarrow> v / 2 \<le> y \<and> y \<le> 2 * v"
  using mult_right_mono[of e "1 / 2" v] by (auto simp: rel_err_def abs_le_iff)

lemma rel_err_divide: "rel_err e (v * u) y \<Longrightarrow> 0 < u \<Longrightarrow> rel_err e v (y / u)"
proof -
  assume a: "rel_err e (v * u) y" "0 < u"
  then have "y / u - v = (y - v * u) / u" by (simp add: diff_divide_distrib)
  moreover have "\<bar>y - v * u\<bar> \<le> e * v * u" using a(1) by (simp add: rel_err_def mult.assoc)
  ultimately show ?thesis using a(2) by (simp add: rel_err_def abs_divide pos_divide_le_eq)
qed

lemma round_rel_err:
  assumes v: "real a / real d = v" and d: "0 < d" and lo: "2 ^ 52 \<le> v" and hi: "v \<le> 2 ^ 1700"
  shows "mround a d < INF_MAG \<and> rel_err ulp2 v (real (munits (mround a d)))"
proof -
  have "real (2 ^ 52 * d) \<le> real a" "real a \<le> real (2 ^ 1700 * d)"
    using v d lo hi by (auto simp: field_simps)
  then have "2 ^ 52 * d \<le> a" "a \<le> 2 ^ 1700 * d" by (simp_all only: of_nat_le_iff)
  then show ?thesis unfolding v[symmetric] by (intro conjI mround_near mround_bound d)
qed

lemma round_quotient:
  fixes q u w :: nat
  assumes "rel_err (7 * ulp2) (real q * real u) (real w)" "q \<le> 2 ^ 49" "0 < u"
  shows "(2 * w + u) div (2 * u) = q"
proof (rule div_nat_eqI)
  have "real q \<le> real (2 ^ 49)" unfolding of_nat_le_iff by (rule assms)
  then have "7 * ulp2 * real q \<le> 7 * ulp2 * 2 ^ 49" by (intro mult_left_mono) simp_all
  then have "7 * ulp2 * real q \<le> 7 / 16" by simp
  then have "7 * ulp2 * real q * real u \<le> 7 / 16 * real u" by (rule mult_right_mono) simp
  also have "\<dots> < real u / 2" using assms(3) by simp
  finally have "\<bar>real w - real q * real u\<bar> < real u / 2"
    using assms(1) unfolding rel_err_def mult.assoc by (rule le_less_trans[rotated])
  then have r: "real q * real u < real w + real u / 2" "real w < real q * real u + real u / 2" by linarith+
  have "real (2 * u * q) \<le> real (2 * w + u)" using r by (simp add: algebra_simps)
  then show "2 * u * q \<le> 2 * w + u" by (simp only: of_nat_le_iff)
  have "real (2 * w + u) < real (2 * u * Suc q)" using r by (simp add: algebra_simps)
  then show "2 * w + u < 2 * u * Suc q" by (simp only: of_nat_less_iff)
qed

lemma quantize_magnitude:
  fixes b q m :: nat
  assumes b: "2 ^ 574 \<le> b" "b \<le> 2 ^ 1574" and m: "0 < m" and q: "0 < q" "q \<le> 2 ^ 49" and qm: "q * m \<le> 2 ^ 53"
  defines "x \<equiv> mround (q * m * one_units * b) one_units" and "i \<equiv> mround (one_units * one_units) b"
  defines "z \<equiv> mround (munits x * munits i) one_units"
  defines "w \<equiv> mround (munits z * one_units) (m * one_units)"
  shows "x < INF_MAG \<and> i < INF_MAG \<and> z < INF_MAG \<and> w < INF_MAG
     \<and> (2 * munits w + one_units) div (2 * one_units) = q"
proof -
  define U B v where "U = real one_units" and "B = real b" and "v = real q * real m"
  define t where "t = real (munits x) * real (munits i) / U"
  define y where "y = real (munits z) / real m"
  have pw: "(2::real) ^ i * 2 ^ j = 2 ^ (i + j)" for i j by (simp add: power_add)
  have U: "U = 2 ^ 1074" unfolding U_def one_units_def by simp
  have "real (2 ^ 574) \<le> B" "B \<le> real (2 ^ 1574)" unfolding B_def by (simp_all only: of_nat_le_iff b)
  then have B: "2 ^ 574 \<le> B" "B \<le> 2 ^ 1574" by simp_all
  have "real 1 \<le> real (q * m)" "real (q * m) \<le> real (2 ^ 53)" using m q qm by (simp_all only: of_nat_le_iff) simp
  then have v: "1 \<le> v" "v \<le> 2 ^ 53" by (simp_all add: v_def)
  have B0: "0 < B" using B(1) by (rule less_le_trans[rotated]) simp
  have vB: "1 * 2 ^ 574 \<le> v * B" "v * B \<le> 2 ^ 53 * 2 ^ 1574" using v B B0 by (intro mult_mono; simp)+
  have x: "x < INF_MAG \<and> rel_err ulp2 (v * B) (real (munits x))" unfolding x_def
  proof (rule round_rel_err)
    show "real (q * m * one_units * b) / real one_units = v * B" by (simp add: v_def B_def)
    show "2 ^ 52 \<le> v * B" using vB(1) by (rule order_trans[rotated]) simp
    show "v * B \<le> 2 ^ 1700" using vB(2) by (rule order_trans) (simp only: pw, rule power_increasing, simp_all)
  qed simp
  have i: "i < INF_MAG \<and> rel_err ulp2 (U * U / B) (real (munits i))" unfolding i_def
  proof (rule round_rel_err)
    show "real (one_units * one_units) / real b = U * U / B" by (simp add: U_def B_def)
    have "2 ^ 52 * B \<le> 2 ^ 52 * 2 ^ 1574" using B(2) by simp
    also have "\<dots> \<le> U * U" unfolding U pw by (rule power_increasing) simp_all
    finally show "2 ^ 52 \<le> U * U / B" using B0 by (simp add: pos_le_divide_eq)
    have "U * U \<le> 2 ^ 1700 * 2 ^ 574" unfolding U pw by (rule power_increasing) simp_all
    also have "\<dots> \<le> 2 ^ 1700 * B" using B(1) by simp
    finally show "U * U / B \<le> 2 ^ 1700" using B0 by (simp add: pos_divide_le_eq)
    show "0 < b" using B0 by (simp add: B_def)
  qed
  have U0: "0 < U" unfolding U by simp
  have "rel_err (3 * ulp2) (v * B * (U * U / B)) (real (munits x) * real (munits i))"
    using x i v B0 U0 by (intro rel_err_times) simp_all
  moreover have "v * B * (U * U / B) = v * U * U" using B0 by simp
  ultimately have "rel_err (3 * ulp2) (v * U * U) (real (munits x) * real (munits i))" by simp
  then have xi: "rel_err (3 * ulp2) (v * U) t" unfolding t_def using U0 by (rule rel_err_divide)
  have vU: "1 * 2 ^ 1074 \<le> v * U" "v * U \<le> 2 ^ 53 * 2 ^ 1074" unfolding U using v by (intro mult_mono; simp)+
  have xib: "v * U / 2 \<le> t \<and> t \<le> 2 * (v * U)"
    using v U0 by (intro rel_err_upper[OF xi]) simp_all
  have z: "z < INF_MAG \<and> rel_err ulp2 (t) (real (munits z))" unfolding z_def
  proof (rule round_rel_err)
    show "real (munits x * munits i) / real one_units = t" by (simp add: U_def t_def)
    show "2 ^ 52 \<le> t" using xib vU(1) by simp
    have "2 * (v * U) \<le> 2 ^ 1 * (2 ^ 53 * 2 ^ 1074)" unfolding power_one_right by (rule mult_left_mono[OF vU(2)]) simp
    also have "\<dots> \<le> 2 ^ 1700" unfolding pw by (rule power_increasing) simp_all
    finally show "t \<le> 2 ^ 1700" using xib by linarith
  qed simp
  have zv: "rel_err (3 * ulp2 + 2 * ulp2) (v * U) (real (munits z))"
    by (rule rel_err_trans[OF xi z[THEN conjunct2]]) (use v U0 in simp_all)
  have "real q \<le> real (2 ^ 49)" unfolding of_nat_le_iff by (rule q)
  then have "1 \<le> real q" "real q \<le> 2 ^ 49" using q(1) by simp_all
  then have qU: "1 * 2 ^ 1074 \<le> real q * U" "real q * U \<le> 2 ^ 49 * 2 ^ 1074" unfolding U by (intro mult_mono; simp)+
  have "rel_err (5 * ulp2) (real q * U * real m) (real (munits z))" using zv by (simp add: v_def ac_simps)
  then have zm: "rel_err (5 * ulp2) (real q * U) y" unfolding y_def using m by (intro rel_err_divide) simp_all
  have zb: "real q * U / 2 \<le> y \<and> y \<le> 2 * (real q * U)"
    using U0 by (intro rel_err_upper[OF zm]) simp_all
  have w: "w < INF_MAG \<and> rel_err ulp2 (y) (real (munits w))" unfolding w_def
  proof (rule round_rel_err)
    show "real (munits z * one_units) / real (m * one_units) = y" by (simp add: y_def)
    show "2 ^ 52 \<le> y" using zb qU(1) by simp
    have "2 * (real q * U) \<le> 2 ^ 1 * (2 ^ 49 * 2 ^ 1074)" unfolding power_one_right by (rule mult_left_mono[OF qU(2)]) simp
    also have "\<dots> \<le> 2 ^ 1700" unfolding pw by (rule power_increasing) simp_all
    finally show "y \<le> 2 ^ 1700" using zb by linarith
  qed (use m in simp)
  have "rel_err (5 * ulp2 + 2 * ulp2) (real q * U) (real (munits w))"
    by (rule rel_err_trans[OF zm w[THEN conjunct2]]) (use U0 in simp_all)
  then have "(2 * munits w + one_units) div (2 * one_units) = q"
    using q by (intro round_quotient) (simp_all add: U_def)
  then show ?thesis using x i z w by blast
qed

subsection \<open>The round trip\<close>

lemma munits_pow2: "52 \<le> k \<Longrightarrow> munits ((k - 52) * 2 ^ 52 + 2 ^ 52) = 2 ^ k"
  by (simp only: munits_shift order_refl munits_two_52 flip: power_add) simp

lemma base_step_units:
  assumes "f_lit 1 (2 ^ 500) \<le> s" "s \<le> f_of_int (2 ^ 500)"
  shows "\<not> fneg s" "is_finite s" "2 ^ 574 \<le> munits (fmag s)" "munits (fmag s) \<le> 2 ^ 1574"
proof -
  let ?lo = "(574 - 52) * 2 ^ 52 + 2 ^ 52 :: nat" and ?hi = "(1574 - 52) * 2 ^ 52 + 2 ^ 52 :: nat"
  have U: "1 * one_units = 2 ^ 574 * 2 ^ 500" "2 ^ 500 * one_units = 2 ^ 1574 * 1"
    unfolding one_units_def power_add[symmetric] mult_1 mult_1_right by (simp_all only: arith_simps)
  have pow: "munits ?lo = 2 ^ 574" "munits ?hi = 2 ^ 1574" by (rule munits_pow2, simp)+
  have "mround (munits ?lo * 2 ^ 500) (2 ^ 500) = ?lo" "mround (munits ?hi * 1) 1 = ?hi"
    by (rule mround_exact; simp add: INF_MAG_def)+
  then have m: "mround (1 * one_units) (2 ^ 500) = ?lo" "mround (2 ^ 500 * one_units) 1 = ?hi"
    by (simp_all only: U pow)
  have "nat \<bar>2 ^ 500 :: int\<bar> = 2 ^ 500" by (simp only: abs_power2 abs_of_nonneg zero_le_power zero_le_numeral nat_power_eq nat_numeral)
  then have k: "fkey (f_lit 1 (2 ^ 500)) = int ?lo" "fkey (f_of_int (2 ^ 500)) = int ?hi"
    by (simp_all only: f_lit_def f_of_int_imag imag_def m fkey_def f64.sel if_False) (simp add: not_less)
  then have le: "int ?lo \<le> fkey s" "fkey s \<le> int ?hi" using assms by (simp_all only: less_eq_f64_def)
  show n: "\<not> fneg s" using le(1) by (auto simp: fkey_def)
  then have f: "?lo \<le> fmag s" "fmag s \<le> ?hi" using le by (simp_all only: fkey_def if_False of_nat_le_iff)
  then show "is_finite s" by (simp add: is_finite_def INF_MAG_def)
  have "munits ?lo \<le> munits (fmag s)" "munits (fmag s) \<le> munits ?hi" using f by (simp_all only: munits_le_iff)
  then show "2 ^ 574 \<le> munits (fmag s)" "munits (fmag s) \<le> 2 ^ 1574"
    by (simp_all only: pow)
qed

lemma f_round_as_i64:
  assumes "is_finite x" "(2 * munits (fmag x) + one_units) div (2 * one_units) = q" "q \<le> 2 ^ 53"
  shows "f_as_i64 (f_round x) = (if fneg x then - int q else int q)"
proof -
  have "f_round x = F64 (fneg x) (imag q)" using assms by (simp add: f_round_def imag_def)
  moreover have "f_trunc (F64 s (imag q)) = (if s then - int q else int q)" for s
    by (simp add: f_trunc_def imag_exact[OF assms(3)])
  moreover have "int q \<le> 2 ^ 53" using assms(3) by simp
  ultimately show ?thesis using imag_finite[OF assms(3)] by (simp add: f_as_i64_def is_nan_def)
qed

lemma one_imag: "1 = F64 False (imag 1)"
  by (simp only: imag_def f_lit_def flip: f_lit_one)

lemma magnitude_nonzero: "2 ^ 574 \<le> munits k \<Longrightarrow> k \<noteq> 0"
  by (rule notI) simp

lemma imag_nonzero: "0 < k \<Longrightarrow> k \<le> 2 ^ 53 \<Longrightarrow> imag k \<noteq> 0"
  using imag_exact[of k] by (metis munits_0 mult_is_0 neq0_conv one_units_pos_simps(2))

lemma finite_mag: "k < INF_MAG \<Longrightarrow> \<not> is_nan (F64 a k) \<and> \<not> is_infinite (F64 a k) \<and> is_finite (F64 a k)"
  by (simp add: f64_pred_defs)

lemma quantize_chain:
  fixes n :: bool and q m :: nat and s :: f64
  assumes s: "\<not> fneg s" "is_finite s" "2 ^ 574 \<le> munits (fmag s)" "munits (fmag s) \<le> 2 ^ 1574"
    and m: "0 < m" "m \<le> 2 ^ 53" and q: "0 < q" "q \<le> 2 ^ 49" "q * m \<le> 2 ^ 53"
  defines "y \<equiv> F64 n (imag (q * m)) * s"
  defines "w \<equiv> y * (1 / s) / F64 False (imag m)"
  shows "is_finite y \<and> is_finite w \<and> fneg w = n \<and> (2 * munits (fmag w) + one_units) div (2 * one_units) = q"
proof -
  let ?b = "munits (fmag s)"
  define xm im zm wm where "xm = mround (q * m * one_units * ?b) one_units" and "im = mround (one_units * one_units) ?b"
    and "zm = mround (munits xm * munits im) one_units" and "wm = mround (munits zm * one_units) (m * one_units)"
  have c: "xm < INF_MAG" "im < INF_MAG" "zm < INF_MAG" "wm < INF_MAG" "(2 * munits wm + one_units) div (2 * one_units) = q"
    using quantize_magnitude[OF s(3,4) m(1) q] by (simp_all only: xm_def im_def zm_def wm_def)
  note f = finite_mag
  have ok: "\<not> is_nan s" "\<not> is_infinite s" using s(2) by (simp_all add: finite_iff)
  have nz: "\<not> is_zero s" "imag m \<noteq> 0" using magnitude_nonzero[OF s(3)] imag_nonzero[OF m] by (simp_all add: is_zero_def)
  have y: "y = F64 n xm" unfolding y_def times_f64_def xm_def
    using s(1) ok f[OF imag_finite[OF q(3)]] by (simp add: imag_exact[OF q(3)])
  have "1 / s = F64 False im" unfolding one_imag divide_f64_def im_def
    using s(1) ok nz f[OF imag_finite[of 1]] by (simp add: imag_exact)
  then have "y * (1 / s) = F64 n zm" using f[OF c(1)] f[OF c(2)] by (simp add: y times_f64_def zm_def)
  then have w: "w = F64 n wm" using f[OF c(3)] f[OF imag_finite[OF m(2)]] nz(2)
    by (simp add: w_def divide_f64_def wm_def imag_exact[OF m(2)] is_zero_def)
  show ?thesis using c f[OF c(1)] f[OF c(4)] by (simp add: y w)
qed

lemma quantize_zero:
  fixes m :: nat and s :: f64
  assumes s: "\<not> fneg s" "is_finite s" "2 ^ 574 \<le> munits (fmag s)" "munits (fmag s) \<le> 2 ^ 1574"
    and m: "0 < m" "m \<le> 2 ^ 53"
  shows "is_finite (F64 False 0 * s) \<and> f_as_i64 (f_round (F64 False 0 * s * (1 / s) / F64 False (imag m))) = 0"
proof -
  define im where "im = mround (one_units * one_units) (munits (fmag s))"
  have im: "im < INF_MAG" using quantize_magnitude[OF s(3,4), of 1 1] by (simp add: im_def)
  note f = finite_mag
  have ok: "\<not> is_nan s" "\<not> is_infinite s" using s(2) by (simp_all add: finite_iff)
  have nz: "\<not> is_zero s" "imag m \<noteq> 0" using magnitude_nonzero[OF s(3)] imag_nonzero[OF m] by (simp_all add: is_zero_def)
  have 0: "F64 False 0 * s = F64 False 0" using s(1) ok f[OF INF_MAG_pos] by (simp add: times_f64_def)
  have "1 / s = F64 False im" unfolding one_imag divide_f64_def im_def
    using s(1) ok nz f[OF imag_finite[of 1]] by (simp add: imag_exact)
  moreover have "F64 False 0 * F64 False im = F64 False 0" using f[OF INF_MAG_pos] f[OF im] by (simp add: times_f64_def)
  ultimately have "F64 False 0 * s * (1 / s) = F64 False 0" by (simp only: 0)
  then have "F64 False 0 * s * (1 / s) / F64 False (imag m) = F64 False 0"
    using f[OF INF_MAG_pos] f[OF imag_finite[OF m(2)]] nz(2) by (simp add: divide_f64_def is_zero_def)
  then show ?thesis using f_round_as_i64[of "F64 False 0" 0] f[OF INF_MAG_pos] 0 by simp
qed

lemma quantize_coordinate:
  assumes s: "f_lit 1 (2 ^ 500) \<le> s" "s \<le> f_of_int (2 ^ 500)" and m: "0 < m" "m \<le> 2 ^ 53"
    and u: "\<bar>u\<bar> \<le> 2 ^ 53" "m dvd u" "\<bar>u div m\<bar> \<le> 2 ^ 49"
  shows "is_finite (f_of_int u * s) \<and> f_as_i64 (f_round (f_of_int u * s * (1 / s) / f_of_int m)) = u div m"
proof -
  define q where "q = nat \<bar>u div m\<bar>"
  note b = base_step_units[OF s]
  have m': "0 < nat m" "nat m \<le> 2 ^ 53" "f_of_int m = F64 False (imag (nat m))"
    using m by (simp_all add: nat_le_iff f_of_int_imag)
  obtain k where k: "u = m * k" using u(2) by (elim dvdE)
  have qm: "nat \<bar>u\<bar> = q * nat m" "u div m = k" using m(1) by (simp_all add: q_def k abs_mult nat_mult_distrib)
  have q: "q \<le> 2 ^ 49" "q * nat m \<le> 2 ^ 53" using u(1,3) unfolding qm(1)[symmetric] by (simp_all add: q_def nat_le_iff)
  show ?thesis
  proof (cases "u = 0")
    case True
    then have "f_of_int u = F64 False 0" by (simp add: f_of_int_imag imag_def)
    then show ?thesis using quantize_zero[OF b m'(1,2)] m'(3) True by simp
  next
    case False
    then have "0 < q" using m(1) by (simp add: q_def k)
    note c = quantize_chain[OF b m'(1,2) this q, of "u < 0"]
    let ?w = "f_of_int u * s * (1 / s) / f_of_int m"
    have e: "f_of_int u = F64 (u < 0) (imag (q * nat m))" by (simp add: f_of_int_imag qm(1))
    have "f_as_i64 (f_round ?w) = (if fneg ?w then - int q else int q)"
      using c q by (intro f_round_as_i64) (simp_all add: e m'(3))
    moreover have "fneg ?w = (u < 0)" using c by (simp add: e m'(3))
    moreover have "(if u < 0 then - int q else int q) = u div m"
      using m(1) by (auto simp: q_def k mult_less_0_iff zero_less_mult_iff)
    ultimately show ?thesis using c by (simp add: e)
  qed
qed

text \<open>
  C35: for a mesh multiplier of at most \<open>2 ^ 53\<close> and a base step between \<open>2 ^ -500\<close> and \<open>2 ^ 500\<close>, a mesh point whose
  coordinates are multiples of the multiplier, at most \<open>2 ^ 53\<close> in size and at most \<open>2 ^ 49\<close> multiplier steps from the
  origin is mapped to continuous space (\<open>XReal::new\<close> accepts it) and quantised back to itself, although the base step has
  no exact inverse and four roundings lie between.
\<close>

theorem quantize_mesh_to_real:
  assumes "extern_ok X" and s: "f_lit 1 (2 ^ 500) \<le> mg_base_step g" "mg_base_step g \<le> f_of_int (2 ^ 500)"
    and m: "0 < mg_mesh_mul g" "mg_mesh_mul g \<le> 2 ^ 53"
    and x: "\<forall>u \<in> set x. \<bar>u\<bar> \<le> 2 ^ 53 \<and> mg_mesh_mul g dvd u \<and> \<bar>u div mg_mesh_mul g\<bar> \<le> 2 ^ 49"
  shows "\<exists>xr. mesh_to_real X x (mg_base_step g) = Some xr \<and> quantize_real_to_mesh xr g = x"
proof -
  let ?s = "mg_base_step g" and ?m = "mg_mesh_mul g"
  have c: "is_finite (f_of_int u * ?s)" "i64_wrap (f_as_i64 (f_round (f_of_int u * ?s * (1 / ?s) / f_of_int ?m)) * ?m) = u"
    if "u \<in> set x" for u
  proof -
    note u = x[rule_format, OF that]
    note c = quantize_coordinate[OF s m, of u]
    show "is_finite (f_of_int u * ?s)" using c u by blast
    have "i64_ok u" using u by (auto simp: i64_ok_def I64_MIN_def I64_MAX_def abs_le_iff)
    then show "i64_wrap (f_as_i64 (f_round (f_of_int u * ?s * (1 / ?s) / f_of_int ?m)) * ?m) = u"
      using c u by (simp only: dvd_div_mult_self i64_wrap_id)
  qed
  have "mesh_to_real X x ?s = Some (map (\<lambda>u. f_of_int u * ?s) x)"
    using c(1) by (simp add: mesh_to_real_def xreal_new_ok[OF assms(1)])
  moreover have "max ?m 1 = ?m" using m(1) by simp
  then have "quantize_real_to_mesh (map (\<lambda>u. f_of_int u * ?s) x) g = x"
    using c(2) by (simp add: quantize_real_to_mesh_def Let_def map_idI)
  ultimately show ?thesis by blast
qed

text \<open>A base step of a tenth, which binary64 cannot represent, and a multiplier of 8.\<close>

theorem quantize_mesh_to_real_witness:
  "\<exists>xr. mesh_to_real extern0 [24, -16, 0, 8] (f_lit 1 10) = Some xr
     \<and> quantize_real_to_mesh xr (mesh_demo\<lparr>mg_base_step := f_lit 1 10\<rparr>) = [24, -16, 0, 8]"
proof -
  have "f_lit 1 (2 ^ 500) \<le> f_lit 1 10" by (rule f_lit_mono) simp_all
  moreover have "f_lit 1 10 \<le> f_lit (2 ^ 500) 1" by (rule f_lit_mono) simp_all
  then have "f_lit 1 10 \<le> f_of_int (2 ^ 500)" by (simp add: f_lit_def f_of_int_imag imag_def nat_power_eq)
  ultimately show ?thesis
    using quantize_mesh_to_real[of extern0 "mesh_demo\<lparr>mg_base_step := f_lit 1 10\<rparr>" "[24, -16, 0, 8]"]
    by (simp add: mesh_demo_def)
qed

end
