(* ===== verification/Policies.thy ===== *)
theory Policies
  imports Calibrator
begin

text \<open>
  The small policies: \<open>DefaultScheduler\<close> of \<open>policies/scheduler.rs\<close> and \<open>DefaultAudit\<close> of
  \<open>policies/audit.rs\<close>, each with the contract of its trait as a locale that the default implementation
  interprets. The lemmas show that the scheduler dispatches a prefix of the ready view and never stalls, and that
  the audit selection is deterministic and grows with the audit probability.
\<close>

subsection \<open>Scheduler\<close>

record default_scheduler =
  sch_workers :: nat

datatype cancel_policy = Never | Best_effort

definition sch_configure :: "nat \<Rightarrow> default_scheduler \<Rightarrow> default_scheduler" where
  "sch_configure workers s = s\<lparr>sch_workers := max workers 1\<rparr>"

definition sch_batch_size :: "default_scheduler \<Rightarrow> nat" where
  "sch_batch_size s = sch_workers s"

definition sch_select_next :: "ready_view list \<Rightarrow> default_scheduler \<Rightarrow> cand_id list" where
  "sch_select_next view s = map rv_id (take (sch_batch_size s) view)"

definition sch_on_complete :: "cand_id \<Rightarrow> job_result \<Rightarrow> default_scheduler \<Rightarrow> default_scheduler" where
  "sch_on_complete i r s = s"

definition sch_should_cancel_inflight :: "bool \<Rightarrow> cancel_policy" where
  "sch_should_cancel_inflight new_incumbent = (if new_incumbent then Best_effort else Never)"

text \<open>
  The engine needs a selection of distinct ready candidates, bounded by the batch size, and at least one
  when there is a ready candidate: a scheduler that returns none ends the inner loop.
\<close>

locale scheduler_policy =
  fixes select_next :: "ready_view list \<Rightarrow> 's \<Rightarrow> cand_id list" and batch_size :: "'s \<Rightarrow> nat" and inv :: "'s \<Rightarrow> bool"
  assumes select_sub: "inv s \<Longrightarrow> set (select_next view s) \<subseteq> rv_id ` set view"
    and select_distinct: "inv s \<Longrightarrow> distinct (map rv_id view) \<Longrightarrow> distinct (select_next view s)"
    and select_bound: "inv s \<Longrightarrow> length (select_next view s) \<le> batch_size s"
    and select_progress: "inv s \<Longrightarrow> view \<noteq> [] \<Longrightarrow> select_next view s \<noteq> []"
begin

lemma stalls_only_when_idle: "inv s \<Longrightarrow> select_next view s = [] \<longleftrightarrow> view = []"
  using select_progress select_sub[of s view] by (cases view) auto

lemma dispatched_known: "inv s \<Longrightarrow> i \<in> set (select_next view s) \<Longrightarrow> \<exists>v \<in> set view. rv_id v = i"
  using select_sub by fastforce

end

interpretation sch: scheduler_policy sch_select_next sch_batch_size "\<lambda>s. 0 < sch_workers s"
  by unfold_locales
    (auto simp: sch_select_next_def sch_batch_size_def take_map[symmetric] simp del: take_map dest: in_set_takeD)

text \<open>
  After \<open>configure\<close> the default scheduler picks the first ready candidates of the view in its order, at most
  one per worker, nothing outside the view, nothing twice, and nothing only when nothing is ready.
\<close>

theorem scheduler_picks_prefix:
  assumes "distinct (map rv_id view)"
  shows "let s = sch_configure workers s0; picked = sch_select_next view s in
    picked = take (max workers 1) (map rv_id view) \<and> distinct picked \<and> (picked = [] \<longleftrightarrow> view = [])
    \<and> (\<forall>i \<in> set picked. \<exists>v \<in> set view. rv_id v = i)"
proof -
  define s where "s = sch_configure workers s0"
  have s: "0 < sch_workers s" "sch_workers s = max workers 1" by (simp_all add: s_def sch_configure_def)
  show ?thesis
    unfolding Let_def s_def[symmetric]
    using sch.select_distinct[OF s(1) assms] sch.stalls_only_when_idle[OF s(1)] sch.dispatched_known[OF s(1)]
    by (simp add: sch_select_next_def sch_batch_size_def s(2) take_map)
qed

definition view_demo :: "ready_view list" where
  "view_demo = map (\<lambda>i. \<lparr>rv_id = i, rv_kind = New, rv_x = [], rv_next_phi_idx = 0, rv_score = 0, rv_audit_required = False\<rparr>) [3, 1, 2]"

theorem scheduler_picks_prefix_witness:
  "sch_select_next view_demo (sch_configure 2 \<lparr>sch_workers = 0\<rparr>) = [3, 1]"
  using scheduler_picks_prefix[of view_demo 2 "\<lparr>sch_workers = 0\<rparr>"] by (simp add: view_demo_def Let_def)

subsection \<open>Audit\<close>

record default_audit =
  da_p_audit :: f64
  da_modulus :: u64

definition default_audit_default :: default_audit where
  "default_audit_default = \<lparr>da_p_audit = f_lit 2 100, da_modulus = 10000\<rparr>"

text \<open>The stream of the tuple \<open>(stable_hash_u64(x), phi, env_rev)\<close>.\<close>

definition audit_hash :: "xmesh \<Rightarrow> phi \<Rightarrow> env_rev_t \<Rightarrow> u64" where
  "audit_hash x p er = stable_hash_u64
     (enc_u64 (stable_hash_u64 (enc_i64_vec x)) @ enc_u64 (phi_tau p) @ enc_u32 (phi_smc p) @ enc_u128 er)"

definition audit_thresh :: "default_audit \<Rightarrow> nat" where
  "audit_thresh a = f_as_u64 (clamp01 (da_p_audit a) * f_of_int (uint (da_modulus a)))"

text \<open>\<open>h % 0\<close> panics.\<close>

definition should_audit :: "default_audit \<Rightarrow> xmesh \<Rightarrow> phi \<Rightarrow> env_rev_t \<Rightarrow> bool res" where
  "should_audit a x p er =
     (if da_modulus a = 0 then Inl Rem_by_zero
      else Inr (unat (audit_hash x p er mod da_modulus a) < audit_thresh a))"

definition boundary_boost :: "f64 \<Rightarrow> f64" where
  "boundary_boost score = 1"

lemma clamp01_mono: "p \<le> q \<Longrightarrow> clamp01 p \<le> clamp01 q"
  using zero_le_one_f64 by (auto simp: clamp01_if f64_ord_defs)

lemma one_finite: "is_finite 1"
  by (simp add: is_finite_def one_f64_def INF_MAG_def)

lemma clamp01_finite: "\<not> is_nan p \<Longrightarrow> 0 \<le> clamp01 p \<and> is_finite (clamp01 p)"
proof -
  assume p: "\<not> is_nan p"
  have "\<not> is_nan (clamp01 p)" using p one_finite finite_not_nan by (auto simp: clamp01_if)
  then have c: "0 \<le> clamp01 p" "clamp01 p \<le> 1" using clamp01_range[of p] by auto
  have "\<not> is_infinite (clamp01 p)"
    using c one_finite by (auto simp: f64_ord_defs fkey_def is_infinite_def is_finite_def is_nan_def split: if_splits)
  with c show ?thesis by (simp add: finite_iff less_eq_f64_def)
qed

lemma modulus_float: "0 \<le> f_of_int (uint (m :: u64)) \<and> is_finite (f_of_int (uint m))"
proof -
  have "uint m < 2 ^ 64" using uint_lt2p[of m] by simp
  also have "(2 :: int) ^ 64 \<le> 2 ^ 900" by (rule power_increasing) simp_all
  finally show ?thesis by (intro conjI f_of_int_nonneg f_of_int_finite_big) simp_all
qed

lemma audit_thresh_mono:
  assumes "p \<le> q"
  shows "audit_thresh \<lparr>da_p_audit = p, da_modulus = m\<rparr> \<le> audit_thresh \<lparr>da_p_audit = q, da_modulus = m\<rparr>"
proof -
  have n: "\<not> is_nan p" "\<not> is_nan q" using assms by (simp_all add: less_eq_f64_def)
  have "clamp01 p * f_of_int (uint m) \<le> clamp01 q * f_of_int (uint m)"
    using clamp01_finite[OF n(1)] clamp01_finite[OF n(2)] clamp01_mono[OF assms] modulus_float[of m]
    by (intro times_mono_f64) auto
  moreover have "0 \<le> clamp01 p * f_of_int (uint m)"
    using clamp01_finite[OF n(1)] modulus_float[of m] by (intro mult_nonneg_f64 mult_not_nan) auto
  ultimately show ?thesis by (simp add: audit_thresh_def f_as_u64_mono)
qed

text \<open>The contract: the choice is a function of the candidate, the fidelity and the environment.\<close>

locale audit_policy =
  fixes select :: "f64 \<Rightarrow> xmesh \<Rightarrow> phi \<Rightarrow> env_rev_t \<Rightarrow> bool res"
  assumes total: "\<exists>b. select p x ph er = Inr b"
    and mono: "p \<le> q \<Longrightarrow> select p x ph er = Inr True \<Longrightarrow> select q x ph er = Inr True"
begin

lemma nested: "p \<le> q \<Longrightarrow> {x. select p x ph er = Inr True} \<subseteq> {x. select q x ph er = Inr True}"
  using mono by blast

end

interpretation audit: audit_policy "\<lambda>p. should_audit \<lparr>da_p_audit = p, da_modulus = 10000\<rparr>"
  by unfold_locales (auto simp: should_audit_def intro: less_le_trans[OF _ audit_thresh_mono])

text \<open>
  C38: the audit selection panics only for a zero modulus; with probability at most zero (or NaN) nothing is audited,
  with probability at least one (and a modulus up to \<open>2 ^ 53\<close>) everything is, and raising the probability never
  drops a candidate from the audited set.
\<close>

theorem should_audit_selection:
  "(should_audit a x p er = Inl e \<longleftrightarrow> da_modulus a = 0 \<and> e = Rem_by_zero)
   \<and> (da_modulus a \<noteq> 0 \<and> \<not> 0 < da_p_audit a \<longrightarrow> should_audit a x p er = Inr False)
   \<and> (da_modulus a \<noteq> 0 \<and> unat (da_modulus a) \<le> 2 ^ 53 \<and> 1 \<le> da_p_audit a \<longrightarrow> should_audit a x p er = Inr True)
   \<and> (should_audit a x p er = Inr True \<and> da_p_audit a \<le> q \<longrightarrow> should_audit (a\<lparr>da_p_audit := q\<rparr>) x p er = Inr True)"
proof (intro conjI impI)
  let ?m = "da_modulus a"
  show "should_audit a x p er = Inl e \<longleftrightarrow> ?m = 0 \<and> e = Rem_by_zero" by (auto simp: should_audit_def)
  show "should_audit a x p er = Inr False" if "?m \<noteq> 0 \<and> \<not> 0 < da_p_audit a"
  proof -
    have z: "is_zero y" if "\<not> is_nan y" "\<not> 0 < y" "\<not> y < 0" for y
      using that by (auto simp: f64_ord_defs fkey_def is_zero_def split: if_splits)
    have "is_nan (clamp01 (da_p_audit a)) \<or> is_zero (clamp01 (da_p_audit a))"
    proof (cases "is_nan (da_p_audit a) \<or> da_p_audit a < 0")
      case True
      then show ?thesis using one_finite by (auto simp: clamp01_if is_zero_def f64_ord_defs)
    next
      case False
      then have "is_zero (da_p_audit a)" using that z by auto
      then show ?thesis using z[of "clamp01 (da_p_audit a)"] zero_le_one_f64
        by (auto simp: clamp01_if is_zero_def f64_ord_defs fkey_def split: if_splits)
    qed
    moreover have "is_zero (y * f_of_int (uint ?m))" if "is_zero y" for y
      using that modulus_float[of ?m] finite_not_nan[of "f_of_int (uint ?m)"]
      by (auto simp: times_f64_def is_zero_def finite_iff is_infinite_def is_nan_def)
    moreover have "is_nan (y * c)" if "is_nan y" for y c :: f64
      using that by (simp add: times_f64_def is_nan_def)
    ultimately have "audit_thresh a = 0"
      unfolding audit_thresh_def using f_as_u64_zero f_as_u64_nan by blast
    with that show ?thesis by (simp add: should_audit_def)
  qed
  show "should_audit a x p er = Inr True" if h: "?m \<noteq> 0 \<and> unat ?m \<le> 2 ^ 53 \<and> 1 \<le> da_p_audit a"
  proof -
    have "\<not> da_p_audit a < 0" using h zero_le_one_f64 by (auto simp: f64_ord_defs)
    then have one: "clamp01 (da_p_audit a) = 1" using h f_one_cases[of "da_p_audit a"] by (auto simp: clamp01_if)
    have "int (unat ?m) \<le> int (2 ^ 53)" using h unfolding of_nat_le_iff by blast
    then have "uint ?m \<le> 2 ^ 53" by simp
    then have "audit_thresh a = nat (uint ?m)"
      using modulus_float[of ?m] unfolding audit_thresh_def one times_comm_f64[of 1]
      by (simp add: mult_one_f64 f_as_u64_of_int)
    moreover have "unat (audit_hash x p er mod ?m) < unat ?m"
      using h by (simp add: unat_mod) (simp add: unat_gt_0)
    ultimately show ?thesis using h by (simp add: should_audit_def)
  qed
  show "should_audit (a\<lparr>da_p_audit := q\<rparr>) x p er = Inr True"
    if "should_audit a x p er = Inr True \<and> da_p_audit a \<le> q"
  proof -
    have "audit_thresh a \<le> audit_thresh (a\<lparr>da_p_audit := q\<rparr>)"
      using that audit_thresh_mono[of "da_p_audit a" q ?m] by (cases a) simp
    with that show ?thesis by (auto simp: should_audit_def split: if_splits)
  qed
qed

theorem should_audit_selection_witness:
  "should_audit (default_audit_default\<lparr>da_p_audit := 1\<rparr>) [3] (Phi 1 8) 5 = Inr True"
proof -
  have "unat (10000 :: u64) = 10000" by simp
  moreover have "(10000 :: nat) \<le> 2 ^ 53" by simp
  ultimately have "unat (10000 :: u64) \<le> 2 ^ 53" by (simp only:)
  then show ?thesis
    using should_audit_selection[of "default_audit_default\<lparr>da_p_audit := 1\<rparr>" "[3]" "Phi 1 8" 5]
    by (simp add: default_audit_default_def one_finite finite_not_nan f_le_refl)
qed

end
