(* ===== verification/Ladder.thy ===== *)
theory Ladder
  imports Types
begin

text \<open>
  The fidelity ladder: \<open>StaircaseLadder\<close> of \<open>policies/ladder.rs\<close> and the ladder helpers of
  \<open>core/engine.rs\<close> (default levels, level resolution, the checkpoints of an audit). The
  contract of \<open>LadderPolicy\<close> is the locale \<open>ladder_policy\<close>, which \<open>StaircaseLadder\<close> provides.
\<close>

subsection \<open>The staircase\<close>

text \<open>The \<open>while\<close> loop of \<open>build_ladder\<close>, from the indices it holds; it returns what it pushes.\<close>

function stair_loop :: "u64 list \<Rightarrow> u32 list \<Rightarrow> nat \<Rightarrow> nat \<Rightarrow> phi list" where
  "stair_loop tau smc i_tau i_s =
     (if Suc i_tau < length tau \<or> Suc i_s < length smc then
        let (out1, j) = (if Suc i_s < length smc
              then ([Phi (tau ! i_tau) (smc ! Suc i_s)], Suc i_s) else ([], i_s));
          (out2, i) = (if Suc i_tau < length tau
              then ([Phi (tau ! Suc i_tau) (smc ! j)], Suc i_tau) else ([], i_tau)) in
        out1 @ out2 @ stair_loop tau smc i j
      else [])"
  by pat_completeness auto
termination
  by (relation "measure (\<lambda>(tau, smc, i, j). (length tau - i) + (length smc - j))")
    (auto split: if_splits)

declare stair_loop.simps [simp del]

definition build_ladder :: "u64 list \<Rightarrow> u32 list \<Rightarrow> phi list res" where
  "build_ladder tau_levels smc_levels =
     (if tau_levels = [] then Inl Assert_failed
      else if smc_levels = [] then Inl Assert_failed
      else let tau = rev (sort tau_levels); smc = sort smc_levels in
        Inr (Phi (tau ! 0) (smc ! 0) # stair_loop tau smc 0 0))"

text \<open>The default \<open>estimate_cost\<close> of the trait.\<close>

definition estimate_cost :: "phi \<Rightarrow> f64" where
  "estimate_cost p = 0"

text \<open>The order of the contract: the tolerance tightens and the sample count grows.\<close>

definition refines :: "phi \<Rightarrow> phi \<Rightarrow> bool" where
  "refines p q \<longleftrightarrow> phi_tau q \<le> phi_tau p \<and> phi_smc p \<le> phi_smc q"

lemma refines_trans: "refines p q \<Longrightarrow> refines q r \<Longrightarrow> refines p r"
  by (auto simp: refines_def)

text \<open>One stair: exactly one of the two coordinates moves to another level.\<close>

definition one_stair :: "phi \<Rightarrow> phi \<Rightarrow> bool" where
  "one_stair p q \<longleftrightarrow> refines p q \<and> (phi_tau p = phi_tau q \<or> phi_smc p = phi_smc q)"

definition bump :: "nat \<Rightarrow> nat \<Rightarrow> nat" where
  "bump n i = (if Suc i < n then Suc i else i)"

lemma bump_less: "i < n \<Longrightarrow> bump n i < n" and bump_ge: "i \<le> bump n i"
  by (simp_all add: bump_def)

lemma stair_loop_step: "stair_loop tau smc i j =
  (if Suc i < length tau \<or> Suc j < length smc
   then (if Suc j < length smc then [Phi (tau ! i) (smc ! Suc j)] else [])
     @ (if Suc i < length tau then [Phi (tau ! Suc i) (smc ! bump (length smc) j)] else [])
     @ stair_loop tau smc (bump (length tau) i) (bump (length smc) j)
   else [])"
  by (subst stair_loop.simps) (simp add: bump_def)

lemma stair_induct [consumes 2, case_names step]:
  assumes "i < length tau" "j < length smc"
    and step: "\<And>i j. i < length tau \<Longrightarrow> j < length smc \<Longrightarrow>
      (Suc i < length tau \<or> Suc j < length smc \<Longrightarrow> P (bump (length tau) i) (bump (length smc) j)) \<Longrightarrow> P i j"
  shows "P i j"
  using assms(1,2)
proof (induction "(length tau - i) + (length smc - j)" arbitrary: i j rule: less_induct)
  case less
  show ?case
  proof (rule step[OF less.prems])
    assume "Suc i < length tau \<or> Suc j < length smc"
    then show "P (bump (length tau) i) (bump (length smc) j)"
      using less.prems by (intro less.hyps) (auto simp: bump_def)
  qed
qed

lemma stair_loop_len: "i < length tau \<Longrightarrow> j < length smc \<Longrightarrow>
  length (stair_loop tau smc i j) = (length tau - 1 - i) + (length smc - 1 - j)"
proof (induction i j rule: stair_induct)
  case (step i j)
  then show ?case by (subst stair_loop_step) (auto simp: bump_def)
qed

lemma stair_loop_levels: "i < length tau \<Longrightarrow> j < length smc \<Longrightarrow> p \<in> set (stair_loop tau smc i j) \<Longrightarrow>
  \<exists>i' j'. i' < length tau \<and> j' < length smc \<and> i + j < i' + j' \<and> p = Phi (tau ! i') (smc ! j')"
proof (induction i j rule: stair_induct)
  case (step i j)
  have "Suc i < length tau \<or> Suc j < length smc" using step(4) by (subst (asm) stair_loop_step) (auto split: if_splits)
  then have IH: "p \<in> set (stair_loop tau smc (bump (length tau) i) (bump (length smc) j)) \<Longrightarrow>
      \<exists>i' j'. i' < length tau \<and> j' < length smc \<and> i + j < i' + j' \<and> p = Phi (tau ! i') (smc ! j')"
    using step(3) bump_ge[of i "length tau"] bump_ge[of j "length smc"] by (meson add_le_mono le_less_trans)
  consider "Suc j < length smc" "p = Phi (tau ! i) (smc ! Suc j)"
    | "Suc i < length tau" "p = Phi (tau ! Suc i) (smc ! bump (length smc) j)"
    | "p \<in> set (stair_loop tau smc (bump (length tau) i) (bump (length smc) j))"
    using step(4) by (subst (asm) stair_loop_step) (auto split: if_splits)
  then show ?case
  proof cases
    case 1
    then show ?thesis using step(1) by (intro exI[of _ i] exI[of _ "Suc j"]) auto
  next
    case 2
    then show ?thesis using bump_less[OF step(2)] bump_ge[of j "length smc"]
      by (intro exI[of _ "Suc i"] exI[of _ "bump (length smc) j"]) auto
  qed (rule IH)
qed

lemma stair_loop_chain:
  assumes "sorted (rev tau)" "sorted smc" "i < length tau" "j < length smc"
  shows "successively one_stair (Phi (tau ! i) (smc ! j) # stair_loop tau smc i j)
    \<and> last (Phi (tau ! i) (smc ! j) # stair_loop tau smc i j) = Phi (last tau) (last smc)"
  using assms(3,4)
proof (induction i j rule: stair_induct)
  case (step i j)
  have t: "tau ! Suc i \<le> tau ! i" if "Suc i < length tau"
    using assms(1) that by (simp add: sorted_rev_iff_nth_mono)
  have s: "smc ! j \<le> smc ! Suc j" if "Suc j < length smc"
    using assms(2) that by (simp add: sorted_iff_nth_mono)
  show ?case
  proof (cases "Suc i < length tau"; cases "Suc j < length smc")
    assume "Suc i < length tau" "Suc j < length smc"
    then show ?thesis using step(3) t s by (subst (1 2) stair_loop_step) (simp add: bump_def one_stair_def refines_def)
  next
    assume "Suc i < length tau" "\<not> Suc j < length smc"
    then show ?thesis using step(3) t by (subst (1 2) stair_loop_step) (simp add: bump_def one_stair_def refines_def)
  next
    assume "\<not> Suc i < length tau" "Suc j < length smc"
    then show ?thesis using step(3) s by (subst (1 2) stair_loop_step) (simp add: bump_def one_stair_def refines_def)
  next
    assume c: "\<not> Suc i < length tau" "\<not> Suc j < length smc"
    then have "i = length tau - 1" "j = length smc - 1" using step(1,2) by auto
    moreover have "tau \<noteq> []" "smc \<noteq> []" using step(1,2) by auto
    ultimately show ?thesis using c by (subst (1 2) stair_loop_step) (simp add: last_conv_nth)
  qed
qed

subsection \<open>The contract of a ladder policy\<close>

definition ladder_sorted :: "phi list \<Rightarrow> bool" where
  "ladder_sorted l \<longleftrightarrow> sorted_wrt refines l"

text \<open>
  The engine relies on a non-empty ladder over the given levels that refines step by step, so that
  a sample prefix can be reused and a later step with the same sample count has a tighter tolerance.
\<close>

locale ladder_policy =
  fixes build :: "u64 list \<Rightarrow> u32 list \<Rightarrow> phi list res"
  assumes build_ok: "tau \<noteq> [] \<Longrightarrow> smc \<noteq> [] \<Longrightarrow>
      \<exists>l. build tau smc = Inr l \<and> l \<noteq> [] \<and> ladder_sorted l
        \<and> (\<forall>p \<in> set l. phi_tau p \<in> set tau \<and> phi_smc p \<in> set smc)"
begin

lemma smc_prefix:
  assumes "build tau smc = Inr l" "tau \<noteq> []" "smc \<noteq> []" "i \<le> j" "j < length l"
  shows "phi_smc (l ! i) \<le> phi_smc (l ! j) \<and> phi_tau (l ! j) \<le> phi_tau (l ! i)"
proof (cases "i = j")
  case False
  have "ladder_sorted l" using build_ok[OF assms(2,3)] assms(1) by auto
  with False assms(4,5) show ?thesis
    by (auto simp: ladder_sorted_def sorted_wrt_iff_nth_less refines_def)
qed simp

end

lemma build_ladder_Inr: "tau \<noteq> [] \<Longrightarrow> smc \<noteq> [] \<Longrightarrow>
  build_ladder tau smc = Inr (Phi (rev (sort tau) ! 0) (sort smc ! 0) # stair_loop (rev (sort tau)) (sort smc) 0 0)"
  by (simp add: build_ladder_def Let_def)

lemma successively_refines: "successively one_stair l \<Longrightarrow> ladder_sorted l"
proof (induction l rule: induct_list012)
  case (3 x y zs)
  then have "refines x y" "sorted_wrt refines (y # zs)" by (simp_all add: ladder_sorted_def one_stair_def)
  then show ?case by (auto simp: ladder_sorted_def intro: refines_trans)
qed (simp_all add: ladder_sorted_def)

lemma sort_not_Nil: "xs \<noteq> [] \<Longrightarrow> sort xs \<noteq> []"
  by (metis length_0_conv length_sort)

lemma hd_sort_Min: "xs \<noteq> [] \<Longrightarrow> hd (sort xs) = Min (set (xs :: 'a :: linorder list))"
proof (rule Min_eqI[symmetric])
  assume n: "xs \<noteq> []"
  show "hd (sort xs) \<in> set xs" using hd_in_set[OF sort_not_Nil[OF n]] by simp
  fix y assume "y \<in> set xs"
  moreover have "sorted (hd (sort xs) # tl (sort xs))" using sort_not_Nil[OF n] by simp
  ultimately show "hd (sort xs) \<le> y" using sort_not_Nil[OF n]
    by (metis list.collapse order_refl set_ConsD set_sort sorted_simps(2))
qed simp

lemma last_sort_Max: "xs \<noteq> [] \<Longrightarrow> last (sort xs) = Max (set (xs :: 'a :: linorder list))"
proof (rule Max_eqI[symmetric])
  assume "xs \<noteq> []"
  then have n: "sort xs \<noteq> []" by (rule sort_not_Nil)
  then show "last (sort xs) \<in> set xs" using last_in_set[of "sort xs"] by simp
  fix y assume "y \<in> set xs"
  then obtain k where "k < length (sort xs)" "y = sort xs ! k" by (metis in_set_conv_nth set_sort)
  then show "y \<le> last (sort xs)"
    unfolding last_conv_nth[OF n] by (simp add: sorted_nth_mono del: length_sort)
qed simp

lemma build_ladder_props:
  assumes "tau \<noteq> []" "smc \<noteq> []"
  obtains l where "build_ladder tau smc = Inr l" "length l = length tau + length smc - 1"
    "hd l = Phi (Max (set tau)) (Min (set smc))" "last l = Phi (Min (set tau)) (Max (set smc))"
    "successively one_stair l" "\<forall>p \<in> set l. phi_tau p \<in> set tau \<and> phi_smc p \<in> set smc"
proof -
  have ne': "sort tau \<noteq> []" "sort smc \<noteq> []" using assms by (simp_all add: sort_not_Nil)
  define t s where "t = rev (sort tau)" and "s = sort smc"
  have ne: "t \<noteq> []" "s \<noteq> []" "sorted (rev t)" "sorted s" and len: "length t = length tau" "length s = length smc"
    using ne' by (simp_all add: t_def s_def)
  then have pos: "0 < length t" "0 < length s" by auto
  define l where "l = Phi (t ! 0) (s ! 0) # stair_loop t s 0 0"
  have e: "hd t = last (sort tau)" "last t = hd (sort tau)" "hd s = hd (sort smc)" "last s = last (sort smc)"
    by (simp_all add: t_def s_def hd_rev last_rev)
  have th: "t ! 0 = Max (set tau)" "last t = Min (set tau)"
    using last_sort_Max[OF assms(1)] hd_sort_Min[OF assms(1)]
    by (simp_all only: hd_conv_nth[OF ne(1), symmetric] e)
  have sh: "s ! 0 = Min (set smc)" "last s = Max (set smc)"
    using last_sort_Max[OF assms(2)] hd_sort_Min[OF assms(2)]
    by (simp_all only: hd_conv_nth[OF ne(2), symmetric] e)
  have "build_ladder tau smc = Inr l" using assms by (simp add: build_ladder_Inr l_def t_def s_def)
  moreover have "length l = length tau + length smc - 1"
    using stair_loop_len[OF pos] pos unfolding l_def list.size len by linarith
  moreover have "successively one_stair l" "last l = Phi (last t) (last s)"
    using stair_loop_chain[OF ne(3,4) pos] by (simp_all only: l_def)
  moreover have "\<forall>p \<in> set l. phi_tau p \<in> set tau \<and> phi_smc p \<in> set smc"
  proof
    fix p assume "p \<in> set l"
    then have "p = Phi (t ! 0) (s ! 0) \<or> p \<in> set (stair_loop t s 0 0)" by (simp add: l_def)
    then obtain i j where "i < length t" "j < length s" "p = Phi (t ! i) (s ! j)"
      using stair_loop_levels[OF pos] pos by blast
    then have "phi_tau p \<in> set t" "phi_smc p \<in> set s" by simp_all
    then show "phi_tau p \<in> set tau \<and> phi_smc p \<in> set smc" by (simp add: t_def s_def)
  qed
  ultimately show thesis using th sh by (intro that[of l]) (simp_all only: l_def list.sel)
qed

interpretation staircase: ladder_policy build_ladder
proof
  fix tau :: "u64 list" and smc :: "u32 list" assume ne: "tau \<noteq> []" "smc \<noteq> []"
  from build_ladder_props[OF ne] obtain l where l: "build_ladder tau smc = Inr l"
    "length l = length tau + length smc - 1" "successively one_stair l"
    "\<forall>p \<in> set l. phi_tau p \<in> set tau \<and> phi_smc p \<in> set smc" by metis
  from l(2) ne have "l \<noteq> []" by (cases tau; cases smc) auto
  with l show "\<exists>l. build_ladder tau smc = Inr l \<and> l \<noteq> [] \<and> ladder_sorted l
      \<and> (\<forall>p \<in> set l. phi_tau p \<in> set tau \<and> phi_smc p \<in> set smc)"
    by (auto simp: successively_refines)
qed

text \<open>
  C31: on non-empty level lists \<open>build_ladder\<close> returns a ladder of \<open>|tau| + |smc| - 1\<close> steps that starts at
  the loosest tolerance with the fewest samples, ends at the tightest tolerance with the most, takes its
  levels from the arguments, and moves exactly one coordinate per step, never back; on an empty list it panics.
\<close>

theorem build_ladder_staircase:
  "if tau = [] \<or> smc = [] then build_ladder tau smc = Inl Assert_failed
   else (\<exists>l. build_ladder tau smc = Inr l \<and> length l = length tau + length smc - 1
     \<and> hd l = Phi (Max (set tau)) (Min (set smc)) \<and> last l = Phi (Min (set tau)) (Max (set smc))
     \<and> successively one_stair l \<and> phi_tau ` set l \<subseteq> set tau \<and> phi_smc ` set l \<subseteq> set smc)"
proof (cases "tau = [] \<or> smc = []")
  case False
  then have ne: "tau \<noteq> []" "smc \<noteq> []" by auto
  from build_ladder_props[OF ne] obtain l where l: "build_ladder tau smc = Inr l"
    "length l = length tau + length smc - 1" "hd l = Phi (Max (set tau)) (Min (set smc))"
    "last l = Phi (Min (set tau)) (Max (set smc))" "successively one_stair l"
    "\<forall>p \<in> set l. phi_tau p \<in> set tau \<and> phi_smc p \<in> set smc" by metis
  then have "phi_tau ` set l \<subseteq> set tau" "phi_smc ` set l \<subseteq> set smc" by auto
  with l False show ?thesis by simp
qed (auto simp: build_ladder_def)

theorem build_ladder_example:
  "build_ladder [1, 100, 10] [8, 32] = Inr [Phi 100 8, Phi 100 32, Phi 10 32, Phi 1 32]"
  by (simp add: build_ladder_def stair_loop.simps)

subsection \<open>Default levels\<close>

definition default_tau_levels :: "nat \<Rightarrow> u64 list" where
  "default_tau_levels dim = (if dim \<ge> 64 then [1000, 100, 10, 1] else [100, 10, 1])"

definition u32_sat_mul :: "u32 \<Rightarrow> u32 \<Rightarrow> u32" where
  "u32_sat_mul a b = (if unat a * unat b \<le> 2 ^ 32 - 1 then a * b else - 1)"

definition default_smc_levels :: "nat \<Rightarrow> u32 list" where
  "default_smc_levels dim =
     (let d = max dim 1; base = (if d \<le> 8 then 8 else if d \<le> 32 then 16 else 32);
        mid = max (u32_sat_mul base 4) (base + 1); high = max (u32_sat_mul mid 4) (mid + 1) in
      [base, mid, high])"

subsection \<open>Audit checkpoints\<close>

text \<open>
  Ladder indices are \<open>u32\<close> in the code and \<open>nat\<close> here. \<open>slice::binary_search\<close> on a sorted vector
  finds a value exactly when the vector contains it; \<open>collect_paired_sorted\<close> shows the vectors are sorted.
\<close>

definition collect_paired_phi_indices :: "phi list \<Rightarrow> nat \<Rightarrow> nat list" where
  "collect_paired_phi_indices ladder i =
     (if i \<ge> length ladder then []
      else let cur = ladder ! i in
        filter (\<lambda>j. phi_smc (ladder ! j) = phi_smc cur \<and> phi_tau (ladder ! j) < phi_tau cur)
          [Suc i ..< length ladder])"

definition is_paired_checkpoint :: "audit_origin option \<Rightarrow> nat \<Rightarrow> bool" where
  "is_paired_checkpoint origin phi_idx =
     (case origin of None \<Rightarrow> False | Some org \<Rightarrow> phi_idx \<in> set (ao_paired org))"

definition next_audit_target_idx :: "audit_origin option \<Rightarrow> nat \<Rightarrow> nat \<Rightarrow> nat" where
  "next_audit_target_idx origin current_idx ladder_len =
     (if ladder_len = 0 then 0
      else case origin of None \<Rightarrow> ladder_len - 1
        | Some org \<Rightarrow> (case find (\<lambda>idx. idx > current_idx) (ao_paired org) of
             Some idx \<Rightarrow> idx | None \<Rightarrow> ladder_len - 1))"

lemma collect_paired_sorted: "sorted_wrt (<) (collect_paired_phi_indices ladder i)"
  by (simp add: collect_paired_phi_indices_def Let_def sorted_wrt_filter)

lemma collect_paired_bounds: "j \<in> set (collect_paired_phi_indices ladder i) \<Longrightarrow> i < j \<and> j < length ladder"
  by (auto simp: collect_paired_phi_indices_def Let_def split: if_splits)

lemma find_greater_Min:
  assumes "sorted_wrt (<) xs" "\<exists>x \<in> set xs. c < x"
  shows "find (\<lambda>x. c < x) xs = Some (Min {x \<in> set xs. c < (x::nat)})"
  using assms
proof (induction xs)
  case (Cons y ys)
  show ?case
  proof (cases "c < y")
    case True
    have "Min {x \<in> set (y # ys). c < x} = y"
      using True Cons.prems(1) by (intro Min_eqI) auto
    with True show ?thesis by simp
  next
    case False
    then have "{x \<in> set (y # ys). c < x} = {x \<in> set ys. c < x}" by auto
    with False Cons show ?thesis by auto
  qed
qed simp

lemma next_audit_target_gt:
  assumes "\<forall>org. origin = Some org \<longrightarrow> (\<forall>j \<in> set (ao_paired org). j < n)" "cur < n - 1"
  shows "cur < next_audit_target_idx origin cur n \<and> next_audit_target_idx origin cur n < n"
  using assms by (auto simp: next_audit_target_idx_def find_Some_iff split: option.splits)

text \<open>
  C32: the checkpoints of an audit are the later steps with the sample count of the cut and a strictly
  tighter tolerance; from any step before the last the audit moves to the least checkpoint or last step
  beyond it, so it visits every remaining checkpoint in order and then ends in the TRUTH step.
\<close>

theorem audit_visits_checkpoints:
  assumes org: "ao_paired org = collect_paired_phi_indices ladder ci" and cur: "cur < length ladder - 1"
  shows "next_audit_target_idx (Some org) cur (length ladder)
       = Min {j. cur < j \<and> (is_paired_checkpoint (Some org) j \<or> j = length ladder - 1)}
    \<and> (\<forall>j. is_paired_checkpoint (Some org) j \<longleftrightarrow> ci < j \<and> j < length ladder
         \<and> phi_smc (ladder ! j) = phi_smc (ladder ! ci) \<and> phi_tau (ladder ! j) < phi_tau (ladder ! ci))"
proof
  let ?P = "collect_paired_phi_indices ladder ci" and ?n = "length ladder"
  let ?A = "{j. cur < j \<and> (is_paired_checkpoint (Some org) j \<or> j = ?n - 1)}"
  have A: "?A = {x \<in> set ?P. cur < x} \<union> {?n - 1}"
    using cur by (auto simp: is_paired_checkpoint_def org)
  have ub: "\<forall>x \<in> set ?P. x \<le> ?n - 1" using collect_paired_bounds by fastforce
  show "next_audit_target_idx (Some org) cur ?n = Min ?A"
  proof (cases "\<exists>x \<in> set ?P. cur < x")
    case True
    have m: "Min {x \<in> set ?P. cur < x} \<in> {x \<in> set ?P. cur < x}" using True by (intro Min_in) auto
    have "Min ?A = min (Min {x \<in> set ?P. cur < x}) (?n - 1)"
      unfolding A using True by (subst Min_Un) auto
    with m ub have "Min ?A = Min {x \<in> set ?P. cur < x}" by auto
    with cur show ?thesis
      by (auto simp: next_audit_target_idx_def org find_greater_Min[OF collect_paired_sorted True])
  next
    case False
    then have "find (\<lambda>x. cur < x) ?P = None" by (auto simp: find_None_iff)
    moreover have "?A = {?n - 1}" unfolding A using False by auto
    ultimately show ?thesis using cur by (simp add: next_audit_target_idx_def org)
  qed
  show "\<forall>j. is_paired_checkpoint (Some org) j \<longleftrightarrow> ci < j \<and> j < ?n
      \<and> phi_smc (ladder ! j) = phi_smc (ladder ! ci) \<and> phi_tau (ladder ! j) < phi_tau (ladder ! ci)"
    by (auto simp: is_paired_checkpoint_def org collect_paired_phi_indices_def Let_def)
qed

definition ladder_demo :: "phi list" where
  "ladder_demo = [Phi 100 8, Phi 100 32, Phi 10 32, Phi 1 32]"

theorem audit_visits_checkpoints_witness:
  "next_audit_target_idx (Some \<lparr>ao_violated_j = 0, ao_phi_at_cut = Phi 100 32, ao_phi_idx_at_cut = 1,
     ao_paired = collect_paired_phi_indices ladder_demo 1\<rparr>) 1 4 = Min {j. 1 < j \<and> (j = 2 \<or> j = 3)}"
proof -
  have c: "collect_paired_phi_indices ladder_demo 1 = [2, 3]" by code_simp
  have len: "length ladder_demo = 4" "1 < length ladder_demo - 1" by (simp_all add: ladder_demo_def)
  let ?o = "\<lparr>ao_violated_j = 0, ao_phi_at_cut = Phi 100 32, ao_phi_idx_at_cut = 1,
    ao_paired = collect_paired_phi_indices ladder_demo 1\<rparr>"
  have "next_audit_target_idx (Some ?o) 1 4 = Min {j. 1 < j \<and> (is_paired_checkpoint (Some ?o) j \<or> j = 4 - 1)}"
    using audit_visits_checkpoints[of ?o ladder_demo 1 1, OF _ len(2)] unfolding len(1) by simp
  moreover have "is_paired_checkpoint (Some ?o) j \<or> j = 4 - 1 \<longleftrightarrow> j = 2 \<or> j = 3" for j
    unfolding c by (auto simp: is_paired_checkpoint_def)
  ultimately show ?thesis by (simp only:)
qed

end
