(* ===== verification/Acceptance.thy ===== *)
theory Acceptance
  imports Types
begin

text \<open>
  \<open>core/acceptance.rs\<close>: the progressive barrier, the filter of non-dominated points and
  \<open>DefaultAcceptance\<close>. The trait \<open>AcceptancePolicy\<close> with the contract its documentation states is the
  locale \<open>acceptance_policy\<close>; the lemmas on whole runs are proved in it once and
  reach \<open>DefaultAcceptance\<close> by an interpretation. \<open>f64::clamp(0.0, 1.0)\<close> has constant bounds and
  cannot panic. \<open>sort_by\<close> is modelled by a stable sort; with a NaN in the filter the standard
  library leaves the order unspecified, and no lemma rests on it.
\<close>

record accept_cfg =
  ac_h0 :: f64
  ac_h_min :: f64
  ac_h_shrink :: f64
  ac_eps_f :: f64
  ac_eps_v :: f64
  ac_filter_cap :: nat

definition accept_cfg_default :: accept_cfg where
  "accept_cfg_default = \<lparr>ac_h0 = 0, ac_h_min = 0, ac_h_shrink = f_lit 1 2, ac_eps_f = f_lit 1 (10 ^ 12),
     ac_eps_v = f_lit 1 (10 ^ 12), ac_filter_cap = 64\<rparr>"

record barrier_state =
  bs_h :: f64

definition barrier_new :: "accept_cfg \<Rightarrow> barrier_state" where
  "barrier_new cfg =
     (let h0 = (if \<not> is_finite (ac_h0 cfg) \<or> ac_h0 cfg < 0 then 0 else ac_h0 cfg) in
      \<lparr>bs_h = f_max h0 (f_max (ac_h_min cfg) 0)\<rparr>)"

definition tighten_on_poll_fail :: "accept_cfg \<Rightarrow> barrier_state \<Rightarrow> barrier_state" where
  "tighten_on_poll_fail cfg b =
     (let shrink = the (f_clamp (ac_h_shrink cfg) 0 1); next_h = bs_h b * shrink in
      b\<lparr>bs_h := f_max next_h (f_max (ac_h_min cfg) 0)\<rparr>)"

record filter_point =
  fp_f :: f64
  fp_v :: f64

definition dominates :: "filter_point \<Rightarrow> filter_point \<Rightarrow> f64 \<Rightarrow> f64 \<Rightarrow> bool" where
  "dominates a b eps_f eps_v =
     (let ef = f_max eps_f 0; ev = f_max eps_v 0;
        f_le = fp_f a \<le> fp_f b + ef; v_le = fp_v a \<le> fp_v b + ev;
        f_lt = fp_f a < fp_f b - ef; v_lt = fp_v a < fp_v b - ev in
      f_le \<and> v_le \<and> (f_lt \<or> v_lt))"

text \<open>
  The comparator of \<open>filter_insert\<close>, as \<open>cmp(a, b) != Greater\<close>: by violation, then by objective,
  \<open>partial_cmp\<close> of incomparable values counting as equal.
\<close>

definition filter_le :: "filter_point \<Rightarrow> filter_point \<Rightarrow> bool" where
  "filter_le a b \<longleftrightarrow> fp_v a < fp_v b \<or> \<not> fp_v a > fp_v b \<and> \<not> fp_f a > fp_f b"

definition filter_insert :: "filter_point list \<Rightarrow> filter_point \<Rightarrow> accept_cfg \<Rightarrow> bool \<times> filter_point list" where
  "filter_insert points p cfg =
     (if \<exists>q \<in> set points. dominates q p (ac_eps_f cfg) (ac_eps_v cfg) then (False, points)
      else
        let kept = filter (\<lambda>q. \<not> dominates p q (ac_eps_f cfg) (ac_eps_v cfg)) points;
          pts = kept @ [p]; cap = max (ac_filter_cap cfg) 1 in
        (True, if length pts > cap then take cap (sort_by filter_le pts) else pts))"

record filter_state =
  fs_points :: "filter_point list"
  fs_incumbent_feasible_f :: "f64 option"

record acceptance_state =
  as_barrier :: barrier_state
  as_filter :: filter_state

definition acceptance_state_new :: "accept_cfg \<Rightarrow> acceptance_state" where
  "acceptance_state_new cfg = \<lparr>as_barrier = barrier_new cfg,
     as_filter = \<lparr>fs_points = [], fs_incumbent_feasible_f = None\<rparr>\<rparr>"

datatype truth_decision = Reject | Accept

definition decide_truth :: "accept_cfg \<Rightarrow> acceptance_state \<Rightarrow> xmesh \<Rightarrow> f64 \<Rightarrow> f64 \<Rightarrow> truth_decision \<times> acceptance_state" where
  "decide_truth cfg s x f v =
     (if v > bs_h (as_barrier s) then (Reject, s)
      else
        let fs = as_filter s;
          inc = (if v \<le> 0 then
                   (case fs_incumbent_feasible_f fs of None \<Rightarrow> Some f
                    | Some best \<Rightarrow> if f < best then Some f else Some best)
                 else fs_incumbent_feasible_f fs);
          (accepted, pts) = filter_insert (fs_points fs) \<lparr>fp_f = f, fp_v = v\<rparr> cfg in
        (if accepted then Accept else Reject,
         s\<lparr>as_filter := fs\<lparr>fs_points := pts, fs_incumbent_feasible_f := inc\<rparr>\<rparr>))"

definition acc_on_iteration_end :: "accept_cfg \<Rightarrow> acceptance_state \<Rightarrow> bool \<Rightarrow> bool \<Rightarrow> acceptance_state" where
  "acc_on_iteration_end cfg s poll_attempted iter_improved =
     (if poll_attempted \<and> \<not> iter_improved
      then s\<lparr>as_barrier := tighten_on_poll_fail cfg (as_barrier s)\<rparr> else s)"

subsection \<open>The contract of an acceptance policy\<close>

text \<open>What the engine does with the policy: results are decided, iterations end.\<close>

datatype acc_op = Decide xmesh f64 f64 | Iter_end bool bool

locale acceptance_policy =
  fixes decide :: "'s \<Rightarrow> xmesh \<Rightarrow> f64 \<Rightarrow> f64 \<Rightarrow> truth_decision \<times> 's"
    and iter_end :: "'s \<Rightarrow> bool \<Rightarrow> bool \<Rightarrow> 's"
    and barrier :: "'s \<Rightarrow> f64"
    and inv :: "'s \<Rightarrow> bool"
  assumes inv_decide: "inv s \<Longrightarrow> inv (snd (decide s x f v))"
    and inv_iter_end: "inv s \<Longrightarrow> inv (iter_end s pa ii)"
    and barrier_decide: "inv s \<Longrightarrow> barrier (snd (decide s x f v)) \<le> barrier s"
    and barrier_iter_end: "inv s \<Longrightarrow> barrier (iter_end s pa ii) \<le> barrier s"
    and gate: "inv s \<Longrightarrow> fst (decide s x f v) = Accept \<Longrightarrow> \<not> barrier s < v"
begin

fun op_step :: "acc_op \<Rightarrow> 's \<Rightarrow> 's" where
  "op_step (Decide x f v) s = snd (decide s x f v)"
| "op_step (Iter_end pa ii) s = iter_end s pa ii"

lemma op_step_inv: "inv s \<Longrightarrow> inv (op_step a s) \<and> barrier (op_step a s) \<le> barrier s"
  by (cases a) (simp_all add: inv_decide inv_iter_end barrier_decide barrier_iter_end)

lemma run_inv: "inv s \<Longrightarrow> inv (fold op_step ops s)"
  by (induction ops arbitrary: s) (simp_all add: op_step_inv)

lemma barrier_not_nan: "inv s \<Longrightarrow> barrier s \<le> barrier s"
  using op_step_inv[of s "Iter_end True True"] by (meson f_le_D f_le_refl)

lemma run_barrier: "inv s \<Longrightarrow> barrier (fold op_step ops s) \<le> barrier s"
proof (induction ops arbitrary: s)
  case (Cons a ops)
  from op_step_inv[OF Cons.prems, of a] show ?case by (auto intro: f_le_trans Cons.IH)
qed (simp add: barrier_not_nan)

lemma accept_gate_run:
  assumes "inv s" "fst (decide (fold op_step ops s) x f v) = Accept"
  shows "\<not> barrier s < v"
proof
  assume "barrier s < v"
  with run_barrier[OF assms(1)] have "barrier (fold op_step ops s) < v" by (rule f_le_less_trans)
  with gate[OF run_inv[OF assms(1)] assms(2)] show False by simp
qed

end

subsection \<open>The barrier\<close>

definition barrier_floor :: "accept_cfg \<Rightarrow> f64" where
  "barrier_floor cfg = f_max (ac_h_min cfg) 0"

lemma barrier_floor_nonneg: "0 \<le> barrier_floor cfg"
  unfolding barrier_floor_def using f_max_ge2[of 0 "ac_h_min cfg"] by simp

lemma mult_shrink_le: "0 \<le> x \<Longrightarrow> 0 \<le> s \<Longrightarrow> s \<le> 1 \<Longrightarrow> \<not> is_nan (x * s) \<Longrightarrow> (x * s :: f64) \<le> x"
proof (cases "is_finite x")
  case False
  assume a: "0 \<le> x" "\<not> is_nan (x * s)"
  have "x = f_inf"
    using a(1) False by (cases x) (auto simp: nonneg_iff f64_pred_defs INF_MAG_def)
  then show ?thesis using a(2) by (auto simp: f64_ord_defs is_nan_def fkey_def)
qed (rule mult_le_f64)

lemma shrink_cases: "is_nan (the (f_clamp s 0 1)) \<or> 0 \<le> the (f_clamp s 0 1) \<and> the (f_clamp s 0 1) \<le> 1"
proof (cases "is_nan s")
  case False
  have "f_clamp s 0 1 \<noteq> None" by simp
  then obtain y where y: "f_clamp s 0 1 = Some y" by blast
  then show ?thesis using f_clamp_bounds[OF y False] by simp
qed (simp add: f_clamp_nan)

text \<open>The barrier of every state is a number at or above the configured minimum.\<close>

definition barrier_ok :: "accept_cfg \<Rightarrow> acceptance_state \<Rightarrow> bool" where
  "barrier_ok cfg s \<longleftrightarrow> barrier_floor cfg \<le> bs_h (as_barrier s)"

lemma tighten_bounds:
  assumes "barrier_floor cfg \<le> bs_h b"
  shows "bs_h (tighten_on_poll_fail cfg b) \<le> bs_h b \<and> barrier_floor cfg \<le> bs_h (tighten_on_poll_fail cfg b)"
proof
  let ?s = "the (f_clamp (ac_h_shrink cfg) 0 1)"
  have h: "0 \<le> bs_h b" using barrier_floor_nonneg assms by (rule f_le_trans)
  have "bs_h b * ?s \<le> bs_h b \<or> is_nan (bs_h b * ?s)"
    using shrink_cases[of "ac_h_shrink cfg"] mult_shrink_le[OF h, of ?s] by (auto simp: times_f64_def is_nan_def)
  then show "bs_h (tighten_on_poll_fail cfg b) \<le> bs_h b"
    using assms by (simp add: tighten_on_poll_fail_def Let_def barrier_floor_def f_max_least)
  show "barrier_floor cfg \<le> bs_h (tighten_on_poll_fail cfg b)"
    using f_max_ge2[of "barrier_floor cfg"] f_le_D[OF assms]
    by (simp add: tighten_on_poll_fail_def Let_def barrier_floor_def)
qed

lemma barrier_new_ok: "barrier_ok cfg (acceptance_state_new cfg)"
  using f_max_ge2[of "barrier_floor cfg"] f_le_D[OF barrier_floor_nonneg]
  by (simp add: barrier_ok_def acceptance_state_new_def barrier_new_def Let_def barrier_floor_def)

lemma decide_barrier [simp]: "as_barrier (snd (decide_truth cfg s x f v)) = as_barrier s"
  by (simp add: decide_truth_def Let_def split: prod.split)

interpretation da: acceptance_policy "decide_truth cfg" "acc_on_iteration_end cfg"
    "\<lambda>s. bs_h (as_barrier s)" "barrier_ok cfg" for cfg
proof unfold_locales
  fix s x f v pa ii
  assume s: "barrier_ok cfg s"
  show "barrier_ok cfg (snd (decide_truth cfg s x f v))" using s by (simp add: barrier_ok_def)
  show "barrier_ok cfg (acc_on_iteration_end cfg s pa ii)"
    using s tighten_bounds[of cfg "as_barrier s"] by (simp add: barrier_ok_def acc_on_iteration_end_def)
  show "bs_h (as_barrier (snd (decide_truth cfg s x f v))) \<le> bs_h (as_barrier s)"
    using s f_le_D by (auto simp: barrier_ok_def intro: f_le_refl)
  show "bs_h (as_barrier (acc_on_iteration_end cfg s pa ii)) \<le> bs_h (as_barrier s)"
    using s tighten_bounds[of cfg "as_barrier s"] f_le_D
    by (auto simp: barrier_ok_def acc_on_iteration_end_def intro: f_le_refl)
  show "\<not> bs_h (as_barrier s) < v" if "fst (decide_truth cfg s x f v) = Accept"
    using that by (auto simp: decide_truth_def split: if_splits)
qed

subsection \<open>The filter\<close>

lemma dominates_irrefl: "\<not> dominates p p ef ev"
proof -
  have "\<not> x < x - f_max e 0" for x e :: f64
  proof
    assume l: "x < x - f_max e 0"
    have e: "0 \<le> f_max e 0" by (rule f_max_ge2) simp
    show False
    proof (cases "is_finite x")
      case True
      from f_le_less_trans[OF sub_decreasing_f64[OF this e] l] show False by (simp add: f64_ord_defs)
    next
      case False
      have "\<not> is_nan x" "\<not> is_nan (x - f_max e 0)" using l by (simp_all add: f64_ord_defs)
      with False have "x - f_max e 0 = x"
        by (auto simp: minus_f64_def plus_f64_def finite_iff is_nan_def split: if_splits)
      with l show False by (simp add: f64_ord_defs)
    qed
  qed
  then show ?thesis by (simp add: dominates_def Let_def)
qed

definition filter_ok :: "accept_cfg \<Rightarrow> filter_point list \<Rightarrow> bool" where
  "filter_ok cfg pts \<longleftrightarrow> length pts \<le> max (ac_filter_cap cfg) 1 \<and>
     (\<forall>p \<in> set pts. \<forall>q \<in> set pts. \<not> dominates p q (ac_eps_f cfg) (ac_eps_v cfg))"

lemma filter_insert_reject: "\<exists>q \<in> set pts. dominates q p (ac_eps_f cfg) (ac_eps_v cfg) \<Longrightarrow>
  filter_insert pts p cfg = (False, pts)"
  by (simp add: filter_insert_def)

lemma filter_insert_accept:
  assumes "\<not> (\<exists>q \<in> set pts. dominates q p (ac_eps_f cfg) (ac_eps_v cfg))"
  obtains n c where "n = filter (\<lambda>q. \<not> dominates p q (ac_eps_f cfg) (ac_eps_v cfg)) pts @ [p]"
    "c = max (ac_filter_cap cfg) 1"
    "filter_insert pts p cfg = (True, if length n > c then take c (sort_by filter_le n) else n)"
  using assms unfolding filter_insert_def Let_def by (simp only: if_False)

lemma filter_insert_ok: "filter_ok cfg pts \<Longrightarrow> filter_ok cfg (snd (filter_insert pts p cfg))"
proof (cases "\<exists>q \<in> set pts. dominates q p (ac_eps_f cfg) (ac_eps_v cfg)")
  case False
  assume ok: "filter_ok cfg pts"
  let ?dom = "\<lambda>a b. dominates a b (ac_eps_f cfg) (ac_eps_v cfg)"
  from filter_insert_accept[OF False] obtain n c
    where n: "n = filter (\<lambda>q. \<not> ?dom p q) pts @ [p]" and c: "c = max (ac_filter_cap cfg) 1"
      and fi: "filter_insert pts p cfg = (True, if length n > c then take c (sort_by filter_le n) else n)" .
  have nd: "\<forall>a \<in> set n. \<forall>b \<in> set n. \<not> ?dom a b"
    using ok False by (auto simp: n filter_ok_def dominates_irrefl)
  moreover have "set (take c (sort_by filter_le n)) \<subseteq> set n"
    using set_take_subset[of c "sort_by filter_le n"] by simp
  ultimately have "\<forall>a \<in> set (take c (sort_by filter_le n)). \<forall>b \<in> set (take c (sort_by filter_le n)). \<not> ?dom a b"
    by blast
  with nd show ?thesis unfolding filter_ok_def fi c[symmetric] by simp
qed (simp add: filter_insert_reject)

lemma filter_le_total: "\<not> is_nan (fp_f a) \<Longrightarrow> \<not> is_nan (fp_v a) \<Longrightarrow> \<not> is_nan (fp_f b) \<Longrightarrow>
    \<not> is_nan (fp_v b) \<Longrightarrow> filter_le a b \<or> filter_le b a"
  and filter_le_trans: "\<not> is_nan (fp_f b) \<Longrightarrow> \<not> is_nan (fp_v b) \<Longrightarrow> \<not> is_nan (fp_f a) \<Longrightarrow>
    \<not> is_nan (fp_v a) \<Longrightarrow> \<not> is_nan (fp_f c) \<Longrightarrow> \<not> is_nan (fp_v c) \<Longrightarrow>
    filter_le a b \<Longrightarrow> filter_le b c \<Longrightarrow> filter_le a c"
  by (auto simp: filter_le_def f64_ord_defs)

text \<open>
  C27: \<open>filter_insert\<close> accepts exactly the points no stored point dominates; the stored points stay
  pairwise non-dominated and within the cap; a point it accepts is stored unless the cap was exceeded; and every
  point that leaves was dominated by the new one or, when the cap was exceeded, is no better than any point kept
  in the order by violation and then objective.
\<close>

theorem filter_insert_correct:
  assumes "filter_ok cfg pts" "filter_insert pts p cfg = (accepted, pts')"
    and nn: "\<forall>q \<in> insert p (set pts). \<not> is_nan (fp_f q) \<and> \<not> is_nan (fp_v q)"
  shows "filter_ok cfg pts' \<and> set pts' \<subseteq> insert p (set pts)
    \<and> (accepted \<longleftrightarrow> \<not> (\<exists>q \<in> set pts. dominates q p (ac_eps_f cfg) (ac_eps_v cfg)))
    \<and> (\<not> accepted \<longrightarrow> pts' = pts)
    \<and> (accepted \<longrightarrow> (\<forall>q \<in> insert p (set pts). q \<in> set pts' \<or> dominates p q (ac_eps_f cfg) (ac_eps_v cfg)
         \<or> length pts' = max (ac_filter_cap cfg) 1 \<and> (\<forall>r \<in> set pts'. filter_le r q)))"
proof -
  let ?dom = "\<lambda>a b. dominates a b (ac_eps_f cfg) (ac_eps_v cfg)"
  have ok: "filter_ok cfg pts'" using filter_insert_ok[OF assms(1), of p] assms(2) by simp
  show ?thesis
  proof (cases "\<exists>q \<in> set pts. ?dom q p")
    case True
    with assms(2) ok show ?thesis by (auto simp: filter_insert_reject)
  next
    case False
    from filter_insert_accept[OF False] obtain n c
      where n: "n = filter (\<lambda>q. \<not> ?dom p q) pts @ [p]" and c: "c = max (ac_filter_cap cfg) 1"
        and fi: "filter_insert pts p cfg = (True, if length n > c then take c (sort_by filter_le n) else n)" .
    let ?s = "sort_by filter_le n"
    have acc: accepted and pts': "pts' = (if length n > c then take c ?s else n)" using assms(2) fi by simp_all
    have nnn: "\<forall>q \<in> set n. \<not> is_nan (fp_f q) \<and> \<not> is_nan (fp_v q)" using nn by (auto simp: n)
    have "sorted_wrt filter_le ?s"
      by (rule sorted_sort_by) (use nnn filter_le_total filter_le_trans in blast)+
    then have sorted: "sorted_wrt filter_le (take c ?s @ drop c ?s)" by simp
    have sub: "set pts' \<subseteq> insert p (set pts)"
      unfolding pts' using set_take_subset[of c ?s] by (auto simp: n)
    have "q \<in> set pts' \<or> length pts' = c \<and> (\<forall>r \<in> set pts'. filter_le r q)" if "q \<in> set n" for q
    proof (cases "length n > c \<and> q \<notin> set pts'")
      case True
      then have t: "pts' = take c ?s" "length pts' = c" by (simp_all add: pts')
      have "q \<in> set (drop c ?s)" using that True t(1) by (metis UnE append_take_drop_id set_append set_sort_by)
      then show ?thesis using sorted t unfolding sorted_wrt_append by blast
    qed (use that in \<open>auto simp: pts'\<close>)
    moreover have "q \<in> set n \<or> ?dom p q" if "q \<in> insert p (set pts)" for q using that by (auto simp: n)
    ultimately show ?thesis using False acc ok sub unfolding c by blast
  qed
qed

text \<open>A concrete filter, for the closed examples.\<close>

definition filter_demo :: "filter_point list" where
  "filter_demo = [\<lparr>fp_f = 1, fp_v = 0\<rparr>, \<lparr>fp_f = 0, fp_v = 1\<rparr>]"

theorem filter_insert_correct_witness:
  "filter_ok accept_cfg_default (snd (filter_insert filter_demo \<lparr>fp_f = 0, fp_v = 0\<rparr> accept_cfg_default))"
proof -
  have nn: "\<forall>q \<in> insert \<lparr>fp_f = 0, fp_v = 0\<rparr> (set filter_demo). \<not> is_nan (fp_f q) \<and> \<not> is_nan (fp_v q)"
    by (simp add: filter_demo_def is_nan_def one_f64_def zero_f64_def INF_MAG_def)
  have "\<not> dominates \<lparr>fp_f = 1, fp_v = 0\<rparr> \<lparr>fp_f = 0, fp_v = 1\<rparr> (f_lit 1 (10 ^ 12)) (f_lit 1 (10 ^ 12))"
    "\<not> dominates \<lparr>fp_f = 0, fp_v = 1\<rparr> \<lparr>fp_f = 1, fp_v = 0\<rparr> (f_lit 1 (10 ^ 12)) (f_lit 1 (10 ^ 12))"
    by (simp_all add: dominates_def f64_eval cong: if_weak_cong)
  then have "filter_ok accept_cfg_default filter_demo"
    by (simp add: filter_ok_def filter_demo_def accept_cfg_default_def dominates_irrefl)
  then show ?thesis
    using filter_insert_correct[OF _ prod.collapse[symmetric] nn] by blast
qed

subsection \<open>Runs\<close>

fun acc_step :: "accept_cfg \<Rightarrow> acc_op \<Rightarrow> acceptance_state \<Rightarrow> acceptance_state" where
  "acc_step cfg (Decide x f v) s = snd (decide_truth cfg s x f v)"
| "acc_step cfg (Iter_end pa ii) s = acc_on_iteration_end cfg s pa ii"

definition acc_run :: "accept_cfg \<Rightarrow> acc_op list \<Rightarrow> acceptance_state" where
  "acc_run cfg ops = fold (acc_step cfg) ops (acceptance_state_new cfg)"

lemma acc_step_op: "acc_step cfg = da.op_step cfg"
proof (intro ext)
  show "acc_step cfg a s = da.op_step cfg a s" for a s by (cases a) simp_all
qed

lemma acc_run_ok: "barrier_ok cfg (acc_run cfg ops)"
  unfolding acc_run_def acc_step_op by (rule da.run_inv[OF barrier_new_ok])

text \<open>
  C28: whatever results are decided and iterations ended, the barrier of \<open>DefaultAcceptance\<close> never
  rises, never falls below \<open>max h_min 0\<close>, and a result that is accepted does not exceed the barrier
  of any earlier point of the run.
\<close>

theorem barrier_progressive:
  "bs_h (as_barrier (acc_run cfg (ops @ ops'))) \<le> bs_h (as_barrier (acc_run cfg ops))
   \<and> barrier_floor cfg \<le> bs_h (as_barrier (acc_run cfg (ops @ ops')))
   \<and> \<not> (fst (decide_truth cfg (acc_run cfg (ops @ ops')) x f v) = Accept
        \<and> bs_h (as_barrier (acc_run cfg ops)) < v)"
proof -
  have app: "acc_run cfg (ops @ ops') = fold (da.op_step cfg) ops' (acc_run cfg ops)"
    by (simp add: acc_run_def acc_step_op)
  show ?thesis
    using da.run_barrier[OF acc_run_ok] da.accept_gate_run[OF acc_run_ok] acc_run_ok[of cfg "ops @ ops'"]
    unfolding app barrier_ok_def by blast
qed

fun feasible_obs :: "acc_op list \<Rightarrow> f64 list" where
  "feasible_obs [] = []"
| "feasible_obs (Decide x f v # ops) = (if v \<le> 0 then f # feasible_obs ops else feasible_obs ops)"
| "feasible_obs (Iter_end pa ii # ops) = feasible_obs ops"

lemma feasible_obs_append: "feasible_obs (xs @ ys) = feasible_obs xs @ feasible_obs ys"
  by (induction xs rule: feasible_obs.induct) auto

definition incumbent :: "acceptance_state \<Rightarrow> f64 option" where
  "incumbent s = fs_incumbent_feasible_f (as_filter s)"

lemma incumbent_decide:
  "barrier_ok cfg s \<Longrightarrow> incumbent (snd (decide_truth cfg s x f v)) =
    (if v \<le> 0 then (case incumbent s of None \<Rightarrow> Some f | Some b \<Rightarrow> Some (if f < b then f else b)) else incumbent s)"
proof -
  assume "barrier_ok cfg s"
  then have "0 \<le> bs_h (as_barrier s)"
    using barrier_floor_nonneg f_le_trans unfolding barrier_ok_def by blast
  then have "\<not> (v \<le> 0 \<and> bs_h (as_barrier s) < v)" by (auto simp: f64_ord_defs)
  then show ?thesis
    by (auto simp: decide_truth_def incumbent_def Let_def split: prod.split option.split)
qed

text \<open>
  C29: after any run whose feasible objective values are numbers, the feasible incumbent is the least
  objective value decided with violation at most zero, and there is none when there was no such result.
\<close>

theorem incumbent_is_minimum:
  assumes "\<forall>f \<in> set (feasible_obs ops). \<not> is_nan f"
  shows "case incumbent (acc_run cfg ops) of
      None \<Rightarrow> feasible_obs ops = []
    | Some b \<Rightarrow> b \<in> set (feasible_obs ops) \<and> (\<forall>f \<in> set (feasible_obs ops). b \<le> f)"
  using assms
proof (induction ops rule: rev_induct)
  case Nil
  show ?case by (simp add: acc_run_def incumbent_def acceptance_state_new_def)
next
  case (snoc a ops)
  have run: "acc_run cfg (ops @ [a]) = acc_step cfg a (acc_run cfg ops)" by (simp add: acc_run_def)
  have IH: "case incumbent (acc_run cfg ops) of None \<Rightarrow> feasible_obs ops = []
    | Some b \<Rightarrow> b \<in> set (feasible_obs ops) \<and> (\<forall>f \<in> set (feasible_obs ops). b \<le> f)"
    using snoc by (simp add: feasible_obs_append)
  show ?case
  proof (cases a)
    case (Iter_end pa ii)
    then have "incumbent (acc_run cfg (ops @ [a])) = incumbent (acc_run cfg ops)"
      unfolding run by (simp add: incumbent_def acc_on_iteration_end_def)
    moreover have "feasible_obs (ops @ [a]) = feasible_obs ops" by (simp add: Iter_end feasible_obs_append)
    ultimately show ?thesis using IH by (simp only:)
  next
    case (Decide x f v)
    have inc: "incumbent (acc_run cfg (ops @ [a])) = (if v \<le> 0
      then (case incumbent (acc_run cfg ops) of None \<Rightarrow> Some f | Some b \<Rightarrow> Some (if f < b then f else b))
      else incumbent (acc_run cfg ops))"
      unfolding run unfolding Decide acc_step.simps by (rule incumbent_decide[OF acc_run_ok])
    have nn: "v \<le> 0 \<Longrightarrow> \<not> is_nan f" using snoc.prems by (simp add: Decide feasible_obs_append)
    show ?thesis
      using IH nn unfolding inc
      by (auto simp: Decide feasible_obs_append f64_ord_defs split: option.splits)
  qed
qed

theorem incumbent_is_minimum_witness:
  "case incumbent (acc_run accept_cfg_default [Decide [] 1 0, Iter_end True False, Decide [] 0 0]) of
      None \<Rightarrow> False | Some b \<Rightarrow> b \<le> 0 \<and> b \<le> 1"
proof -
  have "(0 :: f64) \<le> 0" by (simp add: f_le_refl)
  moreover have "\<not> is_nan (1 :: f64)" by (simp add: is_nan_def one_f64_def INF_MAG_def)
  ultimately show ?thesis
    using incumbent_is_minimum[of "[Decide [] 1 0, Iter_end True False, Decide [] 0 0]" accept_cfg_default]
    by (auto split: option.splits)
qed

end
