(* ===== verification/Config.thy ===== *)
theory Config
  imports Ladder Calibrator Acceptance
begin

text \<open>
  \<open>EngineConfig\<close> and its validating constructor, the presets of \<open>presets.rs\<close>, and the parts of
  \<open>core/engine.rs\<close> that read the configuration: level resolution and the objective pruning gate. The arguments
  of \<open>EngineConfig::new\<close> are passed as a record of the type they build. The lemmas show which inputs are
  accepted, what each error bit means, and what an accepted configuration guarantees to the rest of the engine.
\<close>

record engine_cfg =
  ec_tau_levels :: "u64 list"
  ec_smc_levels :: "u32 list"
  ec_mesh_base_step :: f64
  ec_mesh_base_steps :: "f64 list option"
  ec_mesh_mul_init :: int
  ec_mesh_mul_min :: int
  ec_mesh_refine_div :: int
  ec_poll_step_mult :: int
  ec_max_iters :: nat
  ec_candidates_per_iter :: nat
  ec_search_dim :: "nat option"
  ec_max_steps_per_iter :: "nat option"
  ec_num_constraints :: nat
  ec_accept_h0 :: f64
  ec_accept_h_min :: f64
  ec_accept_h_shrink :: f64
  ec_accept_eps_f :: f64
  ec_accept_eps_v :: f64
  ec_accept_filter_cap :: nat
  ec_calibrator_target_false :: f64
  ec_calibrator_min_audits :: nat
  ec_calibrator_eta_delta :: f64
  ec_calibrator_delta_min :: f64
  ec_calibrator_delta_max :: f64
  ec_calibrator_k_window :: nat
  ec_calibrator_k_min_pairs :: nat
  ec_calibrator_k_quantile :: f64
  ec_calibrator_k_eta :: f64
  ec_objective_prune_min_smc_rank :: nat
  ec_objective_prune_min_level :: nat
  ec_objective_prune_require_back_half :: bool
  ec_objective_prune_disable_for_audit :: bool
  ec_batch_boundary :: "nat option"
  ec_executor_chunk_base :: nat
  ec_executor_chunk_min :: nat
  ec_executor_chunk_max :: nat
  ec_executor_spin_limit :: nat
  ec_executor_chunk_auto_tune :: bool

subsection \<open>Error flags\<close>

text \<open>The flags of \<open>ConfigError\<close> in the order of their bits.\<close>

datatype config_flag =
    CalibratorTargetFalse | CalibratorMinAudits | CalibratorEtaDelta | CalibratorDeltaRange | CalibratorKWindow
  | CalibratorKMinPairs | CalibratorKQuantile | CalibratorKEta | AcceptH0 | AcceptHMin | AcceptHShrink | AcceptEpsF
  | AcceptEpsV | MeshBaseStep | MeshMulInit | MeshMulMin | MeshRefineDiv | PollStepMult | ExecutorChunkBaseRange
  | SearchDim | ObjectivePruneMinSmcRank | ObjectivePruneMinLevel

fun flag_bit :: "config_flag \<Rightarrow> nat" where
  "flag_bit CalibratorTargetFalse = 0" | "flag_bit CalibratorMinAudits = 1" | "flag_bit CalibratorEtaDelta = 2"
| "flag_bit CalibratorDeltaRange = 3" | "flag_bit CalibratorKWindow = 4" | "flag_bit CalibratorKMinPairs = 5"
| "flag_bit CalibratorKQuantile = 6" | "flag_bit CalibratorKEta = 7" | "flag_bit AcceptH0 = 8"
| "flag_bit AcceptHMin = 9" | "flag_bit AcceptHShrink = 10" | "flag_bit AcceptEpsF = 11" | "flag_bit AcceptEpsV = 12"
| "flag_bit MeshBaseStep = 13" | "flag_bit MeshMulInit = 14" | "flag_bit MeshMulMin = 15"
| "flag_bit MeshRefineDiv = 16" | "flag_bit PollStepMult = 17" | "flag_bit ExecutorChunkBaseRange = 18"
| "flag_bit SearchDim = 19" | "flag_bit ObjectivePruneMinSmcRank = 20" | "flag_bit ObjectivePruneMinLevel = 21"

definition config_flag_word :: "config_flag \<Rightarrow> u32" where
  "config_flag_word f = push_bit (flag_bit f) 1"

text \<open>The checks of \<open>EngineConfig::new\<close> in order: the flags each one sets and whether it fails.\<close>

definition config_checks :: "engine_cfg \<Rightarrow> (config_flag list \<times> bool) list" where
  "config_checks p = [
     ([CalibratorTargetFalse], \<not> (0 \<le> ec_calibrator_target_false p \<and> ec_calibrator_target_false p \<le> 1)),
     ([CalibratorMinAudits], ec_calibrator_min_audits p < 1),
     ([CalibratorEtaDelta], \<not> (is_finite (ec_calibrator_eta_delta p) \<and> ec_calibrator_eta_delta p > 0)),
     ([CalibratorDeltaRange], \<not> (is_finite (ec_calibrator_delta_min p) \<and> is_finite (ec_calibrator_delta_max p)
        \<and> ec_calibrator_delta_min p \<ge> 0 \<and> ec_calibrator_delta_min p \<le> ec_calibrator_delta_max p)),
     ([CalibratorKWindow], ec_calibrator_k_window p < 1),
     ([CalibratorKMinPairs], \<not> (ec_calibrator_k_min_pairs p \<ge> 1
        \<and> ec_calibrator_k_min_pairs p \<le> max (ec_calibrator_k_window p) 1)),
     ([CalibratorKQuantile], \<not> (is_finite (ec_calibrator_k_quantile p)
        \<and> 0 \<le> ec_calibrator_k_quantile p \<and> ec_calibrator_k_quantile p \<le> 1)),
     ([CalibratorKEta], \<not> (is_finite (ec_calibrator_k_eta p) \<and> ec_calibrator_k_eta p > 0)),
     ([ObjectivePruneMinSmcRank], ec_objective_prune_min_smc_rank p < 1),
     ([ObjectivePruneMinLevel], ec_objective_prune_min_level p < 1),
     ([AcceptH0], \<not> ec_accept_h0 p \<ge> 0),
     ([AcceptHMin], \<not> ec_accept_h_min p \<ge> 0),
     ([AcceptH0, AcceptHMin], \<not> ec_accept_h_min p \<le> ec_accept_h0 p),
     ([AcceptHShrink], \<not> (0 \<le> ec_accept_h_shrink p \<and> ec_accept_h_shrink p \<le> 1)),
     ([AcceptEpsF], \<not> ec_accept_eps_f p \<ge> 0),
     ([AcceptEpsV], \<not> ec_accept_eps_v p \<ge> 0),
     ([MeshBaseStep], \<not> (is_finite (ec_mesh_base_step p) \<and> ec_mesh_base_step p > 0)),
     ([MeshMulMin], ec_mesh_mul_min p < 1),
     ([MeshMulInit], ec_mesh_mul_init p < max (ec_mesh_mul_min p) 1),
     ([MeshRefineDiv], ec_mesh_refine_div p < 2),
     ([PollStepMult], ec_poll_step_mult p < 1),
     ([SearchDim], ec_search_dim p = Some 0),
     ([ExecutorChunkBaseRange], \<not> (ec_executor_chunk_min p \<le> ec_executor_chunk_base p
        \<and> ec_executor_chunk_base p \<le> ec_executor_chunk_max p))]"

definition config_error :: "engine_cfg \<Rightarrow> u32" where
  "config_error p = fold (\<lambda>(fs, bad) err. if bad then fold (\<lambda>f e. e OR config_flag_word f) fs err else err)
     (config_checks p) 0"

lemma bit_config_flag_word: "bit (config_flag_word f) n \<longleftrightarrow> n = flag_bit f"
proof -
  have "flag_bit f < 32" by (cases f) simp_all
  then show ?thesis by (auto simp: config_flag_word_def bit_simps)
qed

lemma flag_bit_inj: "flag_bit f = flag_bit g \<longleftrightarrow> f = g"
  by (cases f; cases g) simp_all

lemma bit_or_flags: "bit (fold (\<lambda>f e. e OR config_flag_word f) fs e) n \<longleftrightarrow> bit e n \<or> n \<in> flag_bit ` set fs"
  by (induction fs arbitrary: e) (auto simp: bit_or_iff bit_config_flag_word)

lemma bit_or_checks: "bit (fold (\<lambda>(fs, bad) err. if bad then fold (\<lambda>f e. e OR config_flag_word f) fs err else err) cs e) n
  \<longleftrightarrow> bit e n \<or> (\<exists>(fs, bad) \<in> set cs. bad \<and> n \<in> flag_bit ` set fs)"
  by (induction cs arbitrary: e) (auto simp: bit_or_flags split: prod.split if_splits)

lemma bit_config_error: "bit (config_error p) n \<longleftrightarrow> (\<exists>(fs, bad) \<in> set (config_checks p). bad \<and> n \<in> flag_bit ` set fs)"
  by (simp add: config_error_def bit_or_checks)

text \<open>The inputs \<open>EngineConfig::new\<close> is documented to accept, as one predicate.\<close>

definition cfg_valid :: "engine_cfg \<Rightarrow> bool" where
  "cfg_valid p \<longleftrightarrow>
     0 \<le> ec_calibrator_target_false p \<and> ec_calibrator_target_false p \<le> 1
   \<and> 1 \<le> ec_calibrator_min_audits p
   \<and> is_finite (ec_calibrator_eta_delta p) \<and> 0 < ec_calibrator_eta_delta p
   \<and> is_finite (ec_calibrator_delta_min p) \<and> is_finite (ec_calibrator_delta_max p)
   \<and> 0 \<le> ec_calibrator_delta_min p \<and> ec_calibrator_delta_min p \<le> ec_calibrator_delta_max p
   \<and> 1 \<le> ec_calibrator_k_min_pairs p \<and> ec_calibrator_k_min_pairs p \<le> ec_calibrator_k_window p
   \<and> is_finite (ec_calibrator_k_quantile p) \<and> 0 \<le> ec_calibrator_k_quantile p \<and> ec_calibrator_k_quantile p \<le> 1
   \<and> is_finite (ec_calibrator_k_eta p) \<and> 0 < ec_calibrator_k_eta p
   \<and> 1 \<le> ec_objective_prune_min_smc_rank p \<and> 1 \<le> ec_objective_prune_min_level p
   \<and> 0 \<le> ec_accept_h_min p \<and> ec_accept_h_min p \<le> ec_accept_h0 p
   \<and> 0 \<le> ec_accept_h_shrink p \<and> ec_accept_h_shrink p \<le> 1
   \<and> 0 \<le> ec_accept_eps_f p \<and> 0 \<le> ec_accept_eps_v p
   \<and> is_finite (ec_mesh_base_step p) \<and> 0 < ec_mesh_base_step p
   \<and> 1 \<le> ec_mesh_mul_min p \<and> ec_mesh_mul_min p \<le> ec_mesh_mul_init p
   \<and> 2 \<le> ec_mesh_refine_div p \<and> 1 \<le> ec_poll_step_mult p
   \<and> ec_search_dim p \<noteq> Some 0
   \<and> ec_executor_chunk_min p \<le> ec_executor_chunk_base p \<and> ec_executor_chunk_base p \<le> ec_executor_chunk_max p"

lemma no_flag: "(\<forall>n. \<not> (\<exists>(fs, bad) \<in> S. bad \<and> n \<in> g ` set fs)) \<longleftrightarrow> (\<forall>(fs, bad) \<in> S. bad \<longrightarrow> fs = [])"
proof
  assume none: "\<forall>n. \<not> (\<exists>(fs, bad) \<in> S. bad \<and> n \<in> g ` set fs)"
  have "fs = []" if "(fs, bad) \<in> S" "bad" for fs bad
  proof -
    have "g f \<notin> g ` set fs" for f using none that by blast
    then show ?thesis by (cases fs) auto
  qed
  then show "\<forall>(fs, bad) \<in> S. bad \<longrightarrow> fs = []" by blast
qed auto

lemma config_error_0_iff: "config_error p = 0 \<longleftrightarrow> (\<forall>(fs, bad) \<in> set (config_checks p). \<not> bad)"
proof -
  have "config_error p = 0 \<longleftrightarrow> (\<forall>n. \<not> bit (config_error p) n)" by (auto intro: bit_word_eqI)
  also have "\<dots> \<longleftrightarrow> (\<forall>(fs, bad) \<in> set (config_checks p). bad \<longrightarrow> fs = [])"
    unfolding bit_config_error by (rule no_flag)
  also have "\<dots> \<longleftrightarrow> (\<forall>(fs, bad) \<in> set (config_checks p). \<not> bad)"
    by (simp add: config_checks_def)
  finally show ?thesis .
qed

lemma cfg_valid_iff: "cfg_valid p \<longleftrightarrow> config_error p = 0"
proof
  assume v: "cfg_valid p"
  then have "0 \<le> ec_accept_h0 p" using f_le_trans[of 0 "ec_accept_h_min p" "ec_accept_h0 p"] by (simp add: cfg_valid_def)
  with v show "config_error p = 0"
    unfolding cfg_valid_def config_error_0_iff config_checks_def list.set ball_simps prod.case
    by (elim conjE, intro conjI) (simp_all add: max_def)
next
  assume "config_error p = 0"
  then show "cfg_valid p"
    unfolding cfg_valid_def config_error_0_iff config_checks_def by (auto simp: max_def split: if_splits)
qed

definition engine_cfg_new :: "engine_cfg \<Rightarrow> u32 + engine_cfg" where
  "engine_cfg_new p = (let err = config_error p in
     if err = 0 then Inr (p\<lparr>ec_mesh_base_steps := None\<rparr>) else Inl err)"

subsection \<open>Presets\<close>

datatype preset = Legacy_baseline | Balanced | Conservative | Throughput

definition preset_all :: "preset list" where
  "preset_all = [Legacy_baseline, Balanced, Conservative, Throughput]"

fun preset_name :: "preset \<Rightarrow> string" where
  "preset_name Legacy_baseline = ''legacy_baseline''"
| "preset_name Balanced = ''balanced''"
| "preset_name Conservative = ''conservative''"
| "preset_name Throughput = ''throughput''"

definition preset_base_args :: engine_cfg where
  "preset_base_args = \<lparr>ec_tau_levels = [], ec_smc_levels = [], ec_mesh_base_step = 1, ec_mesh_base_steps = None,
     ec_mesh_mul_init = 4, ec_mesh_mul_min = 1, ec_mesh_refine_div = 2, ec_poll_step_mult = 1, ec_max_iters = 6,
     ec_candidates_per_iter = 8, ec_search_dim = None, ec_max_steps_per_iter = Some 8, ec_num_constraints = 2,
     ec_accept_h0 = 0, ec_accept_h_min = 0, ec_accept_h_shrink = f_lit 5 10, ec_accept_eps_f = f_lit 1 (10 ^ 12),
     ec_accept_eps_v = f_lit 1 (10 ^ 12), ec_accept_filter_cap = 64, ec_calibrator_target_false = f_lit 1 100,
     ec_calibrator_min_audits = 20, ec_calibrator_eta_delta = f_lit 1 10, ec_calibrator_delta_min = 0,
     ec_calibrator_delta_max = f_lit 5 100, ec_calibrator_k_window = 4096, ec_calibrator_k_min_pairs = 25,
     ec_calibrator_k_quantile = f_lit 90 100, ec_calibrator_k_eta = f_lit 2 10,
     ec_objective_prune_min_smc_rank = 2, ec_objective_prune_min_level = 2,
     ec_objective_prune_require_back_half = False, ec_objective_prune_disable_for_audit = True,
     ec_batch_boundary = Some 4, ec_executor_chunk_base = 32, ec_executor_chunk_min = 1,
     ec_executor_chunk_max = 256, ec_executor_spin_limit = 2000, ec_executor_chunk_auto_tune = True\<rparr>"

definition preset_base :: "engine_cfg res" where
  "preset_base = (case engine_cfg_new preset_base_args of Inr cfg \<Rightarrow> Inr cfg | Inl _ \<Rightarrow> Inl Expect_failed)"

definition legacy_baseline :: "engine_cfg res" where
  "legacy_baseline = res_bind preset_base (\<lambda>cfg. Inr (cfg\<lparr>ec_tau_levels := [100, 10, 1], ec_smc_levels := [16, 64],
     ec_calibrator_min_audits := 64, ec_calibrator_k_window := 64, ec_calibrator_k_min_pairs := 64,
     ec_calibrator_k_eta := f_lit 5 100, ec_batch_boundary := Some 4, ec_executor_chunk_auto_tune := False,
     ec_max_steps_per_iter := Some 6\<rparr>))"

definition balanced :: "engine_cfg res" where
  "balanced = res_bind preset_base (\<lambda>cfg. Inr (cfg\<lparr>ec_candidates_per_iter := 12, ec_max_steps_per_iter := Some 12,
     ec_batch_boundary := Some 6, ec_calibrator_min_audits := 15, ec_calibrator_eta_delta := f_lit 12 100,
     ec_calibrator_k_min_pairs := 20, ec_calibrator_k_quantile := f_lit 85 100, ec_calibrator_k_eta := f_lit 28 100,
     ec_objective_prune_min_smc_rank := 2, ec_objective_prune_min_level := 2,
     ec_objective_prune_require_back_half := False, ec_objective_prune_disable_for_audit := True,
     ec_executor_chunk_base := 48, ec_executor_chunk_auto_tune := True\<rparr>))"

definition conservative :: "engine_cfg res" where
  "conservative = res_bind preset_base (\<lambda>cfg. Inr (cfg\<lparr>ec_candidates_per_iter := 6, ec_max_steps_per_iter := Some 4,
     ec_calibrator_target_false := f_lit 5 1000, ec_calibrator_min_audits := 40,
     ec_calibrator_eta_delta := f_lit 5 100, ec_calibrator_delta_max := f_lit 8 100,
     ec_calibrator_k_min_pairs := 64, ec_calibrator_k_quantile := f_lit 95 100, ec_calibrator_k_eta := f_lit 10 100,
     ec_objective_prune_min_smc_rank := 3, ec_objective_prune_min_level := 3,
     ec_objective_prune_require_back_half := True, ec_objective_prune_disable_for_audit := True,
     ec_batch_boundary := Some 4, ec_executor_chunk_auto_tune := False\<rparr>))"

definition throughput :: "engine_cfg res" where
  "throughput = res_bind preset_base (\<lambda>cfg. Inr (cfg\<lparr>ec_max_iters := 5, ec_candidates_per_iter := 16,
     ec_max_steps_per_iter := Some 16, ec_batch_boundary := Some 8, ec_calibrator_min_audits := 10,
     ec_calibrator_eta_delta := f_lit 15 100, ec_calibrator_k_min_pairs := 16,
     ec_calibrator_k_quantile := f_lit 80 100, ec_calibrator_k_eta := f_lit 35 100, ec_executor_chunk_base := 64,
     ec_executor_chunk_auto_tune := True, ec_objective_prune_min_smc_rank := 1, ec_objective_prune_min_level := 2,
     ec_objective_prune_require_back_half := False, ec_objective_prune_disable_for_audit := True\<rparr>))"

fun preset_config :: "preset \<Rightarrow> engine_cfg res" where
  "preset_config Legacy_baseline = legacy_baseline"
| "preset_config Balanced = balanced"
| "preset_config Conservative = conservative"
| "preset_config Throughput = throughput"

subsection \<open>Levels\<close>

definition resolve_ladder_levels :: "engine_cfg \<Rightarrow> nat \<Rightarrow> u64 list \<times> u32 list" where
  "resolve_ladder_levels cfg dim =
     (let tau = (if ec_tau_levels cfg = [] then default_tau_levels dim else ec_tau_levels cfg);
        smc = (if ec_smc_levels cfg = [] then default_smc_levels dim else ec_smc_levels cfg);
        tau1 = filter (\<lambda>t. t > 0) tau; smc1 = filter (\<lambda>s. s > 0) smc in
      (if tau1 = [] then [1] else tau1, if smc1 = [] then [1] else smc1))"

subsection \<open>Objective pruning\<close>

definition objective_pruning_allowed :: "nat \<Rightarrow> phi list \<Rightarrow> bool \<Rightarrow> engine_cfg \<Rightarrow> bool" where
  "objective_pruning_allowed phi_idx ladder audit_required cfg =
     (if ladder = [] \<or> phi_idx \<ge> length ladder then False
      else if audit_required \<and> ec_objective_prune_disable_for_audit cfg then False
      else let level = phi_idx + 1 in
        if level < max (ec_objective_prune_min_level cfg) 1 then False
        else
          let current = ladder ! phi_idx; smc_levels = remdups_adj (sort (map phi_smc ladder));
            rank_idx = max (ec_objective_prune_min_smc_rank cfg) 1 - 1;
            smc_threshold = (case get smc_levels rank_idx of Some s \<Rightarrow> s
              | None \<Rightarrow> if smc_levels = [] then phi_smc current else last smc_levels) in
          if \<not> phi_smc current \<ge> smc_threshold then False
          else if ec_objective_prune_require_back_half cfg \<and> level < max (length ladder div 2 + 1) 2 then False
          else True)"

subsection \<open>Validation\<close>

text \<open>
  C39: \<open>EngineConfig::new\<close> accepts exactly the valid inputs, and then returns them unchanged with no per-dimension steps;
  otherwise the error word has the bit of a flag set exactly when a check that reports this flag fails.
\<close>

theorem engine_cfg_new_correct:
  "case engine_cfg_new p of
     Inr c \<Rightarrow> cfg_valid p \<and> c = p\<lparr>ec_mesh_base_steps := None\<rparr>
   | Inl err \<Rightarrow> \<not> cfg_valid p \<and> err \<noteq> 0
       \<and> {f. bit err (flag_bit f)} = {f. \<exists>(fs, bad) \<in> set (config_checks p). bad \<and> f \<in> set fs}"
proof (cases "config_error p = 0")
  case True
  then show ?thesis by (simp add: engine_cfg_new_def cfg_valid_iff)
next
  case False
  have "flag_bit f \<in> flag_bit ` set fs \<longleftrightarrow> f \<in> set fs" for f fs
    by (auto simp: flag_bit_inj)
  then show ?thesis using False by (simp add: engine_cfg_new_def cfg_valid_iff bit_config_error)
qed

subsection \<open>The presets\<close>

lemma lit_checks: "a \<le> b \<Longrightarrow> 0 < b \<Longrightarrow> is_finite (f_lit a b) \<and> 0 \<le> f_lit a b \<and> f_lit a b \<le> 1"
  by (simp add: f_lit_nonneg f_lit_le_one f_lit_finite)

lemma lit_pos: "0 < a \<Longrightarrow> 0 < b \<Longrightarrow> b \<le> 10 ^ 15 \<Longrightarrow> 0 < f_lit a b"
  using f_lit_pos one_units_big by (meson order_trans)

lemma zero_one_f64: "is_finite (0 :: f64)" "is_finite (1 :: f64)" "(0 :: f64) < 1" "(0 :: f64) \<le> 0"
  by (simp_all add: f64_ord_defs f64_pred_defs fkey_def one_f64_def zero_f64_def INF_MAG_def)

lemma preset_base_valid: "cfg_valid preset_base_args"
  using lit_checks[of 1 100] lit_checks[of 1 10] lit_checks[of 5 100] lit_checks[of 90 100] lit_checks[of 2 10]
    lit_checks[of 5 10] lit_checks[of 1 "10 ^ 12"] lit_pos[of 1 10] lit_pos[of 2 10]
  by (simp add: cfg_valid_def preset_base_args_def zero_one_f64)

lemma preset_base_ok: "preset_base = Inr (preset_base_args\<lparr>ec_mesh_base_steps := None\<rparr>)"
  using preset_base_valid by (simp add: preset_base_def engine_cfg_new_def cfg_valid_iff)

lemma preset_ok: "\<exists>cfg. preset_config p = Inr cfg \<and> cfg_valid cfg \<and> ec_mesh_base_steps cfg = None"
  using preset_base_valid lit_checks[of 5 100] lit_checks[of 12 100] lit_checks[of 85 100] lit_checks[of 28 100]
    lit_checks[of 5 1000] lit_checks[of 8 100] lit_checks[of 95 100] lit_checks[of 10 100] lit_checks[of 15 100]
    lit_checks[of 80 100] lit_checks[of 35 100] lit_pos[of 5 100] lit_pos[of 12 100] lit_pos[of 28 100]
    lit_pos[of 10 100] lit_pos[of 15 100] lit_pos[of 35 100]
  by (cases p) (simp_all add: preset_base_ok legacy_baseline_def balanced_def conservative_def throughput_def
      cfg_valid_def preset_base_args_def zero_one_f64)

text \<open>
  Every preset can be built (the \<open>expect\<close> in its base cannot fail), and although the presets overwrite fields of
  a validated configuration without validating again, the result would be accepted by \<open>EngineConfig::new\<close>.
\<close>

theorem presets_valid:
  "\<exists>cfg. preset_config p = Inr cfg \<and> engine_cfg_new cfg = Inr cfg"
  using preset_ok[of p] by (auto simp: engine_cfg_new_def cfg_valid_iff)

subsection \<open>Levels and objective pruning\<close>

lemma resolved_levels: "case resolve_ladder_levels cfg dim of (tau, smc) \<Rightarrow>
  tau \<noteq> [] \<and> smc \<noteq> [] \<and> 0 \<notin> set tau \<and> 0 \<notin> set smc"
  by (auto simp: resolve_ladder_levels_def Let_def)

lemma resolved_ladder:
  "\<exists>l. (case resolve_ladder_levels cfg dim of (tau, smc) \<Rightarrow> build_ladder tau smc) = Inr l \<and> l \<noteq> [] \<and> ladder_sorted l
     \<and> (\<forall>p \<in> set l. phi_tau p \<noteq> 0 \<and> phi_smc p \<noteq> 0)"
proof -
  obtain tau smc where r: "resolve_ladder_levels cfg dim = (tau, smc)" by (metis surj_pair)
  then have ne: "tau \<noteq> []" "smc \<noteq> []" "0 \<notin> set tau" "0 \<notin> set smc" using resolved_levels[of cfg dim] by auto
  show ?thesis using staircase.build_ok[OF ne(1,2)] ne(3,4) unfolding r by fastforce
qed

text \<open>
  On a sorted ladder the objective pruning gate is monotone: once it lets a step prune it lets every later step
  of the ladder prune, so pruning never stops being available as the fidelity grows.
\<close>

theorem objective_pruning_monotone:
  assumes "ladder_sorted ladder" "i \<le> j" "j < length ladder" "objective_pruning_allowed i ladder a cfg"
  shows "objective_pruning_allowed j ladder a cfg"
proof -
  have "phi_smc (ladder ! i) \<le> phi_smc (ladder ! j)"
    using assms(1-3) by (cases "i = j") (auto simp: ladder_sorted_def refines_def sorted_wrt_iff_nth_less)
  with assms(2-4) show ?thesis
    by (fastforce simp: objective_pruning_allowed_def Let_def split: if_splits option.splits)
qed

theorem objective_pruning_monotone_witness:
  "objective_pruning_allowed 2 [Phi 100 8, Phi 100 32, Phi 10 32, Phi 1 32] False preset_base_args
   \<and> objective_pruning_allowed 3 [Phi 100 8, Phi 100 32, Phi 10 32, Phi 1 32] False preset_base_args"
proof -
  have "ladder_sorted [Phi 100 8, Phi 100 32, Phi 10 32, Phi 1 32]"
    by (simp add: ladder_sorted_def refines_def)
  moreover have "objective_pruning_allowed 2 [Phi 100 8, Phi 100 32, Phi 10 32, Phi 1 32] False preset_base_args"
    by (simp add: objective_pruning_allowed_def preset_base_args_def get_def)
  ultimately show ?thesis
    using objective_pruning_monotone[of "[Phi 100 8, Phi 100 32, Phi 10 32, Phi 1 32]" 2 3 False preset_base_args]
    by simp
qed

end
