(* ===== verification/Materialize.thy ===== *)
theory Materialize
  imports Executor Policies Config
begin

text \<open>
  The per-candidate part of \<open>core/engine.rs\<close>: the statistics of an outcome (\<open>update_stats_from_outcome\<close>), the ready view
  (\<open>make_ready_view\<close>), and \<open>materialize_job_result\<close>, which turns the outcome of one ladder step into a decision about
  its candidate: reuse of a cached decision, the sticky cheap gate, the early cut with its audit, the promotion stop, the
  next step, TRUTH. What the engine lends to these functions is the record \<open>mat_ctx\<close>; what they change (the candidate,
  the statistics, the decision cache) is passed explicitly. The lemmas show that every outcome is counted once, that a
  step always moves its candidate forward, that early cuts respect the assignment, and that the decisions put into the
  cache agree with the black box.
\<close>

subsection \<open>Statistics\<close>

record engine_stats =
  st_truth_evals :: nat
  st_truth_decision_cache_hits :: nat
  st_truth_eval_cache_hits :: nat
  st_partial_steps :: nat
  st_partial_decision_cache_hits :: nat
  st_partial_eval_cache_hits :: nat
  st_cheap_rejects :: nat
  st_invalid_eval_rejects :: nat

definition engine_stats_default :: engine_stats where
  "engine_stats_default = \<lparr>st_truth_evals = 0, st_truth_decision_cache_hits = 0, st_truth_eval_cache_hits = 0,
     st_partial_steps = 0, st_partial_decision_cache_hits = 0, st_partial_eval_cache_hits = 0, st_cheap_rejects = 0,
     st_invalid_eval_rejects = 0\<rparr>"

definition update_stats_from_outcome :: "work_outcome \<Rightarrow> nat \<Rightarrow> engine_stats \<Rightarrow> engine_stats" where
  "update_stats_from_outcome out ladder_len st = (let is_truth = wi_phi_idx (wo_item out) + 1 = ladder_len in
     if (case wo_cached_decision out of Some (RejectedInvalidEval _) \<Rightarrow> True | _ \<Rightarrow> False)
     then st\<lparr>st_invalid_eval_rejects := st_invalid_eval_rejects st + 1\<rparr>
     else if wo_hit_decision_cache out then
       (if is_truth then st\<lparr>st_truth_decision_cache_hits := st_truth_decision_cache_hits st + 1\<rparr>
        else st\<lparr>st_partial_decision_cache_hits := st_partial_decision_cache_hits st + 1\<rparr>)
     else if wo_hit_eval_cache out then
       (if is_truth then st\<lparr>st_truth_eval_cache_hits := st_truth_eval_cache_hits st + 1\<rparr>
        else st\<lparr>st_partial_eval_cache_hits := st_partial_eval_cache_hits st + 1\<rparr>)
     else if wo_did_compute out then
       (if is_truth then st\<lparr>st_truth_evals := st_truth_evals st + 1\<rparr>
        else st\<lparr>st_partial_steps := st_partial_steps st + 1\<rparr>)
     else st)"

subsection \<open>The ready view\<close>

definition ready_score :: "thresholds \<Rightarrow> nat \<Rightarrow> cand \<Rightarrow> f64" where
  "ready_score th epoch c = (let s0 = cd_base_score c;
     s1 = (if cd_audit_required c then s0 - f_of_int (10 ^ 12) else s0);
     s2 = s1 - f_of_int (int (epoch - cd_created_epoch c)) * f_lit 1 (10 ^ 9);
     s3 = (case cd_last_estimates c of None \<Rightarrow> s2 | Some est \<Rightarrow> f_min s2 (fst (objective_bounds est th))) in
   s3 - f_of_int (int (cd_next_phi_idx c)) * f_lit 1 (10 ^ 6))"

definition ready_entry :: "thresholds \<Rightarrow> nat \<Rightarrow> cand \<Rightarrow> ready_view" where
  "ready_entry th epoch c = \<lparr>rv_id = cd_id c, rv_kind = (if cd_next_phi_idx c = 0 then New else Resume), rv_x = cd_x c,
     rv_next_phi_idx = cd_next_phi_idx c, rv_score = ready_score th epoch c, rv_audit_required = cd_audit_required c\<rparr>"

definition make_ready_view :: "thresholds \<Rightarrow> nat \<Rightarrow> cand list \<Rightarrow> ready_view list" where
  "make_ready_view th epoch cands = map (ready_entry th epoch) (filter (\<lambda>c. cd_status c = Ready) cands)"

subsection \<open>Audit bookkeeping\<close>

record materialized_job =
  mj_result :: job_result
  mj_audited :: bool
  mj_audit_of :: "audit_of option"
  mj_paired_sample :: "paired_audit_sample option"

definition audit_of_from_origin :: "audit_origin \<Rightarrow> audit_of" where
  "audit_of_from_origin org = \<lparr>af_violated_j = ao_violated_j org, af_phi_at_cut = ao_phi_at_cut org,
     af_phi_idx_at_cut = ao_phi_idx_at_cut org\<rparr>"

definition truth_as_estimates :: "phi \<Rightarrow> f64 list \<Rightarrow> f64 list \<Rightarrow> estimates" where
  "truth_as_estimates p f c = \<lparr>f_hat = f, f_se = replicate (length f) 0, c_hat = c, c_se = replicate (length c) 0,
     es_phi = p, tau_scale = tau_f64 (phi_tau p), es_num_objectives = length f\<rparr>"

definition paired_audit_sample_from_estimates ::
    "audit_origin option \<Rightarrow> nat \<Rightarrow> phi \<Rightarrow> estimates \<Rightarrow> paired_audit_sample option" where
  "paired_audit_sample_from_estimates origin phi_idx p est =
     (if is_paired_checkpoint origin phi_idx
      then Some \<lparr>pa_paired_phi = p, pa_paired_phi_idx = phi_idx, pa_estimates = est\<rparr> else None)"

definition job_final :: "job_result \<Rightarrow> materialized_job" where
  "job_final r = \<lparr>mj_result = r, mj_audited = False, mj_audit_of = None, mj_paired_sample = None\<rparr>"

definition job_open :: "cand \<Rightarrow> nat \<Rightarrow> phi \<Rightarrow> estimates \<Rightarrow> bool \<Rightarrow> job_result \<Rightarrow> materialized_job" where
  "job_open cd i p est audited r = \<lparr>mj_result = r, mj_audited = audited,
     mj_audit_of = map_option audit_of_from_origin (cd_audit_origin cd),
     mj_paired_sample = paired_audit_sample_from_estimates (cd_audit_origin cd) i p est\<rparr>"

definition job_truth :: "cand \<Rightarrow> nat \<Rightarrow> phi \<Rightarrow> estimates \<Rightarrow> job_result \<Rightarrow> materialized_job" where
  "job_truth cd i p est r = \<lparr>mj_result = r, mj_audited = False, mj_audit_of = None,
     mj_paired_sample = paired_audit_sample_from_estimates (cd_audit_origin cd) i p est\<rparr>"

subsection \<open>Materialising an outcome\<close>

record mat_ctx =
  mx_cfg :: engine_cfg
  mx_evaluator :: evaluator
  mx_env :: env
  mx_base_steps :: "f64 list"
  mx_ladder :: "phi list"
  mx_assignment :: "nat list"
  mx_th :: thresholds
  mx_policy_rev :: policy_rev_t
  mx_incumbent_f :: "f64 list option"
  mx_audit :: default_audit

definition note_estimates :: "work_item \<Rightarrow> estimates \<Rightarrow> cand \<Rightarrow> cand" where
  "note_estimates wi est cd = cd\<lparr>cd_last_estimates := Some est, cd_last_estimates_phi_idx := Some (wi_phi_idx wi)\<rparr>"

text \<open>Drawing the audit of a cut at fidelity \<open>p\<close> of constraint \<open>j\<close>.\<close>

definition draw_audit :: "mat_ctx \<Rightarrow> work_item \<Rightarrow> nat \<Rightarrow> phi \<Rightarrow> estimates \<Rightarrow> cand \<Rightarrow> cand res" where
  "draw_audit mx wi j p est cd =
     res_bind (should_audit (mx_audit mx) (cd_x cd) (wi_phi wi) (wi_env_rev wi)) (\<lambda>audit. Inr (if audit then
       cd\<lparr>cd_audit_required := True, cd_audit_cut_estimates := Some est,
         cd_audit_origin := Some \<lparr>ao_violated_j = j, ao_phi_at_cut = p, ao_phi_idx_at_cut = wi_phi_idx wi,
           ao_paired = collect_paired_phi_indices (mx_ladder mx) (wi_phi_idx wi)\<rparr>\<rparr> else cd))"

definition to_audit_target :: "mat_ctx \<Rightarrow> nat \<Rightarrow> cand \<Rightarrow> cand" where
  "to_audit_target mx i cd = cd\<lparr>cd_next_phi_idx := next_audit_target_idx (cd_audit_origin cd) i (length (mx_ladder mx)),
     cd_status := Ready\<rparr>"

definition assigned_level :: "mat_ctx \<Rightarrow> nat \<Rightarrow> nat" where
  "assigned_level mx j = get_or (length (mx_ladder mx)) (mx_assignment mx) j"

fun apply_state_transition :: "nat \<Rightarrow> nat \<Rightarrow> job_result \<Rightarrow> cand \<Rightarrow> cand" where
  "apply_state_transition i ladder_len (RejectedCheap _) cd = cd\<lparr>cd_status := DoneRejectedCheap\<rparr>"
| "apply_state_transition i ladder_len (RejectedInvalidEval _) cd = cd\<lparr>cd_status := DoneRejectedInvalidEval\<rparr>"
| "apply_state_transition i ladder_len (EarlyInfeasible j _ _) cd =
     (if cd_audit_required cd
      then cd\<lparr>cd_next_phi_idx := next_audit_target_idx (cd_audit_origin cd) i ladder_len, cd_status := Ready\<rparr>
      else cd\<lparr>cd_status := DoneEarlyInfeasible j i\<rparr>)"
| "apply_state_transition i ladder_len (Partial _ _) cd =
     (if i + 1 \<ge> ladder_len then cd\<lparr>cd_status := DoneTruth\<rparr>
      else if cd_audit_required cd
      then cd\<lparr>cd_next_phi_idx := next_audit_target_idx (cd_audit_origin cd) i ladder_len, cd_status := Ready\<rparr>
      else cd\<lparr>cd_next_phi_idx := i + 1, cd_status := Ready\<rparr>)"
| "apply_state_transition i ladder_len (Truth _ _ _ _ _) cd = cd\<lparr>cd_status := DoneTruth\<rparr>"

text \<open>The first part: a cached decision is reused.\<close>

fun materialize_cached :: "mat_ctx \<Rightarrow> work_item \<Rightarrow> job_result \<Rightarrow> cand \<Rightarrow> (materialized_job \<times> cand) res" where
  "materialize_cached mx wi (Partial est m) cd = (let cd1 = note_estimates wi est cd; i = wi_phi_idx wi in
     Inr (job_open cd1 i (em_phi m) est (cd_audit_required cd1) (Partial est m),
       apply_state_transition i (length (mx_ladder mx)) (Partial est m) cd1))"
| "materialize_cached mx wi (EarlyInfeasible j est m) cd = (let cd1 = note_estimates wi est cd; i = wi_phi_idx wi in
     res_bind (if \<not> cd_audit_required cd1 \<and> i + 1 \<ge> assigned_level mx j then draw_audit mx wi j (em_phi m) est cd1
       else Inr cd1) (\<lambda>cd2.
     if cd_audit_required cd2
     then Inr (job_open cd2 i (em_phi m) est True (EarlyInfeasible j est m), to_audit_target mx i cd2)
     else Inr (job_final (EarlyInfeasible j est m), cd2\<lparr>cd_status := DoneEarlyInfeasible j i\<rparr>)))"
| "materialize_cached mx wi (Truth f c fe v m) cd =
     Inr (job_truth cd (wi_phi_idx wi) (em_phi m) (truth_as_estimates (em_phi m) f c) (Truth f c fe v m),
       cd\<lparr>cd_status := DoneTruth\<rparr>)"
| "materialize_cached mx wi (RejectedCheap m) cd = Inr (job_final (RejectedCheap m), cd\<lparr>cd_status := DoneRejectedCheap\<rparr>)"
| "materialize_cached mx wi (RejectedInvalidEval m) cd =
     Inr (job_final (RejectedInvalidEval m), cd\<lparr>cd_status := DoneRejectedInvalidEval\<rparr>)"

text \<open>The cheap gate, asked once per candidate.\<close>

datatype cheap_verdict = Cheap_ok | Cheap_rejected | Cheap_invalid

definition check_cheap :: "extern \<Rightarrow> mat_ctx \<Rightarrow> cand \<Rightarrow> (cheap_verdict \<times> cand) res" where
  "check_cheap X mx cd = (if cd_cheap_checked cd then Inr (if cd_cheap_ok cd then Cheap_ok else Cheap_rejected, cd)
     else let cd1 = cd\<lparr>cd_cheap_checked := True\<rparr> in
       case mesh_to_real_aniso X (cd_x cd) (mx_base_steps mx) of
         None \<Rightarrow> Inr (Cheap_invalid, cd1)
       | Some xr \<Rightarrow> res_bind (ev_cheap (mx_evaluator mx) xr (mx_env mx)) (\<lambda>ok.
           Inr (if ok then Cheap_ok else Cheap_rejected, cd1\<lparr>cd_cheap_ok := ok\<rparr>)))"

definition mat_meta :: "mat_ctx \<Rightarrow> work_item \<Rightarrow> f64 \<Rightarrow> eval_meta" where
  "mat_meta mx wi cost = \<lparr>em_phi = wi_phi wi, em_env_rev = wi_env_rev wi, em_policy_rev = mx_policy_rev mx,
     em_runtime_cost = cost\<rparr>"

definition mat_dkey :: "mat_ctx \<Rightarrow> work_item \<Rightarrow> cache_tag \<Rightarrow> cand \<Rightarrow> decision_key" where
  "mat_dkey mx wi tag cd = DecisionKey (cd_x cd) (wi_phi wi) (wi_env_rev wi) (mx_policy_rev mx) tag"

text \<open>A step below TRUTH: the early cut of constraint \<open>j\<close>, the promotion stop, and the next step.\<close>

definition mat_cut :: "mat_ctx \<Rightarrow> work_item \<Rightarrow> nat \<Rightarrow> estimates \<Rightarrow> f64 \<Rightarrow> cand \<Rightarrow> (materialized_job \<times> cand) res" where
  "mat_cut mx wi j est cost cd = (let i = wi_phi_idx wi; jr = EarlyInfeasible j est (mat_meta mx wi cost) in
     res_bind (if cd_audit_required cd then Inr cd else draw_audit mx wi j (wi_phi wi) est cd) (\<lambda>cd1.
       if cd_audit_required cd1 then Inr (job_open cd1 i (wi_phi wi) est True jr, to_audit_target mx i cd1)
       else Inr (job_final jr, cd1\<lparr>cd_status := DoneEarlyInfeasible j i\<rparr>)))"

definition promotion_stop :: "mat_ctx \<Rightarrow> work_item \<Rightarrow> estimates \<Rightarrow> cand \<Rightarrow> bool" where
  "promotion_stop mx wi est cd = (case mx_incumbent_f mx of None \<Rightarrow> False
     | Some best \<Rightarrow> objective_pruning_allowed (wi_phi_idx wi) (mx_ladder mx) (cd_audit_required cd) (mx_cfg mx)
         \<and> fst (objective_bounds est (mx_th mx)) \<ge> get_or f_inf best 0 - th_eps_f (mx_th mx))"

definition mat_partial :: "mat_ctx \<Rightarrow> work_item \<Rightarrow> estimates \<Rightarrow> f64 \<Rightarrow> cand \<Rightarrow> materialized_job \<times> cand" where
  "mat_partial mx wi est cost cd = (let i = wi_phi_idx wi; jr = Partial est (mat_meta mx wi cost) in
     if promotion_stop mx wi est cd then (job_final jr, cd\<lparr>cd_status := DoneStoppedPartial i\<rparr>)
     else let cd1 = (if cd_audit_required cd then to_audit_target mx i cd
         else cd\<lparr>cd_next_phi_idx := i + 1, cd_status := Ready\<rparr>) in
       (job_open cd1 i (wi_phi wi) est (cd_audit_required cd1) jr, cd1))"

definition mat_step :: "mat_ctx \<Rightarrow> work_item \<Rightarrow> estimates \<Rightarrow> f64 \<Rightarrow> cand \<Rightarrow> (materialized_job \<times> cand) res" where
  "mat_step mx wi est cost cd = (case early_infeasible est (mx_th mx) of
     Some j \<Rightarrow> if wi_phi_idx wi + 1 \<ge> assigned_level mx j then mat_cut mx wi j est cost cd
       else Inr (mat_partial mx wi est cost cd)
   | None \<Rightarrow> Inr (mat_partial mx wi est cost cd))"

definition mat_truth :: "mat_ctx \<Rightarrow> work_item \<Rightarrow> estimates \<Rightarrow> f64 \<Rightarrow> cand \<Rightarrow> materialized_job \<times> cand" where
  "mat_truth mx wi est cost cd =
     (let jr = Truth (f_hat est) (c_hat est) (list_all (\<lambda>c. c \<le> 0) (c_hat est)) (truth_violation (c_hat est))
          (mat_meta mx wi cost) in
      (job_truth cd (wi_phi_idx wi) (wi_phi wi) est jr, cd\<lparr>cd_status := DoneTruth\<rparr>))"

text \<open>
  \<open>materialize_job_result\<close>: the job, the candidate, the statistics and the decision cache, in which every fresh decision
  is stored.
\<close>

definition materialize :: "extern \<Rightarrow> mat_ctx \<Rightarrow> work_outcome \<Rightarrow> cand \<Rightarrow> engine_stats \<Rightarrow> decision_cache \<Rightarrow>
    (materialized_job \<times> cand \<times> engine_stats \<times> decision_cache) res" where
  "materialize X mx out cd st dc = (let wi = wo_item out; is_truth = wi_phi_idx wi + 1 = length (mx_ladder mx) in
     case wo_cached_decision out of
       Some cached \<Rightarrow> res_bind (materialize_cached mx wi cached cd) (\<lambda>(job, cd'). Inr (job, cd', st, dc))
     | None \<Rightarrow> res_bind (check_cheap X mx cd) (\<lambda>(verdict, cd1). case verdict of
         Cheap_invalid \<Rightarrow> (let jr = RejectedInvalidEval (mat_meta mx wi 0) in
           Inr (job_final jr, cd1\<lparr>cd_status := DoneRejectedInvalidEval\<rparr>,
             st\<lparr>st_invalid_eval_rejects := st_invalid_eval_rejects st + 1\<rparr>,
             decision_cache_put (mat_dkey mx wi TagCheap cd1) jr dc))
       | Cheap_rejected \<Rightarrow> (let jr = RejectedCheap (mat_meta mx wi 0) in
           Inr (job_final jr, cd1\<lparr>cd_status := DoneRejectedCheap\<rparr>,
             st\<lparr>st_cheap_rejects := st_cheap_rejects st + 1\<rparr>,
             decision_cache_put (mat_dkey mx wi TagCheap cd1) jr dc))
       | Cheap_ok \<Rightarrow> (case wo_estimates out of None \<Rightarrow> Inl Expect_failed
         | Some est \<Rightarrow> (let cd2 = note_estimates wi est cd1; tag = (if is_truth then TagTruth else TagPartial) in
             res_bind (if is_truth then Inr (mat_truth mx wi est (wo_runtime_cost out) cd2)
               else mat_step mx wi est (wo_runtime_cost out) cd2) (\<lambda>(job, cd3).
               Inr (job, cd3, st, decision_cache_put (mat_dkey mx wi tag cd2) (mj_result job) dc))))))"

subsection \<open>Every outcome is counted once\<close>

definition stats_total :: "engine_stats \<Rightarrow> nat" where
  "stats_total st = st_truth_evals st + st_truth_decision_cache_hits st + st_truth_eval_cache_hits st
     + st_partial_steps st + st_partial_decision_cache_hits st + st_partial_eval_cache_hits st + st_invalid_eval_rejects st"

definition outcome_counted :: "work_outcome \<Rightarrow> bool" where
  "outcome_counted out \<longleftrightarrow> (\<exists>m. wo_cached_decision out = Some (RejectedInvalidEval m))
     \<or> wo_hit_decision_cache out \<or> wo_hit_eval_cache out \<or> wo_did_compute out"

lemma update_stats_total: "stats_total (update_stats_from_outcome out L st) =
  stats_total st + (if outcome_counted out then 1 else 0)"
proof -
  have "(case wo_cached_decision out of Some (RejectedInvalidEval _) \<Rightarrow> True | _ \<Rightarrow> False)
      \<longleftrightarrow> (\<exists>m. wo_cached_decision out = Some (RejectedInvalidEval m))"
    by (simp split: option.split job_result.split)
  then show ?thesis
    by (cases "\<exists>m. wo_cached_decision out = Some (RejectedInvalidEval m)")
      (simp_all add: update_stats_from_outcome_def stats_total_def outcome_counted_def Let_def)
qed

subsection \<open>A step moves its candidate\<close>

text \<open>The paired checkpoints of an audit are ladder indices.\<close>

definition origin_ok :: "nat \<Rightarrow> cand \<Rightarrow> bool" where
  "origin_ok L cd \<longleftrightarrow> (\<forall>org. cd_audit_origin cd = Some org \<longrightarrow> (\<forall>j \<in> set (ao_paired org). j < L))"

text \<open>The candidate is the same one, and either done or ready for a later step.\<close>

definition moved :: "nat \<Rightarrow> nat \<Rightarrow> cand \<Rightarrow> cand \<Rightarrow> bool" where
  "moved L i cd cd' \<longleftrightarrow> cd_id cd' = cd_id cd \<and> cd_x cd' = cd_x cd \<and> cd_base_score cd' = cd_base_score cd \<and> origin_ok L cd'
     \<and> (case cd_status cd' of Ready \<Rightarrow> i < cd_next_phi_idx cd' \<and> cd_next_phi_idx cd' < L | InFlight _ \<Rightarrow> False | _ \<Rightarrow> True)"

definition same_cand :: "nat \<Rightarrow> cand \<Rightarrow> cand \<Rightarrow> bool" where
  "same_cand L cd cd' \<longleftrightarrow> cd_id cd' = cd_id cd \<and> cd_x cd' = cd_x cd \<and> cd_base_score cd' = cd_base_score cd \<and> origin_ok L cd'"

lemma same_cand_refl [simp]: "same_cand L cd cd \<longleftrightarrow> origin_ok L cd"
  by (simp add: same_cand_def)

lemma same_cand_note [simp]: "same_cand L cd (note_estimates wi est cd') \<longleftrightarrow> same_cand L cd cd'"
  by (simp add: same_cand_def note_estimates_def origin_ok_def)

fun is_done :: "cand_status \<Rightarrow> bool" where
  "is_done Ready = False"
| "is_done (InFlight _) = False"
| "is_done _ = True"

lemma moved_done: "same_cand L cd cd' \<Longrightarrow> is_done s \<Longrightarrow> moved L i cd (cd'\<lparr>cd_status := s\<rparr>)"
  by (cases s) (auto simp: moved_def same_cand_def origin_ok_def)

lemma moved_next: "same_cand L cd cd' \<Longrightarrow> i + 1 < L \<Longrightarrow> moved L i cd (cd'\<lparr>cd_next_phi_idx := Suc i, cd_status := Ready\<rparr>)"
  by (simp add: moved_def same_cand_def origin_ok_def)

lemma moved_audit: "same_cand (length (mx_ladder mx)) cd cd' \<Longrightarrow> i + 1 < length (mx_ladder mx) \<Longrightarrow>
  moved (length (mx_ladder mx)) i cd (to_audit_target mx i cd')"
  using next_audit_target_gt[of "cd_audit_origin cd'" "length (mx_ladder mx)" i]
  by (simp add: moved_def same_cand_def origin_ok_def to_audit_target_def)

lemma draw_audit_same: "draw_audit mx wi j p est cd = Inr cd' \<Longrightarrow> origin_ok (length (mx_ladder mx)) cd \<Longrightarrow>
  same_cand (length (mx_ladder mx)) cd cd'"
  using collect_paired_bounds[of _ "mx_ladder mx" "wi_phi_idx wi"]
  by (auto simp: draw_audit_def res_bind_Inr same_cand_def origin_ok_def split: if_splits)

lemma to_audit_target_eq: "cd\<lparr>cd_next_phi_idx := next_audit_target_idx (cd_audit_origin cd) i (length (mx_ladder mx)),
  cd_status := Ready\<rparr> = to_audit_target mx i cd"
  by (simp add: to_audit_target_def)

lemma same_cand_trans: "same_cand L a b \<Longrightarrow> same_cand L b c \<Longrightarrow> same_cand L a c"
  by (simp add: same_cand_def)

text \<open>Only steps below TRUTH are cut early, in the cache as well.\<close>

definition cut_below_truth :: "nat \<Rightarrow> nat \<Rightarrow> job_result \<Rightarrow> bool" where
  "cut_below_truth L i v \<longleftrightarrow> (case v of EarlyInfeasible _ _ _ \<Rightarrow> i + 1 < L | _ \<Rightarrow> True)"

lemma materialize_cached_moved:
  assumes run: "materialize_cached mx wi v cd = Inr (job, cd')" and ok: "origin_ok (length (mx_ladder mx)) cd"
    and cut: "cut_below_truth (length (mx_ladder mx)) (wi_phi_idx wi) v"
  shows "moved (length (mx_ladder mx)) (wi_phi_idx wi) cd cd' \<and> mj_result job = v"
proof (cases v)
  case (EarlyInfeasible j est m)
  define cd1 where "cd1 = note_estimates wi est cd"
  have n: "same_cand (length (mx_ladder mx)) cd cd1" "origin_ok (length (mx_ladder mx)) cd1"
    using ok by (simp_all add: cd1_def) (simp add: note_estimates_def origin_ok_def)
  from run EarlyInfeasible obtain cd2 where
    d: "(if \<not> cd_audit_required cd1 \<and> wi_phi_idx wi + 1 \<ge> assigned_level mx j then draw_audit mx wi j (em_phi m) est cd1
        else Inr cd1) = Inr cd2"
    and out: "(job, cd') = (if cd_audit_required cd2
       then (job_open cd2 (wi_phi_idx wi) (em_phi m) est True v, to_audit_target mx (wi_phi_idx wi) cd2)
       else (job_final v, cd2\<lparr>cd_status := DoneEarlyInfeasible j (wi_phi_idx wi)\<rparr>))"
    by (auto simp: Let_def res_bind_Inr simp flip: cd1_def split: if_splits)
  have "same_cand (length (mx_ladder mx)) cd cd2"
    using d n draw_audit_same[OF _ n(2), of wi j "em_phi m" est cd2]
    by (auto intro: same_cand_trans split: if_splits)
  with cut EarlyInfeasible out show ?thesis
    by (auto simp: cut_below_truth_def moved_done moved_audit job_open_def job_final_def split: if_splits)
next
  case (Partial est m)
  have n: "same_cand (length (mx_ladder mx)) cd (note_estimates wi est cd)" using ok by simp
  show ?thesis
    using run Partial n moved_next[OF n] moved_audit[OF n] moved_done[OF n, of DoneTruth]
    by (auto simp: Let_def job_open_def to_audit_target_eq split: if_splits)
qed (use run ok in \<open>auto simp: moved_done job_final_def job_truth_def\<close>)

lemma mat_cut_moved:
  assumes run: "mat_cut mx wi j est cost cd = Inr (job, cd')" and ok: "origin_ok (length (mx_ladder mx)) cd"
    and i: "wi_phi_idx wi + 1 < length (mx_ladder mx)"
  shows "moved (length (mx_ladder mx)) (wi_phi_idx wi) cd cd'
    \<and> mj_result job = EarlyInfeasible j est (mat_meta mx wi cost)"
proof -
  from run obtain cd2 where cd2: "same_cand (length (mx_ladder mx)) cd cd2"
    and out: "(job, cd') = (if cd_audit_required cd2
       then (job_open cd2 (wi_phi_idx wi) (wi_phi wi) est True (EarlyInfeasible j est (mat_meta mx wi cost)),
          to_audit_target mx (wi_phi_idx wi) cd2)
       else (job_final (EarlyInfeasible j est (mat_meta mx wi cost)), cd2\<lparr>cd_status := DoneEarlyInfeasible j (wi_phi_idx wi)\<rparr>))"
    using ok draw_audit_same[of mx wi j "wi_phi wi" est cd]
    by (fastforce simp: mat_cut_def Let_def res_bind_Inr split: if_splits)
  with i show ?thesis by (auto simp: moved_done moved_audit job_open_def job_final_def split: if_splits)
qed

lemma mat_partial_moved:
  assumes ok: "origin_ok (length (mx_ladder mx)) cd" and i: "wi_phi_idx wi + 1 < length (mx_ladder mx)"
  shows "moved (length (mx_ladder mx)) (wi_phi_idx wi) cd (snd (mat_partial mx wi est cost cd))
    \<and> mj_result (fst (mat_partial mx wi est cost cd)) = Partial est (mat_meta mx wi cost)"
  using ok i by (auto simp: mat_partial_def Let_def job_open_def job_final_def moved_done moved_next moved_audit)

lemma mat_step_moved:
  assumes run: "mat_step mx wi est cost cd = Inr (job, cd')" and ok: "origin_ok (length (mx_ladder mx)) cd"
    and i: "wi_phi_idx wi + 1 < length (mx_ladder mx)"
  shows "moved (length (mx_ladder mx)) (wi_phi_idx wi) cd cd' \<and> (mj_result job = Partial est (mat_meta mx wi cost)
    \<or> (\<exists>j. mj_result job = EarlyInfeasible j est (mat_meta mx wi cost)))"
  using run mat_partial_moved[OF ok i, of est cost] mat_cut_moved[OF _ ok i, of _ est cost job cd']
  by (auto simp: mat_step_def split: option.splits if_splits)

lemma check_cheap_same: "check_cheap X mx cd = Inr (v, cd') \<Longrightarrow> origin_ok L cd \<Longrightarrow> same_cand L cd cd'"
  by (auto simp: check_cheap_def Let_def res_bind_Inr same_cand_def origin_ok_def split: if_splits option.splits)

lemma moved_from: "same_cand L cd cd1 \<Longrightarrow> moved L i cd1 cd2 \<Longrightarrow> moved L i cd cd2"
  by (simp add: moved_def same_cand_def)

text \<open>What a fresh materialisation does, in one case distinction.\<close>

lemma materialize_fresh_cases:
  assumes run: "materialize X mx out cd st dc = Inr (job, cd', st', dc')" and none: "wo_cached_decision out = None"
    and ok: "origin_ok (length (mx_ladder mx)) cd" and i: "wi_phi_idx (wo_item out) < length (mx_ladder mx)"
  obtains (reject) jr where "moved (length (mx_ladder mx)) (wi_phi_idx (wo_item out)) cd cd'" "mj_result job = jr"
      "dc' = decision_cache_put (mat_dkey mx (wo_item out) TagCheap cd) jr dc"
      "jr \<in> {RejectedInvalidEval (mat_meta mx (wo_item out) 0), RejectedCheap (mat_meta mx (wo_item out) 0)}"
  | (step) est cd1 where "wo_estimates out = Some est" "same_cand (length (mx_ladder mx)) cd cd1"
      "mat_step mx (wo_item out) est (wo_runtime_cost out) (note_estimates (wo_item out) est cd1) = Inr (job, cd')"
      "wi_phi_idx (wo_item out) + 1 < length (mx_ladder mx)" "st' = st"
      "dc' = decision_cache_put (mat_dkey mx (wo_item out) TagPartial cd) (mj_result job) dc"
  | (truth) est cd1 where "wo_estimates out = Some est" "same_cand (length (mx_ladder mx)) cd cd1"
      "(job, cd') = mat_truth mx (wo_item out) est (wo_runtime_cost out) (note_estimates (wo_item out) est cd1)"
      "wi_phi_idx (wo_item out) + 1 = length (mx_ladder mx)" "st' = st"
      "dc' = decision_cache_put (mat_dkey mx (wo_item out) TagTruth cd) (mj_result job) dc"
proof -
  from run none obtain v cd1 where cc: "check_cheap X mx cd = Inr (v, cd1)"
    by (auto simp: materialize_def Let_def res_bind_Inr)
  have s: "same_cand (length (mx_ladder mx)) cd cd1" by (rule check_cheap_same[OF cc ok])
  have key: "mat_dkey mx (wo_item out) t cd1 = mat_dkey mx (wo_item out) t cd"
    "mat_dkey mx (wo_item out) t (note_estimates (wo_item out) est cd1) = mat_dkey mx (wo_item out) t cd" for t est
    using s by (simp_all add: mat_dkey_def same_cand_def note_estimates_def)
  show thesis
  proof (cases v)
    case Cheap_ok
    with run none cc obtain est where e: "wo_estimates out = Some est"
      by (cases "wo_estimates out") (auto simp: materialize_def Let_def)
    show thesis
    proof (cases "wi_phi_idx (wo_item out) + 1 = length (mx_ladder mx)")
      case True
      show thesis by (rule truth[OF e s]) (use run none cc Cheap_ok e True key in \<open>auto simp: materialize_def Let_def split: prod.splits\<close>)
    next
      case False
      show thesis by (rule step[OF e s])
        (use run none cc Cheap_ok e False key i in \<open>auto simp: materialize_def Let_def res_bind_Inr split: prod.splits\<close>)
    qed
  qed (use run none cc key s in \<open>auto simp: materialize_def Let_def job_final_def intro!: reject moved_done\<close>)
qed

lemma materialize_moved:
  assumes run: "materialize X mx out cd st dc = Inr (job, cd', st', dc')"
    and ok: "origin_ok (length (mx_ladder mx)) cd" and i: "wi_phi_idx (wo_item out) < length (mx_ladder mx)"
    and cut: "\<And>v. wo_cached_decision out = Some v \<Longrightarrow> cut_below_truth (length (mx_ladder mx)) (wi_phi_idx (wo_item out)) v"
  shows "moved (length (mx_ladder mx)) (wi_phi_idx (wo_item out)) cd cd'"
proof (cases "wo_cached_decision out")
  case (Some v)
  with run materialize_cached_moved[OF _ ok cut[OF Some]] show ?thesis
    by (auto simp: materialize_def Let_def res_bind_Inr)
next
  case None
  from run None ok i show ?thesis
  proof (cases rule: materialize_fresh_cases)
    case (step est cd1)
    have "origin_ok (length (mx_ladder mx)) (note_estimates (wo_item out) est cd1)"
      using step(2) by (simp add: note_estimates_def origin_ok_def same_cand_def)
    from mat_step_moved[OF step(3) this step(4)] step(2) show ?thesis
      by (auto simp: moved_def same_cand_def note_estimates_def)
  next
    case (truth est cd1)
    then show ?thesis by (simp add: mat_truth_def Let_def moved_done)
  qed
qed

subsection \<open>Decisions agree with the black box\<close>

text \<open>A decided job is what the black box says of the item; rejections of the cheap gate and of the mesh say nothing of it.\<close>

definition job_agrees :: "extern \<Rightarrow> exec_ctx \<Rightarrow> work_item \<Rightarrow> job_result \<Rightarrow> bool" where
  "job_agrees X ctx wi r \<longleftrightarrow> (case r of RejectedCheap _ \<Rightarrow> True | RejectedInvalidEval _ \<Rightarrow> True
     | _ \<Rightarrow> decision_fits X ctx (item_dkey ctx wi) r)"

text \<open>What the join needs of an outcome: it may be empty (the evaluation panicked), but not wrong.\<close>

definition outcome_agrees :: "extern \<Rightarrow> exec_ctx \<Rightarrow> work_outcome \<Rightarrow> bool" where
  "outcome_agrees X ctx out \<longleftrightarrow> (case wo_cached_decision out of
     Some v \<Rightarrow> decision_fits X ctx (item_dkey ctx (wo_item out)) v
   | None \<Rightarrow> (case wo_estimates out of None \<Rightarrow> True
       | Some est \<Rightarrow> ref_eval X ctx (wi_x (wo_item out)) (wi_phi (wo_item out)) = Inr (Some est)))"

lemma outcome_matches_agrees: "outcome_matches X ctx out \<Longrightarrow> outcome_agrees X ctx out"
  by (auto simp: outcome_matches_def outcome_agrees_def split: option.splits)

lemma outcome_agrees_cut:
  assumes "outcome_agrees X ctx out" "wo_cached_decision out = Some v" "wi_env_rev (wo_item out) = cx_env_rev ctx"
    and "wi_phi_idx (wo_item out) < cx_ladder_len ctx"
  shows "cut_below_truth (cx_ladder_len ctx) (wi_phi_idx (wo_item out)) v"
  using assms by (cases v) (auto simp: outcome_agrees_def cut_below_truth_def decision_fits_def item_dkey_def item_tag_def split: if_splits)

lemma fits_job_agrees: "decision_fits X ctx (item_dkey ctx wi) r \<Longrightarrow> job_agrees X ctx wi r"
  by (cases r) (simp_all add: job_agrees_def)

lemma step_fits:
  assumes "ref_eval X ctx (wi_x wi) (wi_phi wi) = Inr (Some est)" "wi_phi_idx wi + 1 < cx_ladder_len ctx"
    and "r = Partial est (mat_meta mx wi cost) \<or> (\<exists>j. r = EarlyInfeasible j est (mat_meta mx wi cost))"
  shows "decision_fits X ctx (item_dkey ctx wi) r"
  using assms by (auto simp: decision_fits_def item_dkey_def item_tag_def mat_meta_def)

lemma truth_fits:
  assumes "ref_eval X ctx (wi_x wi) (wi_phi wi) = Inr (Some est)" "wi_phi_idx wi + 1 = cx_ladder_len ctx"
  shows "decision_fits X ctx (item_dkey ctx wi) (mj_result (fst (mat_truth mx wi est cost cd)))"
  using assms by (auto simp: decision_fits_def item_dkey_def item_tag_def mat_meta_def mat_truth_def Let_def job_truth_def)

lemma materialize_sound:
  assumes run: "materialize X mx out cd st dc = Inr (job, cd', st', dc')"
    and ok: "origin_ok (length (mx_ladder mx)) cd" and i: "wi_phi_idx (wo_item out) < length (mx_ladder mx)"
    and L: "cx_ladder_len ctx = length (mx_ladder mx)" and x: "cd_x cd = wi_x (wo_item out)"
    and rev: "mx_policy_rev mx = wi_policy_rev (wo_item out)"
    and m: "outcome_agrees X ctx out" and s: "decision_sound X ctx dc"
  shows "job_agrees X ctx (wo_item out) (mj_result job) \<and> decision_sound X ctx dc'"
proof (cases "wo_cached_decision out")
  case (Some v)
  have fits: "decision_fits X ctx (item_dkey ctx (wo_item out)) v" using m Some by (simp add: outcome_agrees_def)
  obtain cd2 where c: "materialize_cached mx (wo_item out) v cd = Inr (job, cd2)" and d: "dc' = dc"
    using run Some by (auto simp: materialize_def Let_def res_bind_Inr)
  have "mj_result job = v"
    using c by (cases v) (auto simp: Let_def res_bind_Inr job_open_def job_final_def job_truth_def split: if_splits)
  with fits d s show ?thesis by (simp add: fits_job_agrees)
next
  case None
  have key: "mat_dkey mx (wo_item out) TagPartial cd = item_dkey ctx (wo_item out)" if "wi_phi_idx (wo_item out) + 1 < length (mx_ladder mx)"
    using that by (simp add: mat_dkey_def item_dkey_def item_tag_def x rev L)
  have keyT: "mat_dkey mx (wo_item out) TagTruth cd = item_dkey ctx (wo_item out)" if "wi_phi_idx (wo_item out) + 1 = length (mx_ladder mx)"
    using that by (simp add: mat_dkey_def item_dkey_def item_tag_def x rev L)
  have put: "decision_fits X ctx k v \<Longrightarrow> decision_sound X ctx (decision_cache_put k v dc)" for k v
    using s by (simp add: decision_sound_def decision_c.all_entries_put)
  have ref: "ref_eval X ctx (wi_x (wo_item out)) (wi_phi (wo_item out)) = Inr (Some est)" if "wo_estimates out = Some est" for est
    using m None that by (auto simp: outcome_agrees_def)
  from run None ok i show ?thesis
  proof (cases rule: materialize_fresh_cases)
    case (reject jr)
    have "decision_fits X ctx (mat_dkey mx (wo_item out) TagCheap cd) jr" by (simp add: decision_fits_def mat_dkey_def)
    with put reject show ?thesis by (auto simp: job_agrees_def)
  next
    case (step est cd1)
    have "origin_ok (length (mx_ladder mx)) (note_estimates (wo_item out) est cd1)"
      using step(2) by (simp add: note_estimates_def origin_ok_def same_cand_def)
    with mat_step_moved[OF step(3) this step(4)] step_fits[OF ref[OF step(1)]] step(4)
    have "decision_fits X ctx (item_dkey ctx (wo_item out)) (mj_result job)" by (auto simp: L)
    with put step key show ?thesis by (simp add: fits_job_agrees)
  next
    case (truth est cd1)
    with truth_fits[OF ref[OF truth(1)]] have "decision_fits X ctx (item_dkey ctx (wo_item out)) (mj_result job)"
      by (metis L fst_conv)
    with put truth keyT show ?thesis by (simp add: fits_job_agrees)
  qed
qed

subsection \<open>Early cuts\<close>

lemma draw_audit_none: "draw_audit mx wi j p est cd = Inr cd' \<Longrightarrow> \<not> cd_audit_required cd' \<Longrightarrow>
  should_audit (mx_audit mx) (cd_x cd) (wi_phi wi) (wi_env_rev wi) = Inr False"
  by (cases "should_audit (mx_audit mx) (cd_x cd) (wi_phi wi) (wi_env_rev wi)")
    (auto simp: draw_audit_def split: if_splits)

lemma to_audit_target_status [simp]: "cd_status (to_audit_target mx i cd) = Ready"
  by (simp add: to_audit_target_def)

lemma mat_cut_done:
  assumes run: "mat_cut mx wi j est cost cd = Inr (job, cd')" and s: "cd_status cd' = DoneEarlyInfeasible j' i'"
  shows "j' = j \<and> i' = wi_phi_idx wi \<and> \<not> cd_audit_required cd \<and> should_audit (mx_audit mx) (cd_x cd) (wi_phi wi) (wi_env_rev wi) = Inr False"
proof -
  from run obtain cd1 where d: "(if cd_audit_required cd then Inr cd else draw_audit mx wi j (wi_phi wi) est cd) = Inr cd1"
    and cd': "cd' = (if cd_audit_required cd1 then to_audit_target mx (wi_phi_idx wi) cd1
      else cd1\<lparr>cd_status := DoneEarlyInfeasible j (wi_phi_idx wi)\<rparr>)"
    unfolding mat_cut_def Let_def res_bind_Inr by (metis (no_types, lifting) Inr_inject prod.inject)
  from s cd' have n: "\<not> cd_audit_required cd1" "j' = j" "i' = wi_phi_idx wi" by (simp_all split: if_splits)
  with d have "\<not> cd_audit_required cd" by (auto split: if_splits)
  with d n draw_audit_none show ?thesis by simp
qed

lemma mat_step_cut:
  assumes run: "mat_step mx wi est cost cd = Inr (job, cd')" and s: "cd_status cd' = DoneEarlyInfeasible j i"
  shows "early_infeasible est (mx_th mx) = Some j \<and> i = wi_phi_idx wi \<and> assigned_level mx j \<le> i + 1
    \<and> \<not> cd_audit_required cd \<and> should_audit (mx_audit mx) (cd_x cd) (wi_phi wi) (wi_env_rev wi) = Inr False"
proof -
  have np: "cd_status (snd (mat_partial mx wi est cost cd)) \<noteq> DoneEarlyInfeasible j i"
    by (simp add: mat_partial_def Let_def to_audit_target_def)
  with run s obtain j0 where j0: "early_infeasible est (mx_th mx) = Some j0" "assigned_level mx j0 \<le> wi_phi_idx wi + 1"
    "mat_cut mx wi j0 est cost cd = Inr (job, cd')"
    by (auto simp: mat_step_def split: option.splits if_splits)
  from mat_cut_done[OF j0(3) s] j0 show ?thesis by auto
qed

end
