(* ===== verification/Dids.thy ===== *)
theory Dids
  imports Calibrator
begin

text \<open>
  \<open>policies/dids.rs\<close>: \<open>DefaultDids\<close>, the assignment of the first ladder level at which each constraint may cut.
  \<open>f64::exp\<close> and \<open>f64::ln\<close> are functions of \<open>extern\<close>, and nothing is assumed of them: the lemmas show
  that whatever they return the assignment has one entry per constraint within \<open>1..=L\<close>, that no operation
  panics, that the history is a bounded window, and when the reported policy revision changes.
\<close>

datatype outcome_tag = Tag_rejected_cheap | Tag_rejected_invalid | Tag_early_infeasible | Tag_partial | Tag_truth

record dids_record =
  dr_x :: xmesh
  dr_phi :: phi
  dr_phi_idx :: nat
  dr_outcome :: outcome_tag
  dr_violated_j :: "nat option"

record dids =
  di_m :: nat
  di_records :: "dids_record list"
  di_assignment :: "nat list"
  di_max_records :: nat
  di_delta_baseline :: f64

definition dids_default :: dids where
  "dids_default = \<lparr>di_m = 0, di_records = [], di_assignment = [], di_max_records = 0, di_delta_baseline = 0\<rparr>"

definition dids_init :: "nat \<Rightarrow> dids \<Rightarrow> dids" where
  "dids_init m d = d\<lparr>di_m := m, di_records := [], di_assignment := replicate m 1, di_max_records := 5000,
     di_delta_baseline := f_lit 5 1000\<rparr>"

subsection \<open>Statistics\<close>

text \<open>\<open>std::f64::consts::LN_2\<close>.\<close>

definition LN_2 :: f64 where
  "LN_2 = f_lit 693147180559945309417232121458 (10 ^ 30)"

definition recency_weight :: "extern \<Rightarrow> nat \<Rightarrow> f64 \<Rightarrow> f64" where
  "recency_weight X age half_life =
     (if half_life \<le> 0 then 1 else x_exp X (- LN_2 * f_of_int (int age) / half_life))"

definition effective_sample_size :: "(nat \<times> f64) list \<Rightarrow> f64" where
  "effective_sample_size weighted =
     (let sum_w = f_sum (map snd weighted); sum_w2 = f_sum (map (\<lambda>p. snd p * snd p) weighted) in
      if sum_w2 \<le> 0 then 0 else sum_w * sum_w / sum_w2)"

fun quantile_scan :: "f64 \<Rightarrow> f64 \<Rightarrow> (nat \<times> f64) list \<Rightarrow> nat option" where
  "quantile_scan target acc [] = None"
| "quantile_scan target acc ((level, w) # items) =
     (let acc' = acc + w in
      if acc' + f_lit 1 (10 ^ 12) \<ge> target then Some level else quantile_scan target acc' items)"

definition weighted_quantile :: "(nat \<times> f64) list \<Rightarrow> f64 \<Rightarrow> nat option" where
  "weighted_quantile weighted q =
     (if weighted = [] then None
      else let items = sort_by (\<lambda>a b. fst a \<le> fst b) weighted; total_w = f_sum (map snd items) in
        if total_w \<le> 0 then None
        else let target = clamp01 q * total_w in
          case quantile_scan target 0 items of Some level \<Rightarrow> Some level
          | None \<Rightarrow> Some (Max (set (map fst weighted))))"

definition wilson_interval :: "nat \<Rightarrow> nat \<Rightarrow> f64 \<Rightarrow> f64 \<times> f64" where
  "wilson_interval success trials z =
     (if trials = 0 then (0, 1)
      else let n = f_of_int (int trials); p = f_of_int (int success) / n; z2 = z * z; denom = 1 + z2 / n;
          center = (p + z2 / (f_lit 2 1 * n)) / denom;
          radius = (z / denom) * f_sqrt (f_max (p * (1 - p) / n + z2 / (f_lit 4 1 * n * n)) 0) in
        (clamp01 (center - radius), clamp01 (center + radius)))"

subsection \<open>The assignment\<close>

definition nat_clamp :: "nat \<Rightarrow> nat \<Rightarrow> nat \<Rightarrow> nat" where
  "nat_clamp lo hi x = max lo (min hi x)"

text \<open>Step 1: the weighted levels of the observed early cuts of constraint \<open>j\<close>, and the base rule.\<close>

definition dids_half_life :: "dids \<Rightarrow> f64" where
  "dids_half_life d = f_max (f_of_int (int (max (length (di_records d)) 8)) / f_lit 3 1) (f_lit 6 1)"

definition cut_levels :: "extern \<Rightarrow> dids \<Rightarrow> nat \<Rightarrow> nat \<Rightarrow> (nat \<times> f64) list" where
  "cut_levels X d l j = concat (map (\<lambda>idx. let r = di_records d ! idx in
     if dr_outcome r = Tag_early_infeasible \<and> dr_violated_j r = Some j
     then [(nat_clamp 1 l (Suc (dr_phi_idx r)),
            recency_weight X (length (di_records d) - Suc idx) (dids_half_life d))]
     else []) [0..<length (di_records d)])"

definition base_level :: "extern \<Rightarrow> dids \<Rightarrow> nat \<Rightarrow> nat \<Rightarrow> nat" where
  "base_level X d l j =
     (let w = cut_levels X d l j; eff_n = effective_sample_size w in
      if eff_n < f_lit 6 1 then 1
      else let aj = nat_clamp 1 l (case weighted_quantile w (f_lit 80 100) of Some x \<Rightarrow> x | None \<Rightarrow> 1) in
        if aj = 1 \<and> eff_n < f_lit 18 1 then min 2 l else aj)"

definition z_wilson :: f64 where
  "z_wilson = f_lit 196 100"

definition target_rate :: "calib_state \<Rightarrow> f64" where
  "target_rate cal = (if is_finite (cs_target_false cal) \<and> cs_target_false cal > 0
     then clamp01 (cs_target_false cal) else f_lit 1 100)"

definition precision_enabled :: "calib_state \<Rightarrow> nat \<Rightarrow> bool" where
  "precision_enabled cal j \<longleftrightarrow> get (cs_confirmed_violation_n_by_phi_idx cal) j \<noteq> None
     \<or> get (cs_confirmed_violation_n cal) j \<noteq> None"

text \<open>\<open>v.get(j).and_then(|v| v.get(i)).unwrap_or(0)\<close> on a vector of vectors.\<close>

definition level_count :: "nat list list \<Rightarrow> nat \<Rightarrow> nat \<Rightarrow> nat" where
  "level_count v j i = (case get v j of Some xs \<Rightarrow> get_or 0 xs i | None \<Rightarrow> 0)"

text \<open>Step 2 at one level: an alarm raises the assignment above the level.\<close>

definition level_alarm :: "calib_state \<Rightarrow> nat \<Rightarrow> nat \<Rightarrow> bool" where
  "level_alarm cal j lvl0 =
     (let t = target_rate cal; min_audits = max (cs_min_audits cal) 1;
        aud_n = level_count (cs_audit_n_by_phi_idx cal) j lvl0;
        fals_n = level_count (cs_false_infeas_n_by_phi_idx cal) j lvl0;
        confirmed_n = level_count (cs_confirmed_violation_n_by_phi_idx cal) j lvl0;
        pe = precision_enabled cal j;
        false_hi = snd (wilson_interval fals_n aud_n z_wilson);
        precision_lo = (if pe then fst (wilson_interval confirmed_n aud_n z_wilson) else 0);
        false_alarm = (aud_n \<ge> min_audits \<and> false_hi > t * f_lit 115 100);
        precision_alarm = (pe \<and> aud_n \<ge> min_audits \<and> precision_lo < f_lit 55 100);
        severe = (aud_n \<ge> max (min_audits div 2) 3 \<and> fals_n > 0 \<and> false_hi > t * f_lit 150 100) in
      aud_n \<noteq> 0 \<and> (false_alarm \<or> precision_alarm \<or> severe))"

definition raise_level :: "calib_state \<Rightarrow> nat \<Rightarrow> nat \<Rightarrow> nat \<Rightarrow> nat" where
  "raise_level cal l j a =
     (if get (cs_audit_n_by_phi_idx cal) j \<noteq> None \<and> get (cs_false_infeas_n_by_phi_idx cal) j \<noteq> None
      then fold (\<lambda>lvl0 acc. if level_alarm cal j lvl0 then max acc (min (lvl0 + 2) l) else acc) [0..<l] a
      else a)"

text \<open>Step 2b: relax by one when the level below has strong evidence.\<close>

definition relax_level :: "calib_state \<Rightarrow> nat \<Rightarrow> nat \<Rightarrow> nat" where
  "relax_level cal j a =
     (if a > 1 then
        let t = target_rate cal; relax_min = max (max (cs_min_audits cal) 1 * 2) 8; lower = a - 2;
          aud_n = level_count (cs_audit_n_by_phi_idx cal) j lower;
          fals_n = level_count (cs_false_infeas_n_by_phi_idx cal) j lower;
          confirmed_n = level_count (cs_confirmed_violation_n_by_phi_idx cal) j lower;
          pe = precision_enabled cal j;
          false_hi = snd (wilson_interval fals_n aud_n z_wilson);
          precision_lo = (if pe then fst (wilson_interval confirmed_n aud_n z_wilson) else 0);
          overall_aud = get_or 0 (cs_audit_n cal) j;
          overall_false = get_or 0 (cs_false_infeas_n cal) j;
          overall_confirmed = get_or 0 (cs_confirmed_violation_n cal) j;
          overall_false_hi = snd (wilson_interval overall_false overall_aud z_wilson);
          overall_precision_lo = (if pe then fst (wilson_interval overall_confirmed overall_aud z_wilson) else 0);
          precision_ok = (\<not> pe \<or> precision_lo > f_lit 70 100 \<and> overall_precision_lo > f_lit 65 100) in
        if aud_n \<ge> relax_min \<and> overall_aud \<ge> relax_min \<and> false_hi < t * f_lit 60 100
          \<and> overall_false_hi < t * f_lit 75 100 \<and> precision_ok
        then a - 1 else a
      else a)"

text \<open>Step 3: the guard from the slack; \<open>f64 as usize\<close> saturates and the \<open>usize\<close> addition wraps.\<close>

definition slack_bumps :: "extern \<Rightarrow> dids \<Rightarrow> calib_state \<Rightarrow> nat \<Rightarrow> nat" where
  "slack_bumps X d cal j =
     (let base = (if is_finite (di_delta_baseline d) \<and> di_delta_baseline d > 0 then di_delta_baseline d else f_lit 5 1000);
        dj = get_or base (cs_delta_rel cal) j in
      if \<not> (is_finite dj \<and> dj > 0) then 0
      else let ratio = dj / base in
        if ratio \<le> f_lit 125 100 then 0
        else f_as_u64 (f_max (f_ceil (x_ln X ratio / x_ln X (f_lit 2 1))) 0))"

definition slack_bump :: "extern \<Rightarrow> dids \<Rightarrow> calib_state \<Rightarrow> nat \<Rightarrow> nat \<Rightarrow> nat \<Rightarrow> nat" where
  "slack_bump X d cal l j a =
     (let bumps = slack_bumps X d cal j in if bumps > 0 then min ((a + bumps) mod 2 ^ 64) l else a)"

definition compute_assignment :: "extern \<Rightarrow> dids \<Rightarrow> nat \<Rightarrow> calib_state \<Rightarrow> nat list" where
  "compute_assignment X d ladder_len cal = (let l = max ladder_len 1 in
     map (\<lambda>j. nat_clamp 1 l (slack_bump X d cal l j (relax_level cal j (raise_level cal l j (base_level X d l j)))))
       [0..<di_m d])"

subsection \<open>Operations\<close>

definition dids_entry :: "xmesh \<Rightarrow> phi \<Rightarrow> nat \<Rightarrow> job_result \<Rightarrow> dids_record" where
  "dids_entry x p phi_idx result =
     (let (outcome, vj) = (case result of
          RejectedCheap _ \<Rightarrow> (Tag_rejected_cheap, None)
        | RejectedInvalidEval _ \<Rightarrow> (Tag_rejected_invalid, None)
        | EarlyInfeasible j _ _ \<Rightarrow> (Tag_early_infeasible, Some j)
        | Partial _ _ \<Rightarrow> (Tag_partial, None)
        | Truth _ _ _ _ _ \<Rightarrow> (Tag_truth, None)) in
      \<lparr>dr_x = x, dr_phi = p, dr_phi_idx = phi_idx, dr_outcome = outcome, dr_violated_j = vj\<rparr>)"

definition dids_record_result :: "xmesh \<Rightarrow> phi \<Rightarrow> nat \<Rightarrow> job_result \<Rightarrow> dids \<Rightarrow> dids" where
  "dids_record_result x p phi_idx result d =
     d\<lparr>di_records := drain_to_cap (max (di_max_records d) 1) (di_records d @ [dids_entry x p phi_idx result])\<rparr>"

definition new_baseline :: "calib_state \<Rightarrow> f64 \<Rightarrow> f64" where
  "new_baseline cal old = (case cs_delta_rel cal of
       [] \<Rightarrow> old
     | d0 # _ \<Rightarrow>
         if is_finite d0 \<and> d0 > 0 then
           let minv = fold (\<lambda>x m. if is_finite x \<and> x > 0 then f_min m x else m) (cs_delta_rel cal) f_inf in
           if is_finite minv then minv else old
         else old)"

definition update_assignment :: "extern \<Rightarrow> nat \<Rightarrow> calib_state \<Rightarrow> dids \<Rightarrow> (nat list \<times> u64) \<times> dids" where
  "update_assignment X ladder_len cal d =
     (let d1 = d\<lparr>di_delta_baseline := new_baseline cal (di_delta_baseline d)\<rparr>;
        new_a = compute_assignment X d1 ladder_len cal;
        changed = (new_a \<noteq> di_assignment d1) in
      ((new_a, if changed then 1 else 0), d1\<lparr>di_assignment := new_a\<rparr>))"

subsection \<open>The contract\<close>

text \<open>
  The engine indexes the ladder by the assignment and adds the revision delta to its policy revision: the
  assignment stays in range, and a delta of zero means it did not change.
\<close>

locale dids_policy =
  fixes update :: "nat \<Rightarrow> calib_state \<Rightarrow> 's \<Rightarrow> (nat list \<times> u64) \<times> 's" and assigned :: "'s \<Rightarrow> nat list" and size_of :: "'s \<Rightarrow> nat"
  assumes in_range: "fst (fst (update L cal s)) = a \<Longrightarrow>
      length a = size_of s \<and> (\<forall>x \<in> set a. 1 \<le> x \<and> x \<le> max L 1)"
    and stored: "assigned (snd (update L cal s)) = fst (fst (update L cal s))"
    and size_kept: "size_of (snd (update L cal s)) = size_of s"
    and delta_zero: "snd (fst (update L cal s)) = 0 \<longleftrightarrow> fst (fst (update L cal s)) = assigned s"
begin

fun run :: "nat \<Rightarrow> calib_state list \<Rightarrow> 's \<Rightarrow> u64 list \<times> 's" where
  "run L [] s = ([], s)"
| "run L (cal # cals) s = (let ((a, dl), s1) = update L cal s; (dls, s2) = run L cals s1 in (dl # dls, s2))"

lemma run_quiet: "run L cals s = (dls, s') \<Longrightarrow> \<forall>dl \<in> set dls. dl = 0 \<Longrightarrow> assigned s' = assigned s"
proof (induction cals arbitrary: s dls)
  case (Cons cal cals)
  obtain a dl s1 where u: "update L cal s = ((a, dl), s1)" by (metis prod.collapse)
  obtain dls' where r: "run L cals s1 = (dls', s')" "dls = dl # dls'" using Cons.prems(1) u by (auto split: prod.splits)
  have "assigned s1 = assigned s" using stored[of L cal s] delta_zero[of L cal s] Cons.prems(2) u r(2) by simp
  then show ?case using Cons.IH[OF r(1)] Cons.prems(2) r(2) by simp
qed simp

lemma run_range: "run L cals s = (dls, s') \<Longrightarrow> cals \<noteq> [] \<Longrightarrow>
  length (assigned s') = size_of s \<and> (\<forall>x \<in> set (assigned s'). 1 \<le> x \<and> x \<le> max L 1)"
proof (induction cals arbitrary: s dls)
  case (Cons cal cals)
  obtain a dl s1 where u: "update L cal s = ((a, dl), s1)" by (metis prod.collapse)
  obtain dls' where r: "run L cals s1 = (dls', s')" using Cons.prems(1) u by (auto split: prod.splits)
  show ?case
  proof (cases cals)
    case Nil
    then show ?thesis using r in_range[of L cal s a] stored[of L cal s] u by simp
  next
    case (Cons c cs)
    then show ?thesis using Cons.IH[OF r] size_kept[of L cal s] u by simp
  qed
qed simp

end

lemma nat_clamp_range: "lo \<le> hi \<Longrightarrow> lo \<le> nat_clamp lo hi x \<and> nat_clamp lo hi x \<le> hi"
  by (simp add: nat_clamp_def)

lemma compute_assignment_length [simp]: "length (compute_assignment X d L cal) = di_m d"
  by (simp add: compute_assignment_def Let_def)

lemma compute_assignment_range: "a \<in> set (compute_assignment X d L cal) \<Longrightarrow> 1 \<le> a \<and> a \<le> max L 1"
  by (auto simp: compute_assignment_def Let_def nat_clamp_def)

interpretation dids_p: dids_policy "update_assignment X" di_assignment di_m for X
  by unfold_locales
    (auto simp: update_assignment_def Let_def simp del: One_nat_def dest: compute_assignment_range)

subsection \<open>Properties\<close>

text \<open>
  C25: whatever the history, the calibration state and the mathematical library return, \<open>update_assignment\<close> gives one
  level per constraint within \<open>1..=max(L, 1)\<close>, stores it, and reports a revision exactly when it changed.
\<close>

theorem update_assignment_correct:
  "let ((a, dl), d') = update_assignment X L cal d in
    length a = di_m d \<and> set a \<subseteq> {1 .. max L 1} \<and> di_assignment d' = a
    \<and> di_records d' = di_records d \<and> di_m d' = di_m d
    \<and> dl = (if a = di_assignment d then 0 else 1)"
proof -
  define d1 where "d1 = d\<lparr>di_delta_baseline := new_baseline cal (di_delta_baseline d)\<rparr>"
  define a where "a = compute_assignment X d1 L cal"
  have "update_assignment X L cal d = ((a, if a \<noteq> di_assignment d then 1 else 0), d1\<lparr>di_assignment := a\<rparr>)"
    by (simp add: update_assignment_def Let_def a_def d1_def)
  moreover have "length a = di_m d" "set a \<subseteq> {1 .. max L 1}"
    using compute_assignment_range unfolding a_def by (auto simp: d1_def)
  ultimately show ?thesis by (simp add: d1_def)
qed

lemma raise_ge_start: "a \<le> raise_level cal l j a"
proof -
  have "a \<le> fold (\<lambda>lvl0 acc. if level_alarm cal j lvl0 then max acc (min (lvl0 + 2) l) else acc) xs a" for xs
  proof (induction xs arbitrary: a)
    case (Cons x xs)
    show ?case using Cons[of "if level_alarm cal j x then max a (min (x + 2) l) else a"] by auto
  qed simp
  then show ?thesis by (simp add: raise_level_def)
qed

lemma raise_covers:
  assumes "level_alarm cal j k" "k < l" "get (cs_audit_n_by_phi_idx cal) j \<noteq> None"
    "get (cs_false_infeas_n_by_phi_idx cal) j \<noteq> None"
  shows "min (k + 2) l \<le> raise_level cal l j a"
proof -
  let ?f = "\<lambda>lvl0 acc. if level_alarm cal j lvl0 then max acc (min (lvl0 + 2) l) else acc"
  have mono: "b \<le> fold ?f xs b" for xs b
  proof (induction xs arbitrary: b)
    case (Cons x xs)
    show ?case using Cons[of "?f x b"] by auto
  qed simp
  have "k \<in> set xs \<Longrightarrow> min (k + 2) l \<le> fold ?f xs b" for xs b
  proof (induction xs arbitrary: b)
    case (Cons x xs)
    show ?case
    proof (cases "x = k")
      case True
      then show ?thesis using mono[of "max b (min (k + 2) l)" xs] assms(1) by simp
    qed (use Cons in auto)
  qed simp
  then show ?thesis using assms by (simp add: raise_level_def)
qed

lemma target_rate_range: "0 \<le> target_rate cal \<and> is_finite (target_rate cal)"
proof (cases "is_finite (cs_target_false cal) \<and> cs_target_false cal > 0")
  case True
  have "is_finite (1 :: f64)" by (simp add: is_finite_def one_f64_def INF_MAG_def)
  then have "is_finite (clamp01 (cs_target_false cal))" using True by (simp add: clamp01_if)
  with True clamp01_range[of "cs_target_false cal"] show ?thesis
    using finite_not_nan by (auto simp: target_rate_def)
next
  case False
  have "is_finite (f_lit 1 100)" by (simp add: f64_eval cong: if_weak_cong)
  then show ?thesis using False f_lit_nonneg[of 1 100] by (auto simp: target_rate_def)
qed

lemma rate_order: "0 \<le> t \<Longrightarrow> is_finite t \<Longrightarrow> t * f_lit 60 100 \<le> t * f_lit 115 100"
  and rate_order': "0 \<le> t \<Longrightarrow> is_finite t \<Longrightarrow> t * f_lit 60 100 \<le> t * f_lit 150 100"
proof -
  have l: "f_lit 60 100 \<le> f_lit 115 100" "f_lit 60 100 \<le> f_lit 150 100" "is_finite (f_lit 115 100)" "is_finite (f_lit 150 100)"
    by (simp_all add: f64_eval cong: if_weak_cong)
  assume t: "0 \<le> t" "is_finite t"
  show "t * f_lit 60 100 \<le> t * f_lit 115 100" "t * f_lit 60 100 \<le> t * f_lit 150 100"
    using times_mono_f64[OF f_lit_nonneg l(1,3) t] times_mono_f64[OF f_lit_nonneg l(2,4) t]
    by (simp_all only: times_comm_f64[of t])
qed

text \<open>A level with an alarm never has the strong evidence that relaxing needs.\<close>

lemma alarm_blocks_relax: "level_alarm cal j k \<Longrightarrow> relax_level cal j (k + 2) = k + 2"
proof -
  assume al: "level_alarm cal j k"
  have "\<not> (x > u \<and> x < v)" if "v \<le> u" for x u v :: f64 using that by (auto simp: f64_ord_defs)
  moreover have "f_lit 55 100 \<le> f_lit 70 100" by (simp add: f64_eval cong: if_weak_cong)
  ultimately show ?thesis
    using al rate_order[of "target_rate cal"] rate_order'[of "target_rate cal"] target_rate_range[of cal]
    unfolding level_alarm_def relax_level_def Let_def by auto
qed

text \<open>
  C24: an alarm is respected. When the audits of constraint \<open>j\<close> at ladder level \<open>k\<close> (counted from zero) raise an
  alarm and a higher level exists, the new assignment cuts \<open>j\<close> only above that level; neither the relaxation nor the
  slack guard undoes it, as long as the guard's \<open>usize\<close> addition does not wrap.
\<close>

theorem alarm_respected:
  assumes "level_alarm cal j k" "k + 2 \<le> L" "j < di_m d"
    and "j < length (cs_audit_n_by_phi_idx cal)" "j < length (cs_false_infeas_n_by_phi_idx cal)"
    and "L + slack_bumps X d cal j < 2 ^ 64"
  shows "k + 2 \<le> compute_assignment X d L cal ! j"
proof -
  define a0 a1 a2 where "a0 = base_level X d L j" and "a1 = raise_level cal L j a0" and "a2 = relax_level cal j a1"
  have a0: "a0 \<le> L" using assms(2) by (auto simp: a0_def base_level_def Let_def nat_clamp_def)
  have "min (k + 2) L \<le> a1"
    unfolding a1_def using assms by (intro raise_covers) auto
  then have a1: "k + 2 \<le> a1" using assms(2) by simp
  have "a1 \<le> L"
  proof -
    have "b \<le> L \<Longrightarrow> fold (\<lambda>lvl0 acc. if level_alarm cal j lvl0 then max acc (min (lvl0 + 2) L) else acc) xs b \<le> L" for xs b
    proof (induction xs arbitrary: b)
      case (Cons x xs)
      show ?case using Cons.prems by (auto intro!: Cons.IH)
    qed simp
    then show ?thesis using a0 by (simp add: a1_def raise_level_def)
  qed
  have a2: "k + 2 \<le> a2" "a2 \<le> L"
  proof -
    have "a2 = a1 \<or> a2 = a1 - 1" by (auto simp: a2_def relax_level_def Let_def)
    moreover have "a1 = k + 2 \<Longrightarrow> a2 = a1" using alarm_blocks_relax[OF assms(1)] by (simp add: a2_def)
    ultimately show "k + 2 \<le> a2" "a2 \<le> L" using a1 \<open>a1 \<le> L\<close> by (cases "a1 = k + 2"; linarith)+
  qed
  have "k + 2 \<le> slack_bump X d cal L j a2"
    using a2 assms(2,6) by (simp add: slack_bump_def Let_def)
  then have "k + 2 \<le> nat_clamp 1 L (slack_bump X d cal L j a2)"
    using assms(2) by (simp add: nat_clamp_def)
  moreover have "max L 1 = L" using assms(2) by simp
  ultimately show ?thesis
    using assms(3) by (simp add: compute_assignment_def Let_def a0_def a1_def a2_def)
qed

text \<open>
  The history is the window of the last 5000 results recorded since \<open>init\<close>, in order.
\<close>

theorem dids_history_window:
  "di_records (fold (\<lambda>(x, p, i, r). dids_record_result x p i r) rs (dids_init m d))
   = drain_to_cap 5000 (map (\<lambda>(x, p, i, r). dids_entry x p i r) rs)"
proof -
  let ?run = "\<lambda>rs. fold (\<lambda>(x, p, i, r). dids_record_result x p i r) rs (dids_init m d)"
  have cap: "di_max_records (?run rs) = 5000" for rs
    by (induction rs rule: rev_induct) (auto simp: dids_init_def dids_record_result_def)
  show ?thesis
  proof (induction rs rule: rev_induct)
    case (snoc r rs)
    obtain x p i jr where r: "r = (x, p, i, jr)" by (metis prod.collapse)
    have "di_records (?run (rs @ [r])) = drain_to_cap 5000 (di_records (?run rs) @ [dids_entry x p i jr])"
      using cap[of rs] by (simp add: r dids_record_result_def)
    then show ?case by (simp add: snoc.IH drain_to_cap_snoc r)
  qed (simp add: dids_init_def drain_to_cap_def)
qed

text \<open>Five audits of constraint 0 at the first level, all of them false infeasible.\<close>

definition calib_demo :: calib_state where
  "calib_demo = (calib_state_init 1)\<lparr>cs_min_audits := 5, cs_audit_n_by_phi_idx := [[5]], cs_false_infeas_n_by_phi_idx := [[5]]\<rparr>"

lemma demo_values: "f_of_int 5 / f_of_int 5 = (1 :: f64)"
  "f_lit 1 10 < (1 + z_wilson * z_wilson / (f_lit 2 1 * f_of_int 5)) / (1 + z_wilson * z_wilson / f_of_int 5)"
  "is_finite (1 * (1 - 1) / f_of_int 5 + z_wilson * z_wilson / (f_lit 4 1 * f_of_int 5 * f_of_int 5))"
  "0 \<le> z_wilson / (1 + z_wilson * z_wilson / f_of_int 5)" "is_finite (z_wilson / (1 + z_wilson * z_wilson / f_of_int 5))"
  by (simp_all add: z_wilson_def f64_eval cong: if_weak_cong)

lemma demo_rate: "target_rate calib_demo * f_lit 115 100 < f_lit 1 10" "f_lit 1 10 < (1 :: f64)"
  by (simp_all add: target_rate_def calib_demo_def calib_state_init_def clamp01_if f64_eval cong: if_weak_cong)

lemma wilson_demo: "f_lit 1 10 < snd (wilson_interval 5 5 z_wilson)"
proof -
  define c rad where "c = (1 + z_wilson * z_wilson / (f_lit 2 1 * f_of_int 5)) / (1 + z_wilson * z_wilson / f_of_int 5)"
    and "rad = z_wilson / (1 + z_wilson * z_wilson / f_of_int 5)
      * f_sqrt (f_max (1 * (1 - 1) / f_of_int 5 + z_wilson * z_wilson / (f_lit 4 1 * f_of_int 5 * f_of_int 5)) 0)"
  have w: "snd (wilson_interval 5 5 z_wilson) = clamp01 (c + rad)"
    by (simp add: wilson_interval_def Let_def demo_values(1) c_def rad_def)
  have s: "is_finite (f_sqrt (f_max e 0))" "0 \<le> f_sqrt (f_max e 0)" if "is_finite e" for e
    using f_max_finite[OF that finite_0] f_max_ge2[OF nan_0, of e] f_sqrt_finite[of "f_max e 0"]
      f_sqrt_nonneg[of "f_max e 0"] finite_not_nan by auto
  have r: "0 \<le> rad"
    unfolding rad_def using demo_values(3-5) s by (intro mult_nonneg_f64 mult_not_nan) auto
  have cf: "is_finite c"
    unfolding c_def by (simp add: z_wilson_def f64_eval cong: if_weak_cong)
  have "c \<le> c + rad" using cf r by (rule add_increasing_f64)
  moreover have "f_lit 1 10 < c" unfolding c_def by (rule demo_values(2))
  ultimately have "f_lit 1 10 < c + rad" by (auto simp: f64_ord_defs)
  then show ?thesis using demo_rate(2) f_lit_nonneg[of 1 10] unfolding w clamp01_if by (auto simp: f64_ord_defs)
qed

lemma demo_alarm: "level_alarm calib_demo 0 0"
proof -
  have "target_rate calib_demo * f_lit 115 100 < snd (wilson_interval 5 5 z_wilson)"
    using wilson_demo demo_rate(1) by (auto simp: f64_ord_defs)
  moreover have "level_count (cs_audit_n_by_phi_idx calib_demo) 0 0 = 5"
    "level_count (cs_false_infeas_n_by_phi_idx calib_demo) 0 0 = 5" "cs_min_audits calib_demo = 5"
    by (simp_all add: calib_demo_def level_count_def get_def get_or_def)
  ultimately show ?thesis by (simp add: level_alarm_def Let_def)
qed

theorem alarm_respected_witness:
  "2 \<le> compute_assignment extern0 (dids_init 1 dids_default) 3 calib_demo ! 0"
proof -
  have len: "0 < length (cs_audit_n_by_phi_idx calib_demo)" "0 < length (cs_false_infeas_n_by_phi_idx calib_demo)"
    "0 < di_m (dids_init 1 dids_default)" by (simp_all add: calib_demo_def dids_init_def)
  have "is_finite (f_lit 5 1000)" "0 < f_lit 5 1000" "f_lit 5 1000 / f_lit 5 1000 \<le> f_lit 125 100"
    by (simp_all add: f64_eval cong: if_weak_cong)
  then have "slack_bumps extern0 (dids_init 1 dids_default) calib_demo 0 = 0"
    by (simp add: slack_bumps_def dids_init_def calib_demo_def calib_state_init_def get_or_def Let_def)
  then show ?thesis
    using alarm_respected[OF demo_alarm, of 3 "dids_init 1 dids_default" extern0] len by simp
qed

end
