(* ===== verification/Magnitude.thy ===== *)
theory Magnitude
  imports Float64
begin

text \<open>
  Magnitudes of binary64 values: \<open>mag_le k x\<close> says that \<open>x\<close> is a number of absolute value at most \<open>2 ^ k\<close>. The bound is
  kept by rounding, so that it adds up through products and sums and shows, for whole expressions of the code, that they
  neither overflow nor become NaN.
\<close>

definition mag_le :: "nat \<Rightarrow> f64 \<Rightarrow> bool" where
  "mag_le k x \<longleftrightarrow> fmag x \<le> (k + 1023) * 2 ^ 52"

lemma munits_pow: "munits ((k + 1023) * 2 ^ 52) = 2 ^ k * one_units"
proof -
  have "(k + 1023) * 2 ^ 52 = k * 2 ^ 52 + 4607182418800017408" by (simp add: add_mult_distrib)
  then show ?thesis using munits_shift[of 4607182418800017408 k] by (simp add: munits_one)
qed

lemma mag_le_units: "mag_le k x \<longleftrightarrow> munits (fmag x) \<le> 2 ^ k * one_units"
  unfolding mag_le_def munits_pow[symmetric] by simp

lemma mag_le_mono: "mag_le k x \<Longrightarrow> k \<le> l \<Longrightarrow> mag_le l x"
  unfolding mag_le_def by (meson add_le_mono1 mult_le_mono1 order_trans)

lemma mag_le_finite: "mag_le k x \<Longrightarrow> k \<le> 1023 \<Longrightarrow> is_finite x"
proof -
  assume "mag_le k x" "k \<le> 1023"
  then have "fmag x \<le> 2046 * 2 ^ 52"
    unfolding mag_le_def using mult_le_mono1[of "k + 1023" 2046 "2 ^ 52"] by linarith
  then show ?thesis by (simp add: is_finite_def INF_MAG_def)
qed

lemma mag_le_not_nan: "mag_le k x \<Longrightarrow> k \<le> 1023 \<Longrightarrow> \<not> is_nan x"
  using mag_le_finite finite_not_nan by blast

lemma mag_le_minus [simp]: "mag_le k (- x) = mag_le k x"
  by (simp add: mag_le_def uminus_f64_def)

lemma mag_le_zero [simp]: "mag_le k 0"
  by (simp add: mag_le_def)

lemma mag_le_one [simp]: "mag_le k 1"
  by (simp add: mag_le_def one_f64_def add_mult_distrib)

lemma mag_le_times:
  assumes "mag_le a x" "mag_le b y" "a \<le> 1023" "b \<le> 1023"
  shows "mag_le (a + b) (x * y)"
proof -
  have fin: "is_finite x" "is_finite y" using mag_le_finite assms by blast+
  have "munits (fmag x) * munits (fmag y) \<le> (2 ^ a * one_units) * (2 ^ b * one_units)"
    using assms(1,2) unfolding mag_le_units by (rule mult_le_mono)
  also have "\<dots> = munits ((a + b + 1023) * 2 ^ 52) * one_units"
    unfolding munits_pow by (simp add: power_add)
  finally have "mround (munits (fmag x) * munits (fmag y)) one_units \<le> (a + b + 1023) * 2 ^ 52"
    by (rule mround_le) simp
  then show ?thesis using fin by (simp add: mag_le_def times_f64_def finite_iff)
qed

lemma mag_le_rnd: "\<bar>i\<bar> \<le> int (2 ^ k * one_units) \<Longrightarrow> mag_le k (rnd s i 1)"
proof -
  assume "\<bar>i\<bar> \<le> int (2 ^ k * one_units)"
  then have "nat \<bar>i\<bar> \<le> munits ((k + 1023) * 2 ^ 52) * 1" unfolding munits_pow nat_le_iff by (simp only: mult_1_right)
  then have "mround (nat \<bar>i\<bar>) 1 \<le> (k + 1023) * 2 ^ 52" by (rule mround_le) simp
  then show ?thesis by (simp add: mag_le_def rnd_def)
qed

lemma mag_le_fint: "mag_le k x \<longleftrightarrow> \<bar>fint x\<bar> \<le> int (2 ^ k * one_units)"
  unfolding mag_le_units fint_def by (simp only: abs_minus abs_of_nat if_distrib[of abs] if_cancel of_nat_le_iff)

lemma mag_le_plus:
  assumes "mag_le k x" "mag_le k y" "k \<le> 1023"
  shows "mag_le (Suc k) (x + y)"
proof -
  have fin: "is_finite x" "is_finite y" using mag_le_finite assms by blast+
  have "\<bar>fint x + fint y\<bar> \<le> int (2 ^ k * one_units) + int (2 ^ k * one_units)"
    using assms(1,2) unfolding mag_le_fint by linarith
  also have "\<dots> = int (2 ^ Suc k * one_units)" by simp
  finally show ?thesis unfolding finite_add[OF fin] by (rule mag_le_rnd)
qed

lemma mag_le_diff: "mag_le k x \<Longrightarrow> mag_le k y \<Longrightarrow> k \<le> 1023 \<Longrightarrow> mag_le (Suc k) (x - y)"
  unfolding minus_f64_def by (rule mag_le_plus) simp_all

lemma mag_le_of_int: "\<bar>i\<bar> \<le> 2 ^ k \<Longrightarrow> mag_le k (f_of_int i)"
proof -
  assume "\<bar>i\<bar> \<le> 2 ^ k"
  then have "\<bar>i\<bar> * int one_units \<le> 2 ^ k * int one_units" by (rule mult_right_mono) simp
  then show ?thesis unfolding f_of_int_def by (intro mag_le_rnd) (simp add: abs_mult)
qed

lemma mag_le_lit: "a \<le> 2 ^ k * b \<Longrightarrow> 0 < b \<Longrightarrow> mag_le k (f_lit a b)"
proof -
  assume "a \<le> 2 ^ k * b" and b: "0 < b"
  then have "a * one_units \<le> munits ((k + 1023) * 2 ^ 52) * b"
    unfolding munits_pow using mult_le_mono1[of a "2 ^ k * b" one_units] by (simp add: ac_simps)
  then have "mround (a * one_units) b \<le> (k + 1023) * 2 ^ 52" using b by (rule mround_le)
  then show ?thesis by (simp add: mag_le_def f_lit_def)
qed

text \<open>The bound of a power of two, as a comparison of the code.\<close>

lemma fkey_of_pow: "fkey (f_of_int (2 ^ k)) = int (min INF_MAG ((k + 1023) * 2 ^ 52))"
proof -
  have e: "nat \<bar>2 ^ k * int one_units\<bar> = munits ((k + 1023) * 2 ^ 52) * 1"
    unfolding munits_pow by (simp add: nat_mult_distrib nat_power_eq abs_mult)
  have "mround (munits ((k + 1023) * 2 ^ 52) * 1) 1 = min INF_MAG ((k + 1023) * 2 ^ 52)"
    by (simp add: mround_def mnear_def)
  then show ?thesis unfolding f_of_int_def
    by (simp only: fkey_rnd[OF zero_less_one] e) (simp add: sgn_if)
qed

lemma mag_le_compare: "0 \<le> x \<Longrightarrow> x \<le> f_of_int (2 ^ k) \<Longrightarrow> mag_le k x"
proof -
  assume "0 \<le> x" "x \<le> f_of_int (2 ^ k)"
  then have "0 \<le> fkey x" "fkey x \<le> int (min INF_MAG ((k + 1023) * 2 ^ 52))"
    unfolding fkey_of_pow[symmetric] by (simp_all add: less_eq_f64_def)
  moreover have "int (fmag x) = \<bar>fkey x\<bar>" by (simp add: fkey_def)
  ultimately have "int (fmag x) \<le> int ((k + 1023) * 2 ^ 52)" by linarith
  then show ?thesis by (simp only: mag_le_def of_nat_le_iff)
qed

text \<open>Quotients, and exponents read off the pattern.\<close>

lemma one_le_units: "1 \<le> y \<Longrightarrow> one_units \<le> munits (fmag y)"
proof -
  assume "1 \<le> y"
  then have "4607182418800017408 \<le> fmag y" by (auto simp: less_eq_f64_def fkey_def one_f64_def split: if_splits)
  then have "munits 4607182418800017408 \<le> munits (fmag y)" by simp
  then show ?thesis by (simp only: munits_one)
qed

lemma mag_le_divide:
  assumes x: "mag_le a x" "a \<le> 1023" and y: "1 \<le> y" "is_finite y"
  shows "mag_le a (x / y)"
proof -
  have u: "one_units \<le> munits (fmag y)" using y(1) by (rule one_le_units)
  then have pos: "0 < munits (fmag y)" using one_units_pos by linarith
  have "munits (fmag x) * one_units \<le> 2 ^ a * one_units * munits (fmag y)"
    using x(1) u unfolding mag_le_units by (rule mult_le_mono)
  then have "mround (munits (fmag x) * one_units) (munits (fmag y)) \<le> (a + 1023) * 2 ^ 52"
    unfolding munits_pow[symmetric] by (rule mround_le) (rule pos)
  moreover have "is_finite x" using x by (rule mag_le_finite)
  ultimately show ?thesis using y(2) pos by (auto simp: mag_le_def divide_f64_def finite_iff is_zero_def)
qed

lemma munits_exp: "0 < j \<Longrightarrow> munits (j * 2 ^ 52) = 2 ^ (j + 51)"
proof -
  assume "0 < j"
  then have "j * 2 ^ 52 = (j - 1) * 2 ^ 52 + 2 ^ 52" by (cases j) simp_all
  moreover have "munits ((j - 1) * 2 ^ 52 + 2 ^ 52) = 2 ^ (j - 1) * 2 ^ 52" by (subst munits_shift) (simp_all add: munits_small)
  moreover have "(2 :: nat) ^ (j - 1) * 2 ^ 52 = 2 ^ (j + 51)" using \<open>0 < j\<close> unfolding power_add[symmetric] by simp
  ultimately show ?thesis by simp
qed

lemma msqrt_ge: "(munits n)\<^sup>2 \<le> u * one_units \<Longrightarrow> n \<le> msqrt u"
proof -
  assume "(munits n)\<^sup>2 \<le> u * one_units"
  then have "(munits n)\<^sup>2 < (Suc (isqrt (u * one_units)))\<^sup>2" using isqrt_bounds[of "u * one_units"] by linarith
  then have "munits n < Suc (isqrt (u * one_units))" by (rule power_less_imp_less_base) simp
  then have "n \<le> mfloor (isqrt (u * one_units))" by (simp add: mfloor_galois)
  then show ?thesis by (simp add: msqrt_def Let_def)
qed

lemma sqrt_exp_ge:
  assumes "(2 * j - 1023) * 2 ^ 52 \<le> fmag s" "512 \<le> j" "0 \<le> s" "is_finite s"
  shows "j * 2 ^ 52 \<le> fmag (f_sqrt s)"
proof -
  have "2 ^ (2 * j - 972) = munits ((2 * j - 1023) * 2 ^ 52)" using assms(2) by (subst munits_exp) simp_all
  also have "\<dots> \<le> munits (fmag s)" using assms(1) by simp
  finally have "2 ^ (2 * j - 972) * 2 ^ 1074 \<le> munits (fmag s) * one_units" unfolding one_units_def by simp
  moreover have "(2 :: nat) ^ (2 * j - 972) * 2 ^ 1074 = (2 ^ (j + 51))\<^sup>2"
    unfolding power_add[symmetric] power_mult[symmetric] using assms(2) by (intro arg_cong[where f = "(^) 2"]) presburger
  ultimately have "(munits (j * 2 ^ 52))\<^sup>2 \<le> munits (fmag s) * one_units" using assms(2) by (subst munits_exp) simp_all
  then have "j * 2 ^ 52 \<le> msqrt (munits (fmag s))" by (rule msqrt_ge)
  moreover have "0 < fmag s" using assms(1,2) by (cases "fmag s") auto
  ultimately show ?thesis using assms(3,4) by (auto simp: f_sqrt_def nonneg_iff is_zero_def finite_iff)
qed

lemma square_exp_ge:
  assumes "j * 2 ^ 52 \<le> fmag d" "512 \<le> j" "is_finite (d * d)" "is_finite d"
  shows "(2 * j - 1023) * 2 ^ 52 \<le> fmag (d * d)"
proof -
  let ?n = "min ((2 * j - 1023) * 2 ^ 52) INF_MAG"
  have "munits ?n * one_units \<le> munits ((2 * j - 1023) * 2 ^ 52) * one_units" by simp
  also have "\<dots> = 2 ^ (2 * j - 972) * 2 ^ 1074" using assms(2) by (subst munits_exp) (simp_all add: one_units_def)
  also have "\<dots> = 2 ^ (j + 51) * 2 ^ (j + 51)"
    unfolding power_add[symmetric] using assms(2) by (intro arg_cong[where f = "(^) 2"]) linarith
  also have "\<dots> = munits (j * 2 ^ 52) * munits (j * 2 ^ 52)" by (subst (1 2) munits_exp) (use assms(2) in simp_all)
  also have "\<dots> \<le> munits (fmag d) * munits (fmag d)" using assms(1) by (intro mult_le_mono) simp_all
  finally have "?n \<le> mround (munits (fmag d) * munits (fmag d)) one_units" by (intro mround_ge) simp_all
  then have "?n \<le> fmag (d * d)" using assms(4) by (simp add: times_f64_def finite_iff)
  moreover have "fmag (d * d) < INF_MAG" using assms(3) by (simp add: is_finite_def)
  ultimately show ?thesis by linarith
qed

text \<open>
  A vector divided by its length: a component is at most 2 in magnitude, whatever the roundings, when the square of the
  length is above \<open>1e-30\<close> and at least the square of the component.
\<close>

lemma normalised_mag:
  assumes d: "is_finite d" and s: "f_lit 1 (10 ^ 30) < s" "d * d \<le> s"
  shows "mag_le 1 (d * (1 / f_sqrt s))"
proof (cases "is_infinite s")
  case True
  moreover have "f_lit 1 (10 ^ 30) < s" "0 \<le> s" using s f_lit_nonneg[of 1 "10 ^ 30"] by (auto simp: f64_ord_defs)
  ultimately have "fmag (1 / f_sqrt s) = 0"
    by (auto simp: f_sqrt_def divide_f64_def is_zero_def f64_pred_defs one_f64_def INF_MAG_def nonneg_iff)
  with d show ?thesis by (simp add: times_f64_def mag_le_def f64_pred_defs INF_MAG_def)
next
  case False
  define j where "j = max 973 (fmag d div 2 ^ 52)"
  let ?q = "f_sqrt s"
  have fin: "is_finite s" "0 \<le> s" using s False f_lit_nonneg[of 1 "10 ^ 30"] by (auto simp: f64_ord_defs finite_iff)
  have "d * d \<le> s" "0 \<le> d * d" using s(2) square_nonneg_f64[of d] by (auto simp: f64_ord_defs)
  then have dd: "is_finite (d * d)" "fmag (d * d) \<le> fmag s"
    using fin by (auto simp: f64_ord_defs f64_pred_defs fkey_def split: if_splits)
  have "(2 * 973 - 1023) * 2 ^ 52 \<le> fmag (f_lit 1 (10 ^ 30))" by (simp add: f64_eval cong: if_weak_cong)
  also have "fmag (f_lit 1 (10 ^ 30)) \<le> fmag s" using s(1) fin(2) by (auto simp: f64_ord_defs fkey_def f_lit_def split: if_splits)
  finally have low: "(2 * 973 - 1023) * 2 ^ 52 \<le> fmag s" .
  have big: "(2 * j - 1023) * 2 ^ 52 \<le> fmag s"
  proof (cases "973 \<le> fmag d div 2 ^ 52")
    case True
    then have "j * 2 ^ 52 \<le> fmag d" "512 \<le> j" by (simp_all add: j_def max_absorb2)
    from square_exp_ge[OF this dd(1) d] dd(2) show ?thesis by linarith
  qed (use low in \<open>simp add: j_def max_absorb1\<close>)
  have j: "973 \<le> j" by (simp add: j_def)
  then have q: "j * 2 ^ 52 \<le> fmag ?q" using big fin by (intro sqrt_exp_ge) simp_all
  have qf: "is_finite ?q" "0 \<le> ?q" using fin f_sqrt_finite f_sqrt_nonneg finite_not_nan by blast+
  have "(2 * j - 1023) * 2 ^ 52 < INF_MAG" using big fin(1) by (simp add: is_finite_def)
  then have j2: "j < 1600" by (simp add: INF_MAG_def)
  have uq: "2 ^ (j + 51) \<le> munits (fmag ?q)" using q munits_exp[of j] j munits_le_iff[of "j * 2 ^ 52" "fmag ?q"] by linarith
  then have uq0: "0 < munits (fmag ?q)" using zero_less_power[of "2 :: nat" "j + 51"] by linarith
  have "munits 4607182418800017408 * one_units = 2 ^ (2046 - j + 51) * 2 ^ (j + 51)"
    unfolding munits_one one_units_def power_add[symmetric] using j2 by (intro arg_cong[where f = "(^) 2"]) linarith
  also have "\<dots> \<le> munits ((2046 - j) * 2 ^ 52) * munits (fmag ?q)"
    by (subst munits_exp) (use uq j2 in simp_all)
  finally have "mround (munits 4607182418800017408 * one_units) (munits (fmag ?q)) \<le> (2046 - j) * 2 ^ 52"
    by (rule mround_le) (rule uq0)
  then have inv: "fmag (1 / ?q) \<le> (2046 - j) * 2 ^ 52" using qf uq0
    by (auto simp: divide_f64_def finite_iff is_zero_def one_f64_def f64_pred_defs INF_MAG_def)
  then have "munits (fmag (1 / ?q)) \<le> munits ((2046 - j) * 2 ^ 52)" by simp
  then have ui: "munits (fmag (1 / ?q)) \<le> 2 ^ (2046 - j + 51)" by (subst (asm) munits_exp) (use j2 in simp_all)
  have "fmag d div 2 ^ 52 \<le> j" by (simp add: j_def)
  then have "fmag d \<le> (j + 1) * 2 ^ 52" using dividend_less_times_div[of "2 ^ 52" "fmag d"] by simp
  then have "munits (fmag d) \<le> munits ((j + 1) * 2 ^ 52)" by simp
  then have ud: "munits (fmag d) \<le> 2 ^ (j + 52)" by (subst (asm) munits_exp) (simp_all add: ac_simps)
  have "munits (fmag d) * munits (fmag (1 / ?q)) \<le> 2 ^ (j + 52) * 2 ^ (2046 - j + 51)" using ud ui by (rule mult_le_mono)
  also have "\<dots> = munits ((1 + 1023) * 2 ^ 52) * one_units"
    unfolding munits_pow one_units_def power_add[symmetric] using j2 by (intro arg_cong[where f = "(^) 2"]) linarith
  finally have "mround (munits (fmag d) * munits (fmag (1 / ?q))) one_units \<le> (1 + 1023) * 2 ^ 52" by (rule mround_le) simp
  moreover have "is_finite (1 / ?q)" using inv j by (simp add: is_finite_def INF_MAG_def)
  ultimately show ?thesis using d by (simp add: mag_le_def times_f64_def finite_iff)
qed

end
