(* ===== verification/Search.thy ===== *)
theory Search
  imports Mesh Evaluator Magnitude
begin

text \<open>
  \<open>policies/search.rs\<close>: the interface of a search policy, the SplitMix64 generator, \<open>DefaultSearch\<close> and the
  projection of its proposals onto the mesh. The generator's state is passed explicitly and every draw is in the order
  of the code. The lemmas show that draws are in the half-open unit interval, that proposals have the dimension of the
  context and unique ids, and that proposing cannot panic.
\<close>

subsection \<open>The interface\<close>

record raw_cand =
  rc_id :: cand_id
  rc_x :: "f64 list"

record search_ctx =
  sx_dim :: nat
  sx_incumbent_x :: "f64 list option"
  sx_mesh_steps :: "f64 list"

definition search_ctx_default :: search_ctx where
  "search_ctx_default = \<lparr>sx_dim = 0, sx_incumbent_x = None, sx_mesh_steps = []\<rparr>"

definition sx_mesh_step :: "search_ctx \<Rightarrow> f64" where
  "sx_mesh_step c = get_or 1 (sx_mesh_steps c) 0"

text \<open>A search policy as the engine sees it; the state of \<open>SearchState\<close> is the iteration.\<close>

record 's search_ops =
  so_reset :: "env \<Rightarrow> 's \<Rightarrow> 's"
  so_set_context :: "search_ctx \<Rightarrow> 's \<Rightarrow> 's"
  so_propose :: "nat \<Rightarrow> nat \<Rightarrow> 's \<Rightarrow> (raw_cand list \<times> 's) res"
  so_score :: "raw_cand \<Rightarrow> f64 option \<Rightarrow> 's \<Rightarrow> f64"

subsection \<open>SplitMix64\<close>

definition next_u64 :: "u64 \<Rightarrow> u64 \<times> u64" where
  "next_u64 state = (let s = state + 0x9E3779B97F4A7C15 in (splitmix_mix s, s))"

definition next_f64 :: "u64 \<Rightarrow> f64 \<times> u64" where
  "next_f64 state = (let (w, s) = next_u64 state; den = 1 / f_of_int (2 ^ 53) in
     (f_of_int (uint (drop_bit 11 w)) * den, s))"

definition next_i64_range :: "int \<Rightarrow> int \<Rightarrow> u64 \<Rightarrow> (int \<times> u64) res" where
  "next_i64_range lo hi state = (let span = of_int (hi - lo) :: u64; (w, s) = next_u64 state in
     if span = 0 then Inl Rem_by_zero else Inr (i64_wrap (lo + i64_wrap (uint (w mod span))), s))"

definition next_sign :: "u64 \<Rightarrow> f64 \<times> u64" where
  "next_sign state = (let (w, s) = next_u64 state in (if w AND 1 = 0 then (- 1, s) else (1, s)))"

subsection \<open>\<open>DefaultSearch\<close>\<close>

record default_search =
  ds_next :: u64
  ds_rng :: u64
  ds_ctx :: search_ctx

definition default_search_default :: default_search where
  "default_search_default = \<lparr>ds_next = 0, ds_rng = 0, ds_ctx = search_ctx_default\<rparr>"

definition search_seed :: "env \<Rightarrow> u64" where
  "search_seed e = ucast (rng_master_seed e) XOR ucast (run_id e)"

definition ds_reset :: "env \<Rightarrow> default_search \<Rightarrow> default_search" where
  "ds_reset e d = d\<lparr>ds_next := 0, ds_rng := search_seed e, ds_ctx := search_ctx_default\<rparr>"

definition ds_set_context :: "search_ctx \<Rightarrow> default_search \<Rightarrow> default_search" where
  "ds_set_context c d = d\<lparr>ds_ctx := c\<rparr>"

definition search_step :: "search_ctx \<Rightarrow> f64" where
  "search_step c = (let ms = sx_mesh_step c in if is_finite ms \<and> ms > 0 then ms else 1)"

definition cand_id_of :: "nat \<Rightarrow> u64 \<Rightarrow> cand_id" where
  "cand_id_of iter nxt = push_bit 32 (of_nat iter) OR nxt"

text \<open>A random multiple of the step along one coordinate: the multiplier first, then the sign.\<close>

definition jump :: "nat \<Rightarrow> u64 \<Rightarrow> f64 \<Rightarrow> f64 list \<Rightarrow> u64 \<Rightarrow> f64 list \<times> u64" where
  "jump k modulus step x rng = (let (w, r1) = next_u64 rng; mult = 1 + f_of_int (uint (w mod modulus));
     (sg, r2) = next_sign r1 in (x[k := x ! k + sg * mult * step], r2))"

definition ds_local :: "nat \<Rightarrow> f64 \<Rightarrow> f64 list \<Rightarrow> u64 \<Rightarrow> (f64 list \<times> u64) res" where
  "ds_local dim step inc rng = (let x = (if length inc \<noteq> dim then resize dim 0 inc else inc);
     (w, r1) = next_u64 rng; k = unat w mod dim; (x1, r2) = jump k 4 step x r1 in
   if dim \<ge> 2 then (let (u, r3) = next_f64 r2 in
     if u < f_lit 25 100 then res_bind (next_i64_range 1 (int dim) r3) (\<lambda>(off, r4).
       Inr (jump (unat (of_int (int k + off) :: u64) mod dim) 3 step x1 r4))
     else Inr (x1, r3))
   else Inr (x1, r2))"

fun ds_explore :: "nat \<Rightarrow> f64 \<Rightarrow> u64 \<Rightarrow> f64 list \<times> u64" where
  "ds_explore 0 radius rng = ([], rng)"
| "ds_explore (Suc n) radius rng = (let (u, r1) = next_f64 rng; (xs, r2) = ds_explore n radius r1 in
     ((f_lit 2 1 * u - 1) * radius # xs, r2))"

definition ds_point :: "extern \<Rightarrow> nat \<Rightarrow> search_ctx \<Rightarrow> u64 \<Rightarrow> (f64 list \<times> u64) res" where
  "ds_point X iter c rng = (let dim = max (sx_dim c) 1; step = search_step c;
     explore = (\<lambda>r. let t = 1 + x_ln_1p X (f_of_int (int iter)) in Inr (ds_explore dim (step * f_lit 8 1 * t) r)) in
   case sx_incumbent_x c of
     None \<Rightarrow> explore rng
   | Some inc \<Rightarrow> (let (u, r1) = next_f64 rng in if u < f_lit 70 100 then ds_local dim step inc r1 else explore r1))"

fun ds_propose_loop :: "extern \<Rightarrow> nat \<Rightarrow> nat \<Rightarrow> default_search \<Rightarrow> (raw_cand list \<times> default_search) res" where
  "ds_propose_loop X iter 0 d = Inr ([], d)"
| "ds_propose_loop X iter (Suc n) d = res_bind (ds_point X iter (ds_ctx d) (ds_rng d)) (\<lambda>(x, rng).
     res_bind (ds_propose_loop X iter n (d\<lparr>ds_rng := rng, ds_next := ds_next d + 1\<rparr>)) (\<lambda>(rest, d').
       Inr (\<lparr>rc_id = cand_id_of iter (ds_next d), rc_x = x\<rparr> # rest, d')))"

definition ds_propose :: "extern \<Rightarrow> nat \<Rightarrow> nat \<Rightarrow> default_search \<Rightarrow> (raw_cand list \<times> default_search) res" where
  "ds_propose X iter budget d = ds_propose_loop X iter budget d"

text \<open>The squared distance to the incumbent, or to the origin; missing coordinates count as zero.\<close>

definition search_score :: "search_ctx \<Rightarrow> raw_cand \<Rightarrow> f64" where
  "search_score c rc = (let dim = max (sx_dim c) 1 in case sx_incumbent_x c of
     Some ix \<Rightarrow> fold (\<lambda>i s. let d = get_or 0 (rc_x rc) i - get_or 0 ix i in s + d * d) [0..<dim] 0
   | None \<Rightarrow> f_sum (map (\<lambda>v. v * v) (rc_x rc)))"

definition ds_score :: "raw_cand \<Rightarrow> f64 option \<Rightarrow> default_search \<Rightarrow> f64" where
  "ds_score rc hint d = search_score (ds_ctx d) rc"

definition default_search_ops :: "extern \<Rightarrow> default_search search_ops" where
  "default_search_ops X = \<lparr>so_reset = ds_reset, so_set_context = ds_set_context, so_propose = ds_propose X,
     so_score = ds_score\<rparr>"

subsection \<open>Projection onto the mesh\<close>

definition project_to_mesh :: "extern \<Rightarrow> raw_cand \<Rightarrow> mesh_geo \<Rightarrow> xmesh res" where
  "project_to_mesh X rc geo = (case xreal_new X (rc_x rc) of None \<Rightarrow> Inl Unwrap_failed
     | Some xr \<Rightarrow> Inr (quantize_real_to_mesh xr geo))"

definition project_to_aniso_mesh :: "extern \<Rightarrow> raw_cand \<Rightarrow> aniso_geo \<Rightarrow> xmesh res" where
  "project_to_aniso_mesh X rc geo = (case xreal_new X (rc_x rc) of None \<Rightarrow> Inl Unwrap_failed
     | Some xr \<Rightarrow> quantize_real_to_aniso_mesh xr geo)"

subsection \<open>The contract of a search policy\<close>

text \<open>
  The contexts the engine builds: steps and incumbent of bounded magnitude, a dimension that a vector can have and an
  incumbent of that dimension. The documented range of \<open>ln_1p\<close> on what a counter can be is far below the bound used here.
\<close>

definition ctx_bounded :: "search_ctx \<Rightarrow> bool" where
  "ctx_bounded c \<longleftrightarrow> sx_dim c < 2 ^ 63 \<and> (\<forall>v \<in> set (sx_mesh_steps c). mag_le 863 v)
     \<and> (case sx_incumbent_x c of None \<Rightarrow> True | Some inc \<Rightarrow> \<forall>v \<in> set inc. mag_le 864 v)"

definition ctx_dim :: "nat \<Rightarrow> search_ctx \<Rightarrow> bool" where
  "ctx_dim D c \<longleftrightarrow> max (sx_dim c) 1 = D \<and> (\<forall>inc. sx_incumbent_x c = Some inc \<longrightarrow> length inc = D)"

definition ln_1p_bounded :: "extern \<Rightarrow> bool" where
  "ln_1p_bounded X \<longleftrightarrow> (\<forall>v. 0 \<le> v \<longrightarrow> mag_le 64 v \<longrightarrow> mag_le 64 (x_ln_1p X v))"

lemma ln_1p_counter: "ln_1p_bounded X \<Longrightarrow> i < 2 ^ 64 \<Longrightarrow> mag_le 64 (x_ln_1p X (f_of_int (int i)))"
  by (simp add: ln_1p_bounded_def f_of_int_nonneg mag_le_of_int)

text \<open>A raw candidate the engine can use: a finite point of the right dimension, and a score that is a number.\<close>

definition cand_usable :: "'s search_ops \<Rightarrow> 's \<Rightarrow> nat \<Rightarrow> raw_cand \<Rightarrow> bool" where
  "cand_usable so s dim rc \<longleftrightarrow> length (rc_x rc) = dim \<and> (\<forall>v \<in> set (rc_x rc). is_finite v) \<and> (\<forall>h. \<not> is_nan (so_score so rc h s))"

locale search_policy =
  fixes X :: extern and so :: "'s search_ops" and sinv :: "nat \<Rightarrow> 's \<Rightarrow> bool"
  assumes reset_ok: "sinv D (so_reset so e s)"
    and propose_ok: "ln_1p_bounded X \<Longrightarrow> ctx_bounded c \<Longrightarrow> ctx_dim D c \<Longrightarrow> iter < 2 ^ 64 \<Longrightarrow> sinv D s \<Longrightarrow>
      \<exists>raw s'. so_propose so iter n (so_set_context so c s) = Inr (raw, s') \<and> length raw = n \<and> sinv D s'
        \<and> (\<forall>rc \<in> set raw. cand_usable so s' D rc)"
begin

text \<open>The projection of such a candidate onto a geometry with enough axes cannot panic.\<close>

lemma usable_points:
  assumes "extern_ok X" "cand_usable so s dim rc" "dim \<le> length (ag_base_steps geo)" "dim \<le> length (ag_mesh_muls geo)"
  shows "\<exists>x. project_to_aniso_mesh X rc geo = Inr x \<and> length x = dim"
proof -
  have q: "\<exists>x. quantize_aniso_from geo i xs = Inr x \<and> length x = length xs"
    if "i + length xs \<le> length (ag_base_steps geo)" "i + length xs \<le> length (ag_mesh_muls geo)" for i xs
    using that
  proof (induction xs arbitrary: i)
    case (Cons v xs)
    from Cons.IH[of "Suc i"] Cons.prems obtain x where "quantize_aniso_from geo (Suc i) xs = Inr x" "length x = length xs" by auto
    with Cons.prems show ?case by (auto simp: Let_def)
  qed simp
  from assms(2) have "xreal_new X (rc_x rc) = Some (rc_x rc)" "length (rc_x rc) = dim"
    by (simp_all add: cand_usable_def xreal_new_ok[OF assms(1)])
  with q[of 0 "rc_x rc"] assms(3,4) show ?thesis by (simp add: project_to_aniso_mesh_def quantize_real_to_aniso_mesh_def)
qed

end

subsection \<open>\<open>DefaultSearch\<close> satisfies it\<close>

lemma search_step_mag: "ctx_bounded c \<Longrightarrow> mag_le 863 (search_step c)"
proof -
  assume c: "ctx_bounded c"
  have "mag_le 863 (sx_mesh_step c)"
    using c by (cases "sx_mesh_steps c") (simp_all add: sx_mesh_step_def get_or_def get_def ctx_bounded_def)
  then show ?thesis by (simp add: search_step_def Let_def)
qed

lemma next_sign_mag: "mag_le 0 (fst (next_sign r))"
  by (simp add: next_sign_def Let_def split: prod.split)

lemma jump_ok:
  assumes x: "\<forall>v \<in> set x. mag_le m v" and i: "i < length x" and step: "mag_le k step" and k: "k + 3 \<le> m" "m \<le> 1000"
    and md: "0 < modulus" "modulus \<le> 4"
  shows "length (fst (jump i modulus step x r)) = length x \<and> (\<forall>v \<in> set (fst (jump i modulus step x r)). mag_le (Suc m) v)"
proof -
  obtain w r1 where w: "next_u64 r = (w, r1)" by (metis surj_pair)
  obtain sg r2 where sg: "next_sign r1 = (sg, r2)" by (metis surj_pair)
  have "uint (w mod modulus) < uint modulus" using md(1) by (simp add: word_mod_less_divisor flip: word_less_def)
  moreover have "uint modulus \<le> 4" using md(2) by (simp add: word_le_def)
  ultimately have "\<bar>uint (w mod modulus)\<bar> \<le> 2 ^ 2" by simp
  then have "mag_le 2 (f_of_int (uint (w mod modulus)))" by (rule mag_le_of_int)
  then have "mag_le 3 (1 + f_of_int (uint (w mod modulus)))" using mag_le_plus[of 2 1] by simp
  then have "mag_le (0 + 3) (sg * (1 + f_of_int (uint (w mod modulus))))"
    using next_sign_mag[of r1] sg by (intro mag_le_times) simp_all
  then have "mag_le (3 + k) (sg * (1 + f_of_int (uint (w mod modulus))) * step)"
    using step k by (intro mag_le_times) simp_all
  then have "mag_le m (sg * (1 + f_of_int (uint (w mod modulus))) * step)" using k by (elim mag_le_mono) simp
  moreover have "mag_le m (x ! i)" using x i by simp
  ultimately have "mag_le (Suc m) (x ! i + sg * (1 + f_of_int (uint (w mod modulus))) * step)"
    using k by (intro mag_le_plus) simp_all
  moreover have "\<forall>v \<in> set x. mag_le (Suc m) v" using x mag_le_mono[of m _ "Suc m"] by auto
  ultimately show ?thesis
    by (auto simp: jump_def w sg Let_def dest: set_update_subset_insert[THEN subsetD])
qed

lemma ds_local_ok:
  assumes inc: "\<forall>v \<in> set inc. mag_le 864 v" and step: "mag_le 863 step" and dim: "0 < dim" "dim < 2 ^ 63"
  shows "\<exists>x r. ds_local dim step inc rng = Inr (x, r) \<and> length x = dim \<and> (\<forall>v \<in> set x. mag_le 868 v)"
proof -
  define x where "x = (if length inc \<noteq> dim then resize dim 0 inc else inc)"
  have x: "length x = dim" "\<forall>v \<in> set x. mag_le 866 v"
  proof -
    show "length x = dim" by (simp add: x_def)
    have "mag_le 866 v" if "v \<in> set inc" for v using inc that mag_le_mono by fastforce
    then have "mag_le 866 (inc ! i)" if "i < length inc" for i using that by simp
    then show "\<forall>v \<in> set x. mag_le 866 v"
      by (auto simp: x_def in_set_conv_nth[of _ "resize dim 0 inc"] in_set_conv_nth[of _ inc] nth_resize)
  qed
  obtain w r1 where w: "next_u64 rng = (w, r1)" by (metis surj_pair)
  define k where "k = unat w mod dim"
  have k: "k < dim" using dim by (simp add: k_def)
  obtain x1 r2 where j1: "jump k 4 step x r1 = (x1, r2)" by (metis surj_pair)
  have x1: "length x1 = dim" "\<forall>v \<in> set x1. mag_le 867 v"
    using jump_ok[OF x(2) _ step, of k 4 r1] k x(1) by (simp_all add: j1)
  show ?thesis
  proof (cases "dim \<ge> 2")
    case False
    have "\<forall>v \<in> set x1. mag_le 868 v" using x1 mag_le_mono by fastforce
    then show ?thesis using False x1 by (simp add: ds_local_def w j1 x_def[symmetric] k_def[symmetric] Let_def)
  next
    case True
    obtain u r3 where u: "next_f64 r2 = (u, r3)" by (metis surj_pair)
    have x1': "\<forall>v \<in> set x1. mag_le 868 v" using x1 mag_le_mono by fastforce
    have "unat (of_nat (dim - 1) :: u64) = dim - 1" using dim unfolding unat_of_nat by (simp add: take_bit_nat_eq_self)
    moreover have e: "(of_int (int dim - 1) :: u64) = of_nat (dim - 1)" using True by (simp add: of_nat_diff)
    ultimately have "unat (of_int (int dim - 1) :: u64) \<noteq> 0" using True by simp
    then have span: "(of_int (int dim - 1) :: u64) \<noteq> 0" by (metis unat_0)
    obtain off r4 where rng: "next_i64_range 1 (int dim) r3 = Inr (off, r4)"
      using span by (cases "next_u64 r3") (auto simp: next_i64_range_def Let_def)
    define k2 where "k2 = unat (of_nat k + of_int off :: u64) mod dim"
    have k2: "k2 < dim" using dim by (simp add: k2_def)
    obtain x2 r5 where j2: "jump k2 3 step x1 r4 = (x2, r5)" by (metis surj_pair)
    have x2: "length x2 = dim" "\<forall>v \<in> set x2. mag_le 868 v"
      using jump_ok[OF x1(2) _ step, of k2 3 r4] k2 x1(1) by (simp_all add: j2)
    show ?thesis using True x1 x1' x2
      by (simp add: ds_local_def w j1 u rng x_def[symmetric] k_def[symmetric] k2_def[symmetric] j2 Let_def)
  qed
qed

lemma next_f64_mag: "mag_le 53 (fst (next_f64 r))"
proof -
  obtain w s where w: "next_u64 r = (w, s)" by (metis surj_pair)
  have "mag_le 53 (f_of_int (uint (drop_bit 11 w)))" using drop_11_less[of w] by (intro mag_le_of_int) simp
  moreover have "mag_le 0 (1 / f_of_int (2 ^ 53))" by (simp add: mag_le_def f64_eval cong: if_weak_cong)
  ultimately have "mag_le (53 + 0) (f_of_int (uint (drop_bit 11 w)) * (1 / f_of_int (2 ^ 53)))"
    by (rule mag_le_times) simp_all
  then show ?thesis by (simp add: next_f64_def w Let_def)
qed

lemma ds_explore_ok:
  assumes "mag_le 931 radius"
  shows "length (fst (ds_explore n radius r)) = n \<and> (\<forall>v \<in> set (fst (ds_explore n radius r)). mag_le 986 v)"
proof (induction n arbitrary: r)
  case (Suc n)
  obtain u r1 where u: "next_f64 r = (u, r1)" by (metis surj_pair)
  have "mag_le (1 + 53) (f_lit 2 1 * u)"
    using next_f64_mag[of r] u by (intro mag_le_times mag_le_lit) simp_all
  then have "mag_le 55 (f_lit 2 1 * u - 1)" using mag_le_diff[of 54 _ 1] by simp
  then have "mag_le (55 + 931) ((f_lit 2 1 * u - 1) * radius)" using assms by (intro mag_le_times) simp_all
  then show ?case using Suc[of r1] by (auto simp: u Let_def split: prod.splits)
qed simp

lemma ds_point_ok:
  assumes ln: "ln_1p_bounded X" and c: "ctx_bounded c" and i: "iter < 2 ^ 64"
  shows "\<exists>x r. ds_point X iter c rng = Inr (x, r) \<and> length x = max (sx_dim c) 1 \<and> (\<forall>v \<in> set x. mag_le 986 v)"
proof -
  let ?dim = "max (sx_dim c) 1"
  note step = search_step_mag[OF c]
  have "mag_le (863 + 3) (search_step c * f_lit 8 1)" using step by (intro mag_le_times mag_le_lit) simp_all
  moreover have "mag_le 64 (x_ln_1p X (f_of_int (int iter)))" using ln i by (rule ln_1p_counter)
  then have "mag_le 65 (1 + x_ln_1p X (f_of_int (int iter)))" using mag_le_plus[of 64 1] by simp
  ultimately have rad: "mag_le 931 (search_step c * f_lit 8 1 * (1 + x_ln_1p X (f_of_int (int iter))))"
    using mag_le_times[of 866 _ 65] by simp
  have ex: "\<exists>x r'. Inr (ds_explore ?dim (search_step c * f_lit 8 1 * (1 + x_ln_1p X (f_of_int (int iter)))) r) = Inr (x, r')
      \<and> length x = ?dim \<and> (\<forall>v \<in> set x. mag_le 986 v)" for r
    using ds_explore_ok[OF rad, of ?dim r] by (cases "ds_explore ?dim (search_step c * f_lit 8 1 * (1 + x_ln_1p X (f_of_int (int iter)))) r") auto
  show ?thesis
  proof (cases "sx_incumbent_x c")
    case None
    then show ?thesis using ex by (simp add: ds_point_def Let_def)
  next
    case (Some inc)
    have "\<exists>x r'. ds_local ?dim (search_step c) inc r = Inr (x, r') \<and> length x = ?dim \<and> (\<forall>v \<in> set x. mag_le 868 v)" for r
      using c Some step by (intro ds_local_ok) (simp_all add: ctx_bounded_def)
    then have "\<exists>x r'. ds_local ?dim (search_step c) inc r = Inr (x, r') \<and> length x = ?dim \<and> (\<forall>v \<in> set x. mag_le 986 v)" for r
      using mag_le_mono by fastforce
    with ex Some show ?thesis by (auto simp: ds_point_def Let_def split: prod.split)
  qed
qed

lemma add_num_nonneg: "0 \<le> (s :: f64) \<Longrightarrow> is_finite d \<Longrightarrow> 0 \<le> s + d * d"
  by (intro add_nonneg_f64 square_nonneg_f64 mult_not_nan) simp_all

lemma fold_squares_nonneg: "0 \<le> s \<Longrightarrow> (\<And>i. i \<in> set is \<Longrightarrow> is_finite (g i)) \<Longrightarrow>
  0 \<le> fold (\<lambda>i s. s + g i * g i) is (s :: f64)"
  by (induction "is" arbitrary: s) (simp_all add: add_num_nonneg)

lemma f_sum_squares_nonneg: "(\<And>v. v \<in> set xs \<Longrightarrow> is_finite v) \<Longrightarrow> 0 \<le> f_sum (map (\<lambda>v. v * v) xs)"
proof -
  assume fin: "\<And>v. v \<in> set xs \<Longrightarrow> is_finite v"
  have "0 \<le> (- 0 :: f64)" by (simp add: nonneg_iff is_zero_def uminus_f64_def) (simp add: is_nan_def)
  then show ?thesis unfolding f_sum_def fold_map comp_def using fin by (rule fold_squares_nonneg[of _ _ "\<lambda>v. v"]) simp
qed

lemma get_or_mag: "\<forall>v \<in> set xs. mag_le k v \<Longrightarrow> mag_le k (get_or 0 xs i)"
  by (simp add: get_or_def get_def)

lemma search_score_num:
  assumes "ctx_bounded c" "\<forall>v \<in> set (rc_x rc). mag_le k v" "864 \<le> k" "k < 1023"
  shows "\<not> is_nan (search_score c rc)"
proof (cases "sx_incumbent_x c")
  case None
  have "0 \<le> search_score c rc"
    using None assms(2,4) mag_le_finite by (fastforce simp: search_score_def Let_def intro: f_sum_squares_nonneg)
  then show ?thesis by (simp add: less_eq_f64_def)
next
  case (Some ix)
  have "mag_le k (get_or 0 ix i)" for i
    using assms(1,3) Some get_or_mag[of ix 864 i] by (auto simp: ctx_bounded_def intro: mag_le_mono)
  then have "is_finite (get_or 0 (rc_x rc) i - get_or 0 ix i)" for i
    using mag_le_diff[OF get_or_mag[OF assms(2)]] mag_le_finite[of "Suc k"] assms(4) by simp
  then have "0 \<le> search_score c rc"
    unfolding search_score_def Let_def Some option.case by (intro fold_squares_nonneg f_le_refl) simp_all
  then show ?thesis by (simp add: less_eq_f64_def)
qed

lemma ds_propose_loop_ok:
  assumes ln: "ln_1p_bounded X" and c: "ctx_bounded (ds_ctx d)" and i: "iter < 2 ^ 64"
  shows "\<exists>raw d'. ds_propose_loop X iter n d = Inr (raw, d') \<and> length raw = n \<and> ds_ctx d' = ds_ctx d
    \<and> ds_next d' = ds_next d + of_nat n
    \<and> map rc_id raw = map (\<lambda>j. cand_id_of iter (ds_next d + of_nat j)) [0..<n]
    \<and> (\<forall>rc \<in> set raw. length (rc_x rc) = max (sx_dim (ds_ctx d)) 1 \<and> (\<forall>v \<in> set (rc_x rc). mag_le 986 v))"
  using c
proof (induction n arbitrary: d)
  case (Suc n)
  obtain x r where x: "ds_point X iter (ds_ctx d) (ds_rng d) = Inr (x, r)" "length x = max (sx_dim (ds_ctx d)) 1"
    "\<forall>v \<in> set x. mag_le 986 v" using ds_point_ok[OF ln Suc.prems i] by blast
  let ?d = "d\<lparr>ds_rng := r, ds_next := ds_next d + 1\<rparr>"
  obtain raw d' where l: "ds_propose_loop X iter n ?d = Inr (raw, d')" "length raw = n" "ds_ctx d' = ds_ctx d"
    "ds_next d' = ds_next d + 1 + of_nat n" "map rc_id raw = map (\<lambda>j. cand_id_of iter (ds_next d + 1 + of_nat j)) [0..<n]"
    "\<forall>rc \<in> set raw. length (rc_x rc) = max (sx_dim (ds_ctx d)) 1 \<and> (\<forall>v \<in> set (rc_x rc). mag_le 986 v)"
    using Suc.IH[of ?d] Suc.prems by auto
  have "map (\<lambda>j. cand_id_of iter (ds_next d + of_nat j)) [0..<Suc n] =
    cand_id_of iter (ds_next d) # map (\<lambda>j. cand_id_of iter (ds_next d + 1 + of_nat j)) [0..<n]"
    by (simp add: upt_conv_Cons map_Suc_upt[symmetric] add.assoc del: upt_Suc)
  then show ?case using x l by (simp add: add.assoc del: upt_Suc)
qed simp

interpretation default_s: search_policy X "default_search_ops X" "\<lambda>_ _. True" for X
proof
  show "\<exists>raw s'. so_propose (default_search_ops X) iter n (so_set_context (default_search_ops X) c s) = Inr (raw, s') \<and> length raw = n
      \<and> True \<and> (\<forall>rc \<in> set raw. cand_usable (default_search_ops X) s' D rc)"
    if "ln_1p_bounded X" "ctx_bounded c" "ctx_dim D c" "iter < 2 ^ 64" for c iter n s and D :: nat
  proof -
    note h = that
    obtain raw d' where d: "ds_propose_loop X iter n (ds_set_context c s) = Inr (raw, d')" "length raw = n" "ds_ctx d' = c"
      "\<forall>rc \<in> set raw. length (rc_x rc) = D \<and> (\<forall>v \<in> set (rc_x rc). mag_le 986 v)"
      using ds_propose_loop_ok[OF h(1) _ h(4), of "ds_set_context c s" n] h(2,3) by (auto simp: ds_set_context_def ctx_dim_def)
    then show ?thesis using search_score_num[OF h(2), of _ 986] mag_le_finite
      by (fastforce simp: default_search_ops_def ds_propose_def cand_usable_def ds_score_def)
  qed
qed simp_all

end
