(* ===== verification/Engine.thy ===== *)
theory Engine
  imports Materialize Dids Search
begin

text \<open>
  The engine loop of \<open>core/engine.rs\<close>: the initialisation of a run, proposal and ingestion of candidates, injection of poll
  points, dispatch of one-step work items, the join that materialises their outcomes in candidate order, the policy
  update at the batch boundary, the tuning of the executor's chunk, and the iteration with its mesh refinement. The
  search policy and the executor are parameters, the other policies are those of the default bundle. The inner loop is
  a partial function, so that a run that does not end is the value \<open>None\<close>; a panic is \<open>Some (Inl p)\<close>.
\<close>

subsection \<open>State\<close>

text \<open>\<open>Engine\<close> with the default bundle; ladder and margin policies have no state.\<close>

record 's engine =
  eg_scheduler :: default_scheduler
  eg_search :: 's
  eg_dids :: dids
  eg_calibrator :: delta_k_calibrator
  eg_audit :: default_audit
  eg_caches :: caches
  eg_executor :: adaptive

definition engine_default :: "'s \<Rightarrow> 's engine" where
  "engine_default search = \<lparr>eg_scheduler = \<lparr>sch_workers = 1\<rparr>, eg_search = search, eg_dids = dids_default,
     eg_calibrator = dk_default, eg_audit = default_audit_default, eg_caches = caches_empty, eg_executor = Inline\<rparr>"

record engine_output =
  eo_x_best :: "xmesh option"
  eo_f_best :: "f64 list option"
  eo_stats :: engine_stats

text \<open>What the run computes once, and the variables of \<open>run_with_evaluator\<close>.\<close>

record run_consts =
  rn_cfg :: engine_cfg
  rn_env :: env
  rn_evaluator :: evaluator
  rn_dim :: nat
  rn_ladder :: "phi list"
  rn_env_rev :: env_rev_t
  rn_accept_cfg :: accept_cfg
  rn_boundary :: nat

record 's run_state =
  rs_engine :: "'s engine"
  rs_geo :: aniso_geo
  rs_chunk_base :: nat
  rs_assignment :: "nat list"
  rs_stats :: engine_stats
  rs_policy_rev :: policy_rev_t
  rs_accept :: acceptance_state
  rs_x_best :: "xmesh option"
  rs_f_best :: "f64 list option"
  rs_incumbent_id :: nat
  rs_cands :: "cand list"
  rs_index :: "cand_id \<rightharpoonup> nat"
  rs_iter_improved :: bool
  rs_poll_generated :: bool
  rs_steps_left :: nat

text \<open>An executor as the engine sees it: its configuration, the context and the items of a batch, the shared caches.\<close>

type_synonym runner = "adaptive \<Rightarrow> exec_ctx \<Rightarrow> work_item list \<Rightarrow> caches \<Rightarrow> (work_outcome list \<times> caches) res"

definition inline_runner :: "extern \<Rightarrow> runner" where
  "inline_runner X ad = run_batch_inline X"

subsection \<open>Proposals\<close>

definition new_cand :: "'s run_state \<Rightarrow> nat \<Rightarrow> cand_id \<Rightarrow> xmesh \<Rightarrow> f64 \<Rightarrow> cand" where
  "new_cand rs iter i x score = \<lparr>cd_id = i, cd_x = x, cd_base_score = score, cd_created_epoch = iter,
     cd_next_phi_idx = 0, cd_last_estimates_phi_idx = None, cd_last_estimates = None, cd_audit_required = False,
     cd_audit_origin = None, cd_audit_cut_estimates = None, cd_cheap_checked = False, cd_cheap_ok = False,
     cd_submitted_policy_rev = rs_policy_rev rs, cd_submitted_incumbent_id = rs_incumbent_id rs, cd_status = Ready\<rparr>"

definition ingest :: "nat \<Rightarrow> cand_id \<times> xmesh \<times> f64 \<Rightarrow> 's run_state \<Rightarrow> 's run_state" where
  "ingest iter p rs = (case p of (i, x, score) \<Rightarrow> if rs_index rs i \<noteq> None then rs
     else rs\<lparr>rs_index := (rs_index rs)(i \<mapsto> length (rs_cands rs)), rs_cands := rs_cands rs @ [new_cand rs iter i x score]\<rparr>)"

text \<open>The incumbent in continuous units; \<open>geo.base_steps[0]\<close> is evaluated for every coordinate.\<close>

definition incumbent_real :: "aniso_geo \<Rightarrow> xmesh \<Rightarrow> f64 list res" where
  "incumbent_real geo xb = (if xb \<noteq> [] \<and> ag_base_steps geo = [] then Inl Index_out_of_bounds
     else Inr (map (\<lambda>(i, u). f_of_int u * get_or (ag_base_steps geo ! 0) (ag_base_steps geo) i) (enumerate 0 xb)))"

definition score_hint :: "f64 list option \<Rightarrow> f64 option res" where
  "score_hint f_best = (case f_best of None \<Rightarrow> Inr None | Some [] \<Rightarrow> Inl Index_out_of_bounds | Some (v # _) \<Rightarrow> Inr (Some v))"

definition score_raw :: "extern \<Rightarrow> 's search_ops \<Rightarrow> aniso_geo \<Rightarrow> f64 list option \<Rightarrow> 's \<Rightarrow> raw_cand \<Rightarrow>
    (cand_id \<times> xmesh \<times> f64) res" where
  "score_raw X so geo f_best s rc = res_bind (project_to_aniso_mesh X rc geo) (\<lambda>x.
     res_bind (score_hint f_best) (\<lambda>h. Inr (rc_id rc, x, so_score so rc h s)))"

text \<open>Sorting by score, then id; comparing a NaN panics, and every element of two or more is compared.\<close>

definition sort_scored :: "('a \<Rightarrow> f64) \<Rightarrow> ('a \<Rightarrow> cand_id) \<Rightarrow> 'a list \<Rightarrow> 'a list res" where
  "sort_scored score key xs = (if length xs \<ge> 2 \<and> (\<exists>x \<in> set xs. is_nan (score x)) then Inl Unwrap_failed
     else Inr (sort_by (\<lambda>a b. score a < score b \<or> \<not> score b < score a \<and> key a \<le> key b) xs))"

definition search_context :: "run_consts \<Rightarrow> 's run_state \<Rightarrow> search_ctx res" where
  "search_context rn rs = (case rs_x_best rs of
     None \<Rightarrow> Inr \<lparr>sx_dim = rn_dim rn, sx_incumbent_x = None, sx_mesh_steps = ag_current_steps (rs_geo rs)\<rparr>
   | Some xb \<Rightarrow> res_bind (incumbent_real (rs_geo rs) xb) (\<lambda>ix.
       Inr \<lparr>sx_dim = length xb, sx_incumbent_x = Some ix, sx_mesh_steps = ag_current_steps (rs_geo rs)\<rparr>))"

definition set_search :: "'s \<Rightarrow> 's run_state \<Rightarrow> 's run_state" where
  "set_search s rs = rs\<lparr>rs_engine := (rs_engine rs)\<lparr>eg_search := s\<rparr>\<rparr>"

definition propose_step :: "extern \<Rightarrow> 's search_ops \<Rightarrow> run_consts \<Rightarrow> nat \<Rightarrow> 's run_state \<Rightarrow> 's run_state res" where
  "propose_step X so rn iter rs = res_bind (search_context rn rs) (\<lambda>ctx.
     res_bind (so_propose so iter (ec_candidates_per_iter (rn_cfg rn)) (so_set_context so ctx (eg_search (rs_engine rs))))
     (\<lambda>(raw, s). res_bind (res_map (score_raw X so (rs_geo rs) (rs_f_best rs) s) raw) (\<lambda>scored.
       res_bind (sort_scored (\<lambda>p. snd (snd p)) fst scored) (\<lambda>sorted. Inr (fold (ingest iter) sorted (set_search s rs))))))"

subsection \<open>Poll points and dispatch\<close>

definition poll_id :: "nat \<Rightarrow> nat \<Rightarrow> cand_id" where
  "poll_id iter d = (0x8000000000000000 OR push_bit 32 (of_nat iter)) OR of_nat d"

definition poll_inject :: "nat \<Rightarrow> xmesh \<Rightarrow> 's run_state \<Rightarrow> 's run_state" where
  "poll_inject iter center rs =
     (let pts = generate_points_aniso center (ag_poll_step_units (rs_geo rs)) in
      (fold (\<lambda>(d, x). ingest iter (poll_id iter d, x, f_inf)) (enumerate 0 pts) rs)\<lparr>rs_poll_generated := True\<rparr>)"

definition set_cand :: "nat \<Rightarrow> cand \<Rightarrow> 's run_state \<Rightarrow> 's run_state" where
  "set_cand pos c rs = rs\<lparr>rs_cands := (rs_cands rs)[pos := c]\<rparr>"

text \<open>The positions in the index are positions of the store (\<open>store_ok\<close> below).\<close>

fun dispatch :: "run_consts \<Rightarrow> cand_id list \<Rightarrow> 's run_state \<Rightarrow> work_item list \<times> 's run_state" where
  "dispatch rn [] rs = ([], rs)"
| "dispatch rn (i # ids) rs = (case rs_index rs i of None \<Rightarrow> dispatch rn ids rs
     | Some pos \<Rightarrow> (let c = rs_cands rs ! pos; k = cd_next_phi_idx c in
         if cd_status c \<noteq> Ready \<or> k \<ge> length (rn_ladder rn) then dispatch rn ids rs
         else let c' = c\<lparr>cd_status := InFlight k, cd_submitted_policy_rev := rs_policy_rev rs,
               cd_submitted_incumbent_id := rs_incumbent_id rs\<rparr>;
             wi = \<lparr>wi_cand_id = i, wi_x = cd_x c, wi_phi_idx = k, wi_phi = rn_ladder rn ! k, wi_env_rev = rn_env_rev rn,
               wi_policy_rev = rs_policy_rev rs, wi_incumbent_id = rs_incumbent_id rs\<rparr>;
             (wis, rs') = dispatch rn ids (set_cand pos c' rs) in (wi # wis, rs')))"

definition run_exec_ctx :: "run_consts \<Rightarrow> 's run_state \<Rightarrow> exec_ctx" where
  "run_exec_ctx rn rs = \<lparr>cx_evaluator = rn_evaluator rn, cx_env = rn_env rn, cx_env_rev = rn_env_rev rn,
     cx_ladder_len = length (rn_ladder rn), cx_base_steps = ag_base_steps (rs_geo rs)\<rparr>"

subsection \<open>Completion\<close>

definition run_mat_ctx :: "run_consts \<Rightarrow> thresholds \<Rightarrow> 's run_state \<Rightarrow> mat_ctx" where
  "run_mat_ctx rn th rs = \<lparr>mx_cfg = rn_cfg rn, mx_evaluator = rn_evaluator rn, mx_env = rn_env rn,
     mx_base_steps = ag_base_steps (rs_geo rs), mx_ladder = rn_ladder rn, mx_assignment = rs_assignment rs, mx_th = th,
     mx_policy_rev = rs_policy_rev rs, mx_incumbent_f = rs_f_best rs, mx_audit = eg_audit (rs_engine rs)\<rparr>"

text \<open>A TRUTH result goes to the acceptance policy; an accepted one becomes the incumbent.\<close>

definition accept_job :: "run_consts \<Rightarrow> cand \<Rightarrow> job_result \<Rightarrow> 's run_state \<Rightarrow> 's run_state" where
  "accept_job rn c r rs = (case r of
     Truth f _ _ v _ \<Rightarrow> (case decide_truth (rn_accept_cfg rn) (rs_accept rs) (cd_x c) (get_or f_inf f 0) v of
         (Accept, acc) \<Rightarrow> rs\<lparr>rs_accept := acc, rs_iter_improved := True, rs_incumbent_id := rs_incumbent_id rs + 1,
           rs_f_best := Some f, rs_x_best := Some (cd_x c)\<rparr>
       | (Reject, acc) \<Rightarrow> rs\<lparr>rs_accept := acc\<rparr>)
   | _ \<Rightarrow> rs)"

definition after_job :: "cand_id \<Rightarrow> work_item \<Rightarrow> cand \<Rightarrow> job_result \<Rightarrow> 's engine \<Rightarrow> 's engine" where
  "after_job i wi c r eg = eg\<lparr>eg_scheduler := sch_on_complete i r (eg_scheduler eg),
     eg_dids := dids_record_result (cd_x c) (wi_phi wi) (wi_phi_idx wi) r (eg_dids eg)\<rparr>"

definition job_event :: "cand_id \<Rightarrow> materialized_job \<Rightarrow> calib_event" where
  "job_event i job = \<lparr>ce_id = i, ce_result = mj_result job, ce_audited = mj_audited job,
     ce_audit_of = mj_audit_of job, ce_paired_sample = mj_paired_sample job\<rparr>"

definition complete_one :: "extern \<Rightarrow> run_consts \<Rightarrow> thresholds \<Rightarrow> work_outcome \<Rightarrow> 's run_state \<Rightarrow>
    (calib_event \<times> 's run_state) res" where
  "complete_one X rn th out rs = (let i = wi_cand_id (wo_item out); eg = rs_engine rs in
     case rs_index rs i of None \<Rightarrow> Inl Expect_failed
     | Some pos \<Rightarrow> res_bind (materialize X (run_mat_ctx rn th rs) out (rs_cands rs ! pos) (rs_stats rs) (ch_decision (eg_caches eg)))
         (\<lambda>(job, c, st, dc). let eg1 = after_job i (wo_item out) c (mj_result job) (eg\<lparr>eg_caches := (eg_caches eg)\<lparr>ch_decision := dc\<rparr>\<rparr>);
            rs1 = set_cand pos c (rs\<lparr>rs_engine := eg1, rs_stats := st\<rparr>) in
          Inr (job_event i job, accept_job rn c (mj_result job) rs1)))"

fun complete_all :: "extern \<Rightarrow> run_consts \<Rightarrow> thresholds \<Rightarrow> work_outcome list \<Rightarrow> 's run_state \<Rightarrow>
    (calib_event list \<times> 's run_state) res" where
  "complete_all X rn th [] rs = Inr ([], rs)"
| "complete_all X rn th (out # outs) rs = res_bind (complete_one X rn th out rs) (\<lambda>(e, rs1).
     res_bind (complete_all X rn th outs rs1) (\<lambda>(es, rs2). Inr (e # es, rs2)))"

subsection \<open>The batch boundary\<close>

definition batch_boundary :: "extern \<Rightarrow> run_consts \<Rightarrow> calib_event list \<Rightarrow> 's run_state \<Rightarrow> 's run_state res" where
  "batch_boundary X rn events rs = (let eg = rs_engine rs in
     res_bind (dk_update X (sort_by (\<lambda>a b. ce_id a \<le> ce_id b) events) (eg_calibrator eg)) (\<lambda>(delta, dk).
       let rev1 = (if delta \<noteq> 0 then rs_policy_rev rs + delta else rs_policy_rev rs);
         ((new_a, a_delta), dd) = update_assignment X (length (rn_ladder rn)) (dk_state dk) (eg_dids eg) in
       Inr (rs\<lparr>rs_engine := eg\<lparr>eg_calibrator := dk, eg_dids := dd\<rparr>, rs_assignment := new_a,
         rs_policy_rev := if a_delta \<noteq> 0 then rev1 + a_delta else rev1\<rparr>)))"

definition USIZE_MAX :: nat where "USIZE_MAX = 2 ^ 64 - 1"

definition clamp_chunk :: "engine_cfg \<Rightarrow> nat \<Rightarrow> nat" where
  "clamp_chunk cfg t = min (max t (max (ec_executor_chunk_min cfg) 1)) (max (ec_executor_chunk_max cfg) 1)"

definition chunk_target :: "engine_cfg \<Rightarrow> nat \<Rightarrow> f64 \<Rightarrow> nat" where
  "chunk_target cfg chunk cv = (if cv < f_lit 25 100 then min (min (chunk * 2) USIZE_MAX) (max (ec_executor_chunk_max cfg) 1)
     else if cv > f_lit 75 100 then max ((chunk + 1) div 2) (max (ec_executor_chunk_min cfg) 1) else chunk)"

definition tune_chunk :: "engine_cfg \<Rightarrow> work_outcome list \<Rightarrow> nat \<Rightarrow> nat" where
  "tune_chunk cfg outs chunk = (let costs = map wo_runtime_cost (filter (\<lambda>out. wo_did_compute out \<and> wo_runtime_cost out > 0) outs);
     n = f_of_int (int (length costs)); mean = f_sum costs / n in
   if \<not> ec_executor_chunk_auto_tune cfg \<or> length costs < 4 \<or> \<not> mean > 0 then chunk
   else let var = f_sum (map (\<lambda>c. let d = c - mean in d * d) costs) / n;
     cv = f_sqrt var / f_max mean (f_lit 1 (10 ^ 12)) in clamp_chunk cfg (chunk_target cfg chunk cv))"

subsection \<open>The inner loop\<close>

datatype 'r flow = Next 'r | Stop 'r

definition run_thresholds :: "'s run_state \<Rightarrow> thresholds" where
  "run_thresholds rs = thresholds_of (dk_state (eg_calibrator (rs_engine rs)))"

definition set_executor :: "run_consts \<Rightarrow> 's run_state \<Rightarrow> adaptive" where
  "set_executor rn rs = adaptive_configure_params
     \<lparr>xp_chunk_base = rs_chunk_base rs, xp_spin_limit = ec_executor_spin_limit (rn_cfg rn)\<rparr> (eg_executor (rs_engine rs))"

text \<open>One batch: run the items, count the outcomes in candidate order, materialise them, update the policies.\<close>

definition run_batch_step :: "extern \<Rightarrow> runner \<Rightarrow> run_consts \<Rightarrow> thresholds \<Rightarrow> work_item list \<Rightarrow> 's run_state \<Rightarrow> 's run_state res" where
  "run_batch_step X run rn th work rs = (let ad = set_executor rn rs; eg = rs_engine rs in
     res_bind (run ad (run_exec_ctx rn rs) work (eg_caches eg)) (\<lambda>(outs, caches).
       let sorted = sort_by (\<lambda>a b. wi_cand_id (wo_item a) \<le> wi_cand_id (wo_item b)) outs;
         st = fold (\<lambda>out. update_stats_from_outcome out (length (rn_ladder rn))) sorted (rs_stats rs);
         rs1 = rs\<lparr>rs_engine := eg\<lparr>eg_caches := caches, eg_executor := ad\<rparr>, rs_stats := st\<rparr> in
       res_bind (complete_all X rn th sorted rs1) (\<lambda>(events, rs2).
         res_bind (batch_boundary X rn events rs2) (\<lambda>rs3.
           Inr (rs3\<lparr>rs_chunk_base := tune_chunk (rn_cfg rn) sorted (rs_chunk_base rs3),
             rs_steps_left := rs_steps_left rs3 - length sorted\<rparr>)))))"

definition inner_body :: "extern \<Rightarrow> runner \<Rightarrow> run_consts \<Rightarrow> nat \<Rightarrow> 's run_state \<Rightarrow> 's run_state flow res" where
  "inner_body X run rn iter rs = (let th = run_thresholds rs; view = make_ready_view th iter (rs_cands rs) in
     if view = [] then
       (if \<not> rs_poll_generated rs \<and> \<not> rs_iter_improved rs then
          (case rs_x_best rs of Some center \<Rightarrow> Inr (Next (poll_inject iter center rs)) | None \<Rightarrow> Inr (Stop rs))
        else Inr (Stop rs))
     else res_bind (sort_scored rv_score rv_id view) (\<lambda>sorted.
       let picked = sch_select_next sorted (eg_scheduler (rs_engine rs)) in
       if picked = [] then Inr (Stop rs)
       else let n = min (min (length picked) (rn_boundary rn)) (rs_steps_left rs);
           (work, rs1) = dispatch rn (take n picked) rs in
         if work = [] then Inr (Stop rs1)
         else res_bind (run_batch_step X run rn th work rs1) (\<lambda>rs2. Inr (Next rs2))))"

partial_function (option) inner_loop ::
    "extern \<Rightarrow> runner \<Rightarrow> run_consts \<Rightarrow> nat \<Rightarrow> 's run_state \<Rightarrow> 's run_state res option" where
  "inner_loop X run rn iter rs = (if rs_steps_left rs = 0 then Some (Inr rs)
     else (case inner_body X run rn iter rs of Inl p \<Rightarrow> Some (Inl p)
       | Inr fl \<Rightarrow> (case fl of Stop rs' \<Rightarrow> Some (Inr rs') | Next rs' \<Rightarrow> inner_loop X run rn iter rs')))"

subsection \<open>Iterations and the run\<close>

definition start_iteration :: "run_consts \<Rightarrow> 's run_state \<Rightarrow> 's run_state" where
  "start_iteration rn rs = rs\<lparr>rs_iter_improved := False, rs_poll_generated := False\<rparr>"

definition start_steps :: "run_consts \<Rightarrow> 's run_state \<Rightarrow> 's run_state" where
  "start_steps rn rs = rs\<lparr>rs_steps_left :=
     (case ec_max_steps_per_iter (rn_cfg rn) of Some k \<Rightarrow> k | None \<Rightarrow> USIZE_MAX)\<rparr>"

definition end_iteration :: "run_consts \<Rightarrow> 's run_state \<Rightarrow> 's run_state" where
  "end_iteration rn rs = rs\<lparr>
     rs_accept := acc_on_iteration_end (rn_accept_cfg rn) (rs_accept rs) (rs_poll_generated rs) (rs_iter_improved rs),
     rs_geo := if \<not> rs_iter_improved rs \<and> rs_poll_generated rs then ag_refine (rs_geo rs) else rs_geo rs\<rparr>"

definition iteration :: "extern \<Rightarrow> 's search_ops \<Rightarrow> runner \<Rightarrow> run_consts \<Rightarrow> nat \<Rightarrow> 's run_state \<Rightarrow> 's run_state res option" where
  "iteration X so run rn iter rs = (case propose_step X so rn iter (start_iteration rn rs) of Inl p \<Rightarrow> Some (Inl p)
     | Inr rs1 \<Rightarrow> (case inner_loop X run rn iter (start_steps rn rs1) of None \<Rightarrow> None
       | Some (Inl p) \<Rightarrow> Some (Inl p) | Some (Inr rs2) \<Rightarrow> Some (Inr (end_iteration rn rs2))))"

fun iterations :: "extern \<Rightarrow> 's search_ops \<Rightarrow> runner \<Rightarrow> run_consts \<Rightarrow> nat list \<Rightarrow> 's run_state \<Rightarrow> 's run_state res option" where
  "iterations X so run rn [] rs = Some (Inr rs)"
| "iterations X so run rn (i # is) rs = (case iteration X so run rn i rs of None \<Rightarrow> None
     | Some (Inl p) \<Rightarrow> Some (Inl p) | Some (Inr rs') \<Rightarrow> iterations X so run rn is rs')"

subsection \<open>Initialisation\<close>

definition calib_cfg_of :: "engine_cfg \<Rightarrow> calib_cfg" where
  "calib_cfg_of cfg = \<lparr>cc_target_false = ec_calibrator_target_false cfg, cc_min_audits = ec_calibrator_min_audits cfg,
     cc_eta_delta = ec_calibrator_eta_delta cfg, cc_delta_min = ec_calibrator_delta_min cfg,
     cc_delta_max = ec_calibrator_delta_max cfg, cc_k_window = ec_calibrator_k_window cfg,
     cc_k_min_pairs = ec_calibrator_k_min_pairs cfg, cc_k_quantile = ec_calibrator_k_quantile cfg,
     cc_k_eta = ec_calibrator_k_eta cfg\<rparr>"

definition accept_cfg_of :: "engine_cfg \<Rightarrow> accept_cfg" where
  "accept_cfg_of cfg = \<lparr>ac_h0 = ec_accept_h0 cfg, ac_h_min = ec_accept_h_min cfg, ac_h_shrink = ec_accept_h_shrink cfg,
     ac_eps_f = ec_accept_eps_f cfg, ac_eps_v = ec_accept_eps_v cfg, ac_filter_cap = ec_accept_filter_cap cfg\<rparr>"

definition resolved_dim :: "engine_cfg \<Rightarrow> evaluator \<Rightarrow> nat" where
  "resolved_dim cfg ev = (case ec_search_dim cfg of Some d \<Rightarrow> d
     | None \<Rightarrow> (case ev_search_dim ev of Some d \<Rightarrow> d | None \<Rightarrow> 1))"

definition init_geo :: "engine_cfg \<Rightarrow> nat \<Rightarrow> aniso_geo res" where
  "init_geo cfg dim = (if \<not> is_finite (ec_mesh_base_step cfg) \<or> \<not> ec_mesh_base_step cfg > 0 then Inl Assert_failed
     else let mm = max (ec_mesh_mul_init cfg) 1; minm = max (ec_mesh_mul_min cfg) 1; d = max (ec_mesh_refine_div cfg) 2;
         pm = max (ec_poll_step_mult cfg) 1 in
       case ec_mesh_base_steps cfg of
         Some steps \<Rightarrow> if steps = [] \<or> \<not> list_all (\<lambda>s. is_finite s \<and> s > 0) steps then Inl Assert_failed
           else Inr \<lparr>ag_base_steps = steps, ag_mesh_muls = replicate (length steps) mm, ag_mesh_mul_min = minm,
             ag_refine_div = d, ag_poll_step_mult = pm\<rparr>
       | None \<Rightarrow> Inr (to_anisotropic \<lparr>mg_base_step = ec_mesh_base_step cfg, mg_mesh_mul = mm, mg_mesh_mul_min = minm,
           mg_refine_div = d, mg_poll_step_mult = pm\<rparr> (max dim 1)))"

text \<open>
  The policies are configured for the run (\<open>threads\<close> is the build flag of the executor); the caches are kept.
\<close>

definition configure_engine :: "bool \<Rightarrow> 's search_ops \<Rightarrow> engine_cfg \<Rightarrow> env \<Rightarrow> nat \<Rightarrow> 's engine \<Rightarrow> 's engine res" where
  "configure_engine threads so cfg e workers eg = (let m = ec_num_constraints cfg in
     res_bind (dk_configure (calib_cfg_of cfg) (dk_init m (eg_calibrator eg))) (\<lambda>dk.
       Inr (eg\<lparr>eg_scheduler := sch_configure workers (eg_scheduler eg),
         eg_executor := adaptive_configure_params \<lparr>xp_chunk_base = clamp_chunk cfg (ec_executor_chunk_base cfg),
           xp_spin_limit = ec_executor_spin_limit cfg\<rparr> (adaptive_configure threads workers (eg_executor eg)),
         eg_search := so_reset so e (eg_search eg), eg_dids := dids_init m (eg_dids eg), eg_calibrator := dk\<rparr>)))"

definition init_consts :: "engine_cfg \<Rightarrow> env \<Rightarrow> evaluator \<Rightarrow> phi list \<Rightarrow> aniso_geo \<Rightarrow> default_scheduler \<Rightarrow> run_consts" where
  "init_consts cfg e ev ladder geo sch = \<lparr>rn_cfg = cfg, rn_env = e, rn_evaluator = ev, rn_dim = resolved_dim cfg ev,
     rn_ladder = ladder, rn_env_rev = env_rev_with_steps e (ag_base_steps geo), rn_accept_cfg = accept_cfg_of cfg,
     rn_boundary = max (case ec_batch_boundary cfg of Some b \<Rightarrow> b | None \<Rightarrow> sch_batch_size sch) 1\<rparr>"

definition init_state :: "extern \<Rightarrow> engine_cfg \<Rightarrow> phi list \<Rightarrow> aniso_geo \<Rightarrow> 's engine \<Rightarrow> 's run_state" where
  "init_state X cfg ladder geo eg =
     (let ((a, _), dd) = update_assignment X (length ladder) (dk_state (eg_calibrator eg)) (eg_dids eg) in
      \<lparr>rs_engine = eg\<lparr>eg_dids := dd\<rparr>, rs_geo = geo, rs_chunk_base = clamp_chunk cfg (ec_executor_chunk_base cfg),
        rs_assignment = a, rs_stats = engine_stats_default, rs_policy_rev = cs_policy_rev (dk_state (eg_calibrator eg)),
        rs_accept = acceptance_state_new (accept_cfg_of cfg), rs_x_best = None, rs_f_best = None, rs_incumbent_id = 0,
        rs_cands = [], rs_index = Map.empty, rs_iter_improved = False, rs_poll_generated = False, rs_steps_left = 0\<rparr>)"

definition engine_init :: "extern \<Rightarrow> bool \<Rightarrow> 's search_ops \<Rightarrow> engine_cfg \<Rightarrow> env \<Rightarrow> nat \<Rightarrow> evaluator \<Rightarrow> 's engine \<Rightarrow>
    (run_consts \<times> 's run_state) res" where
  "engine_init X threads so cfg e workers ev eg = res_bind (configure_engine threads so cfg e workers eg) (\<lambda>eg1.
     let dim = resolved_dim cfg ev; (tau, smc) = resolve_ladder_levels cfg dim in
     res_bind (build_ladder tau smc) (\<lambda>ladder. if ladder = [] then Inl Assert_failed else
       res_bind (init_geo cfg dim) (\<lambda>geo.
         Inr (init_consts cfg e ev ladder geo (eg_scheduler eg1), init_state X cfg ladder geo eg1))))"

definition engine_output_of :: "'s run_state \<Rightarrow> engine_output" where
  "engine_output_of rs = \<lparr>eo_x_best = rs_x_best rs, eo_f_best = rs_f_best rs, eo_stats = rs_stats rs\<rparr>"

definition run_with_evaluator :: "extern \<Rightarrow> bool \<Rightarrow> 's search_ops \<Rightarrow> runner \<Rightarrow> engine_cfg \<Rightarrow> env \<Rightarrow> nat \<Rightarrow> evaluator \<Rightarrow>
    's engine \<Rightarrow> (engine_output \<times> 's engine) res option" where
  "run_with_evaluator X threads so run cfg e workers ev eg = (case engine_init X threads so cfg e workers ev eg of
     Inl p \<Rightarrow> Some (Inl p)
   | Inr (rn, rs) \<Rightarrow> (case iterations X so run rn [0..<ec_max_iters cfg] rs of None \<Rightarrow> None
       | Some (Inl p) \<Rightarrow> Some (Inl p) | Some (Inr rs') \<Rightarrow> Some (Inr (engine_output_of rs', rs_engine rs'))))"

definition engine_run :: "extern \<Rightarrow> bool \<Rightarrow> 's search_ops \<Rightarrow> runner \<Rightarrow> engine_cfg \<Rightarrow> env \<Rightarrow> nat \<Rightarrow> 's engine \<Rightarrow>
    (engine_output \<times> 's engine) res option" where
  "engine_run X threads so run cfg e workers eg = run_with_evaluator X threads so run cfg e workers
     (toy_evaluator X (ec_num_constraints cfg) (case ec_search_dim cfg of Some d \<Rightarrow> d | None \<Rightarrow> 4)) eg"

end
