(* ===== verification/Engine_Run.thy ===== *)
theory Engine_Run
  imports Engine Pool
begin

text \<open>
  The invariants of a run and what they give: the index is the position map of the candidate store, the items in flight
  are exactly those of the batch, every batch moves each of its candidates, so that the inner loop ends, the caches stay
  sound, and the incumbent is the TRUTH value of its point. The executor enters through its contract, the locale
  \<open>executor_contract\<close>, interpreted by the inline executor; a function that returns what the worker pool may return
  satisfies it as well.
\<close>

subsection \<open>The candidate store\<close>

definition cand_ok :: "nat \<Rightarrow> cand \<Rightarrow> bool" where
  "cand_ok L c \<longleftrightarrow> origin_ok L c \<and> (case cd_status c of Ready \<Rightarrow> cd_next_phi_idx c < L
     | InFlight k \<Rightarrow> k = cd_next_phi_idx c \<and> k < L | _ \<Rightarrow> True)"

definition store_ok :: "nat \<Rightarrow> 's run_state \<Rightarrow> bool" where
  "store_ok L rs \<longleftrightarrow> (\<forall>i pos. rs_index rs i = Some pos \<longleftrightarrow> pos < length (rs_cands rs) \<and> cd_id (rs_cands rs ! pos) = i)
     \<and> (\<forall>c \<in> set (rs_cands rs). cand_ok L c)"

text \<open>The ladder steps a candidate may still take, and those of the whole store.\<close>

definition cand_work :: "nat \<Rightarrow> cand \<Rightarrow> nat" where
  "cand_work L c = (case cd_status c of Ready \<Rightarrow> L - cd_next_phi_idx c | InFlight k \<Rightarrow> L - k | _ \<Rightarrow> 0)"

definition work_left :: "nat \<Rightarrow> 's run_state \<Rightarrow> nat" where
  "work_left L rs = sum_list (map (cand_work L) (rs_cands rs))"

definition flying :: "cand \<Rightarrow> bool" where
  "flying c \<longleftrightarrow> (\<exists>k. cd_status c = InFlight k)"

definition flight_in :: "cand_id set \<Rightarrow> 's run_state \<Rightarrow> bool" where
  "flight_in S rs \<longleftrightarrow> (\<forall>c \<in> set (rs_cands rs). flying c \<longrightarrow> cd_id c \<in> S)"

definition item_ok :: "run_consts \<Rightarrow> 's run_state \<Rightarrow> work_item \<Rightarrow> bool" where
  "item_ok rn rs wi \<longleftrightarrow> (\<exists>pos. rs_index rs (wi_cand_id wi) = Some pos \<and> cd_status (rs_cands rs ! pos) = InFlight (wi_phi_idx wi)
       \<and> cd_x (rs_cands rs ! pos) = wi_x wi)
     \<and> wi_phi_idx wi < length (rn_ladder rn) \<and> wi_phi wi = rn_ladder rn ! wi_phi_idx wi
     \<and> wi_env_rev wi = rn_env_rev rn \<and> wi_policy_rev wi = rs_policy_rev rs"

lemma store_pos: "store_ok L rs \<Longrightarrow> rs_index rs i = Some pos \<Longrightarrow>
  pos < length (rs_cands rs) \<and> cd_id (rs_cands rs ! pos) = i \<and> cand_ok L (rs_cands rs ! pos)"
  unfolding store_ok_def by (metis nth_mem)

lemma store_index: "store_ok L rs \<Longrightarrow> pos < length (rs_cands rs) \<Longrightarrow> rs_index rs (cd_id (rs_cands rs ! pos)) = Some pos"
  by (simp add: store_ok_def)

lemma store_distinct: "store_ok L rs \<Longrightarrow> distinct (map cd_id (rs_cands rs))"
  unfolding distinct_conv_nth by (metis length_map nth_map option.inject store_index)

lemma set_cand_fields [simp]:
  "rs_index (set_cand pos c rs) = rs_index rs" "rs_cands (set_cand pos c rs) = (rs_cands rs)[pos := c]"
  "rs_policy_rev (set_cand pos c rs) = rs_policy_rev rs" "rs_geo (set_cand pos c rs) = rs_geo rs"
  "rs_engine (set_cand pos c rs) = rs_engine rs" "rs_x_best (set_cand pos c rs) = rs_x_best rs"
  "rs_f_best (set_cand pos c rs) = rs_f_best rs" "rs_poll_generated (set_cand pos c rs) = rs_poll_generated rs"
  "rs_steps_left (set_cand pos c rs) = rs_steps_left rs"
  by (simp_all add: set_cand_def)

lemma set_cand_store:
  assumes "store_ok L rs" "rs_index rs i = Some pos" "cd_id c = i" "cand_ok L c"
  shows "store_ok L (set_cand pos c rs)"
proof -
  have p: "pos < length (rs_cands rs)" "cd_id (rs_cands rs ! pos) = i" using store_pos[OF assms(1,2)] by auto
  have "cd_id ((rs_cands rs)[pos := c] ! q) = cd_id (rs_cands rs ! q)" if "q < length (rs_cands rs)" for q
    using that p assms(3) by (cases "q = pos") simp_all
  with assms(1,4) show ?thesis by (auto simp: store_ok_def dest: set_update_subset_insert[THEN subsetD])
qed

lemma set_cand_item:
  assumes "store_ok L rs" "rs_index rs i = Some pos" "wi_cand_id wi \<noteq> i"
  shows "item_ok rn (set_cand pos c rs) wi \<longleftrightarrow> item_ok rn rs wi"
proof -
  have "q \<noteq> pos" if "rs_index rs (wi_cand_id wi) = Some q" for q
    using store_pos[OF assms(1,2)] store_pos[OF assms(1) that] assms(3) by auto
  then show ?thesis by (auto simp: item_ok_def nth_list_update)
qed

lemma set_cand_work:
  assumes "store_ok L rs" "rs_index rs i = Some pos"
  shows "work_left L (set_cand pos c rs) + cand_work L (rs_cands rs ! pos) = work_left L rs + cand_work L c"
proof -
  have p: "pos < length (rs_cands rs)" using store_pos[OF assms] by simp
  then have "rs_cands rs = take pos (rs_cands rs) @ rs_cands rs ! pos # drop (Suc pos) (rs_cands rs)"
    by (simp add: id_take_nth_drop)
  moreover have "(rs_cands rs)[pos := c] = take pos (rs_cands rs) @ c # drop (Suc pos) (rs_cands rs)"
    using p by (simp add: upd_conv_take_nth_drop)
  ultimately show ?thesis unfolding work_left_def set_cand_fields
    by (smt (verit, ccfv_SIG) add.assoc add.commute list.simps(9) map_append sum_list.Cons sum_list.append)
qed

lemma set_cand_flight:
  assumes st: "store_ok L rs" and i: "rs_index rs i = Some pos" and c: "cd_id c = i" and f: "flight_in S rs"
  shows "flight_in (if flying c then insert i S else S - {i}) (set_cand pos c rs)"
proof -
  have p: "pos < length (rs_cands rs)" using store_pos[OF st i] by simp
  have "cd_id d \<noteq> i" if "q < length (rs_cands rs)" "q \<noteq> pos" "d = rs_cands rs ! q" for q d
    using store_index[OF st that(1)] i that by auto
  then show ?thesis using f c p
    by (auto simp: flight_in_def in_set_conv_nth nth_list_update split: if_splits)
qed

lemma dispatch_ok:
  "dispatch rn ids rs = (wis, rs') \<Longrightarrow> store_ok (length (rn_ladder rn)) rs \<Longrightarrow>
   (\<exists>cs. rs' = rs\<lparr>rs_cands := cs\<rparr>) \<and> store_ok (length (rn_ladder rn)) rs'
   \<and> work_left (length (rn_ladder rn)) rs' = work_left (length (rn_ladder rn)) rs
   \<and> (\<forall>wi \<in> set wis. item_ok rn rs' wi \<and> \<not> item_ok rn rs wi) \<and> distinct (map wi_cand_id wis)
   \<and> (\<forall>wi. item_ok rn rs wi \<longrightarrow> item_ok rn rs' wi \<and> wi_cand_id wi \<notin> wi_cand_id ` set wis)
   \<and> (\<forall>S. flight_in S rs \<longrightarrow> flight_in (S \<union> wi_cand_id ` set wis) rs')"
proof (induction ids arbitrary: rs wis rs')
  case Nil
  then show ?case by (auto intro: exI[of _ "rs_cands rs"])
next
  case (Cons i ids)
  let ?L = "length (rn_ladder rn)"
  show ?case
  proof (cases "rs_index rs i")
    case None
    then show ?thesis using Cons by simp
  next
    case (Some pos)
    define c where "c = rs_cands rs ! pos"
    show ?thesis
    proof (cases "cd_status c \<noteq> Ready \<or> cd_next_phi_idx c \<ge> ?L")
      case True
      then show ?thesis using Cons Some by (simp add: c_def Let_def)
    next
      case False
      define k where "k = cd_next_phi_idx c"
      define c' where "c' = c\<lparr>cd_status := InFlight k, cd_submitted_policy_rev := rs_policy_rev rs,
               cd_submitted_incumbent_id := rs_incumbent_id rs\<rparr>"
      define wi where "wi = \<lparr>wi_cand_id = i, wi_x = cd_x c, wi_phi_idx = k, wi_phi = rn_ladder rn ! k, wi_env_rev = rn_env_rev rn,
               wi_policy_rev = rs_policy_rev rs, wi_incumbent_id = rs_incumbent_id rs\<rparr>"
      define rs1 where "rs1 = set_cand pos c' rs"
      obtain wis1 where d: "dispatch rn ids rs1 = (wis1, rs')" and wis: "wis = wi # wis1"
        using Cons.prems(1) Some False
        by (auto simp: Let_def simp flip: c_def k_def split: prod.splits) (auto simp: c'_def wi_def rs1_def)
      have pos: "pos < length (rs_cands rs)" "cd_id c = i" "cand_ok ?L c"
        using store_pos[OF Cons.prems(2) Some] by (simp_all add: c_def)
      have c': "cd_id c' = i" "cand_ok ?L c'" "cand_work ?L c' = cand_work ?L c" "flying c'"
        using pos False by (simp_all add: c'_def cand_ok_def origin_ok_def cand_work_def flying_def k_def)
      have st1: "store_ok ?L rs1" unfolding rs1_def by (rule set_cand_store[OF Cons.prems(2) Some c'(1,2)])
      have w1: "work_left ?L rs1 = work_left ?L rs"
        using set_cand_work[OF Cons.prems(2) Some, of c'] c'(3) by (simp add: rs1_def c_def)
      have wi1: "item_ok rn rs1 wi"
        using pos False Some by (simp add: item_ok_def rs1_def wi_def c'_def k_def)
      have nwi: "\<not> item_ok rn rs wj" if "wi_cand_id wj = i" for wj
        using that Some False by (simp add: item_ok_def c_def)
      have keep: "item_ok rn rs wj \<Longrightarrow> item_ok rn rs1 wj" for wj
        using nwi set_cand_item[OF Cons.prems(2) Some, of wj rn c'] by (auto simp: rs1_def)
      have fl: "flight_in S rs \<Longrightarrow> flight_in (insert i S) rs1" for S
        using set_cand_flight[OF Cons.prems(2) Some c'(1)] c'(4) by (simp add: rs1_def)
      note IH = Cons.IH[OF d st1]
      obtain cs where cs: "rs' = rs1\<lparr>rs_cands := cs\<rparr>" using IH by blast
      have "rs' = rs\<lparr>rs_cands := cs\<rparr>" by (simp add: cs rs1_def set_cand_def)
      moreover have "i \<notin> wi_cand_id ` set wis1" using IH wi1 by (auto simp: wi_def)
      moreover have "\<not> item_ok rn rs wj" if "wj \<in> set wis" for wj
        using that nwi IH keep by (auto simp: wis wi_def)
      moreover have "flight_in (S \<union> wi_cand_id ` set wis) rs'" if "flight_in S rs" for S
        using IH fl[OF that] by (auto simp: wis wi_def)
      ultimately show ?thesis using IH w1 wi1 keep nwi by (auto simp: wis wi_def)
    qed
  qed
qed

subsection \<open>Completion\<close>

text \<open>
  The incumbent is a TRUTH evaluation: its value is what the black box says at the last step of the ladder, and its
  violation is within the barrier the run started with.
\<close>

definition truth_of :: "extern \<Rightarrow> exec_ctx \<Rightarrow> phi \<Rightarrow> f64 \<Rightarrow> xmesh option \<Rightarrow> f64 list option \<Rightarrow> bool" where
  "truth_of X ctx p h xb fb \<longleftrightarrow> (case (xb, fb) of
     (None, None) \<Rightarrow> True
   | (Some x, Some f) \<Rightarrow> (\<exists>est. ref_eval X ctx x p = Inr (Some est) \<and> f = f_hat est \<and> truth_violation (c_hat est) \<le> h)
   | _ \<Rightarrow> False)"

definition start_barrier :: "run_consts \<Rightarrow> f64" where
  "start_barrier rn = bs_h (barrier_new (rn_accept_cfg rn))"

definition barrier_inv :: "run_consts \<Rightarrow> 's run_state \<Rightarrow> bool" where
  "barrier_inv rn rs \<longleftrightarrow> barrier_ok (rn_accept_cfg rn) (rs_accept rs) \<and> bs_h (as_barrier (rs_accept rs)) \<le> start_barrier rn"

definition incumbent_ok :: "extern \<Rightarrow> exec_ctx \<Rightarrow> run_consts \<Rightarrow> 's run_state \<Rightarrow> bool" where
  "incumbent_ok X ctx rn rs \<longleftrightarrow> barrier_inv rn rs
     \<and> truth_of X ctx (last (rn_ladder rn)) (start_barrier rn) (rs_x_best rs) (rs_f_best rs)"

text \<open>What a completion leaves alone.\<close>

definition same_frame :: "'s run_state \<Rightarrow> 's run_state \<Rightarrow> bool" where
  "same_frame rs rs' \<longleftrightarrow> rs_policy_rev rs' = rs_policy_rev rs \<and> rs_geo rs' = rs_geo rs \<and> rs_index rs' = rs_index rs
     \<and> rs_steps_left rs' = rs_steps_left rs \<and> rs_poll_generated rs' = rs_poll_generated rs
     \<and> rs_chunk_base rs' = rs_chunk_base rs \<and> rs_assignment rs' = rs_assignment rs
     \<and> eg_calibrator (rs_engine rs') = eg_calibrator (rs_engine rs) \<and> eg_audit (rs_engine rs') = eg_audit (rs_engine rs)
     \<and> eg_scheduler (rs_engine rs') = eg_scheduler (rs_engine rs) \<and> eg_search (rs_engine rs') = eg_search (rs_engine rs)"

lemma accept_job_frame: "same_frame rs (accept_job rn c r rs)" "rs_cands (accept_job rn c r rs) = rs_cands rs"
  "rs_engine (accept_job rn c r rs) = rs_engine rs" "rs_index (accept_job rn c r rs) = rs_index rs"
  "rs_geo (accept_job rn c r rs) = rs_geo rs" "rs_policy_rev (accept_job rn c r rs) = rs_policy_rev rs"
  "rs_stats (accept_job rn c r rs) = rs_stats rs"
  by (auto simp: accept_job_def same_frame_def split: job_result.split prod.split truth_decision.split)

lemma job_truth_ref:
  assumes "job_agrees X ctx wi (Truth f c fe v m)" "wi_env_rev wi = cx_env_rev ctx"
    and "cx_ladder_len ctx = length ladder" "wi_phi_idx wi < length ladder" "wi_phi wi = ladder ! wi_phi_idx wi"
  shows "\<exists>est. ref_eval X ctx (wi_x wi) (last ladder) = Inr (Some est) \<and> f = f_hat est \<and> v = truth_violation (c_hat est)"
proof -
  have "item_tag ctx wi = TagTruth" "\<exists>est. ref_eval X ctx (wi_x wi) (wi_phi wi) = Inr (Some est) \<and> f = f_hat est
      \<and> v = truth_violation (c_hat est)"
    using assms(1,2) by (auto simp: job_agrees_def decision_fits_def item_dkey_def item_tag_def split: if_splits)
  moreover have "last ladder = wi_phi wi" if "item_tag ctx wi = TagTruth"
    using that assms(3-5) last_conv_nth[of ladder] by (auto simp: item_tag_def simp del: last_conv_nth split: if_splits)
      (metis One_nat_def diff_Suc_1 list.size(3) nat.distinct(1))
  ultimately show ?thesis by simp
qed

lemma accept_job_incumbent:
  assumes "incumbent_ok X ctx rn rs" "job_agrees X ctx wi r" "wi_env_rev wi = cx_env_rev ctx"
    and "cx_ladder_len ctx = length (rn_ladder rn)" "wi_phi_idx wi < length (rn_ladder rn)"
    and "wi_phi wi = rn_ladder rn ! wi_phi_idx wi" "cd_x c = wi_x wi"
  shows "incumbent_ok X ctx rn (accept_job rn c r rs)"
proof (cases r)
  case (Truth f cs fe v m)
  then obtain est where est: "ref_eval X ctx (wi_x wi) (last (rn_ladder rn)) = Inr (Some est)" "f = f_hat est"
    "v = truth_violation (c_hat est)" using job_truth_ref[of X ctx wi f cs fe v m "rn_ladder rn"] assms by auto
  obtain d acc where d: "decide_truth (rn_accept_cfg rn) (rs_accept rs) (cd_x c) (get_or f_inf f 0) v = (d, acc)" by (metis surj_pair)
  have "as_barrier acc = as_barrier (rs_accept rs)" using decide_barrier[of "rn_accept_cfg rn" "rs_accept rs"] d by (metis snd_conv)
  then have acc: "barrier_inv rn (accept_job rn c r rs)"
    using assms(1) d by (simp add: incumbent_ok_def barrier_inv_def barrier_ok_def accept_job_def Truth split: truth_decision.split)
  have "truth_violation (c_hat est) \<le> start_barrier rn" if "d = Accept"
  proof -
    have "\<not> bs_h (as_barrier (rs_accept rs)) < v" using d that by (auto simp: decide_truth_def split: if_splits)
    moreover have le: "bs_h (as_barrier (rs_accept rs)) \<le> start_barrier rn"
      using assms(1) by (simp add: incumbent_ok_def barrier_inv_def)
    ultimately have "v \<le> bs_h (as_barrier (rs_accept rs))"
      using truth_violation_num[of "c_hat est"] f_le_D[OF le] by (simp add: f_not_less est(3))
    then show ?thesis using f_le_trans[OF _ le] by (simp add: est(3))
  qed
  then have "truth_of X ctx (last (rn_ladder rn)) (start_barrier rn) (rs_x_best (accept_job rn c r rs)) (rs_f_best (accept_job rn c r rs))"
    using assms(1,7) est(1,2) d by (cases d) (simp_all add: incumbent_ok_def truth_of_def accept_job_def Truth)
  with acc show ?thesis by (simp add: incumbent_ok_def)
qed (use assms in \<open>simp_all add: accept_job_def\<close>)

lemma complete_one_ok:
  assumes run: "complete_one X rn th out rs = Inr (e, rs')" and st: "store_ok (length (rn_ladder rn)) rs"
    and it: "item_ok rn rs (wo_item out)" and ag: "outcome_agrees X ctx out" and ctx: "ctx = run_exec_ctx rn rs"
    and cs: "caches_sound X ctx (eg_caches (rs_engine rs))" and inc: "incumbent_ok X ctx rn rs"
  shows "store_ok (length (rn_ladder rn)) rs' \<and> work_left (length (rn_ladder rn)) rs' < work_left (length (rn_ladder rn)) rs
    \<and> (\<forall>wi. wi_cand_id wi \<noteq> wi_cand_id (wo_item out) \<longrightarrow> item_ok rn rs wi \<longrightarrow> item_ok rn rs' wi)
    \<and> (\<forall>S. flight_in S rs \<longrightarrow> flight_in (S - {wi_cand_id (wo_item out)}) rs')
    \<and> caches_sound X ctx (eg_caches (rs_engine rs')) \<and> incumbent_ok X ctx rn rs' \<and> same_frame rs rs'"
proof -
  let ?L = "length (rn_ladder rn)" and ?wi = "wo_item out" and ?mx = "run_mat_ctx rn th rs"
  obtain pos where pos: "rs_index rs (wi_cand_id ?wi) = Some pos" "cd_status (rs_cands rs ! pos) = InFlight (wi_phi_idx ?wi)"
    "cd_x (rs_cands rs ! pos) = wi_x ?wi" using it by (auto simp: item_ok_def)
  have wi: "wi_phi_idx ?wi < ?L" "wi_phi ?wi = rn_ladder rn ! wi_phi_idx ?wi" "wi_env_rev ?wi = rn_env_rev rn"
    "wi_policy_rev ?wi = rs_policy_rev rs" using it by (simp_all add: item_ok_def)
  obtain job c st1 dc where mat: "materialize X ?mx out (rs_cands rs ! pos) (rs_stats rs) (ch_decision (eg_caches (rs_engine rs)))
      = Inr (job, c, st1, dc)" and rs': "rs' = accept_job rn c (mj_result job) (set_cand pos c (rs\<lparr>rs_engine :=
        after_job (wi_cand_id ?wi) ?wi c (mj_result job) ((rs_engine rs)\<lparr>eg_caches := (eg_caches (rs_engine rs))\<lparr>ch_decision := dc\<rparr>\<rparr>),
        rs_stats := st1\<rparr>))"
    using run pos(1) by (auto simp: complete_one_def Let_def res_bind_Inr)
  define rs1 where "rs1 = rs\<lparr>rs_engine := after_job (wi_cand_id ?wi) ?wi c (mj_result job) ((rs_engine rs)\<lparr>eg_caches :=
     (eg_caches (rs_engine rs))\<lparr>ch_decision := dc\<rparr>\<rparr>), rs_stats := st1\<rparr>"
  have mxs: "mx_ladder ?mx = rn_ladder rn" "mx_policy_rev ?mx = wi_policy_rev ?wi" by (simp_all add: run_mat_ctx_def wi)
  have cx: "cx_ladder_len ctx = ?L" "cx_env_rev ctx = rn_env_rev rn" by (simp_all add: ctx run_exec_ctx_def)
  have c0: "cand_ok ?L (rs_cands rs ! pos)" "cd_id (rs_cands rs ! pos) = wi_cand_id ?wi" using store_pos[OF st pos(1)] by auto
  then have org: "origin_ok ?L (rs_cands rs ! pos)" by (simp add: cand_ok_def)
  have mv: "moved ?L (wi_phi_idx ?wi) (rs_cands rs ! pos) c"
    using materialize_moved[OF mat, unfolded mxs, OF org wi(1)] outcome_agrees_cut[OF ag] wi(1,3) by (simp add: cx)
  have snd: "job_agrees X ctx ?wi (mj_result job) \<and> decision_sound X ctx dc"
    using materialize_sound[OF mat, unfolded mxs, OF org wi(1) cx(1) pos(3) refl ag] cs by (simp add: caches_sound_def)
  have c: "cd_id c = wi_cand_id ?wi" "cand_ok ?L c" "cand_work ?L c < cand_work ?L (rs_cands rs ! pos)" "\<not> flying c"
    using mv c0 pos(2) wi(1) by (auto simp: moved_def cand_ok_def cand_work_def flying_def split: cand_status.splits)
  have st1: "store_ok ?L rs1" and pos1: "rs_index rs1 (wi_cand_id ?wi) = Some pos" and cands1: "rs_cands rs1 = rs_cands rs"
    using st pos(1) by (simp_all add: rs1_def store_ok_def)
  let ?rs2 = "set_cand pos c rs1"
  have store2: "store_ok ?L ?rs2" by (rule set_cand_store[OF st1 pos1 c(1,2)])
  have work2: "work_left ?L ?rs2 < work_left ?L rs"
    using set_cand_work[OF st1 pos1, of c] c(3) by (simp add: cands1 work_left_def)
  have item2: "item_ok rn ?rs2 wi" if "wi_cand_id wi \<noteq> wi_cand_id ?wi" "item_ok rn rs wi" for wi
    using that set_cand_item[OF st1 pos1 that(1), of rn c] by (simp add: rs1_def item_ok_def)
  have fl2: "flight_in (S - {wi_cand_id ?wi}) ?rs2" if "flight_in S rs" for S
    using set_cand_flight[OF st1 pos1 c(1), of S] that c(4) by (simp add: flight_in_def cands1)
  have inc2: "incumbent_ok X ctx rn ?rs2" using inc by (simp add: incumbent_ok_def barrier_inv_def rs1_def) (simp add: set_cand_def)
  have rs'2: "rs' = accept_job rn c (mj_result job) ?rs2" by (simp add: rs' rs1_def)
  have "cd_x c = wi_x ?wi" using mv pos(3) by (simp add: moved_def)
  then have inc': "incumbent_ok X ctx rn rs'"
    unfolding rs'2 using accept_job_incumbent[OF inc2 conjunct1[OF snd]] wi cx by simp
  have eg': "rs_engine rs' = rs_engine rs1" "rs_cands rs' = rs_cands ?rs2" "rs_index rs' = rs_index ?rs2"
    "rs_policy_rev rs' = rs_policy_rev ?rs2"
    by (simp_all add: rs'2 accept_job_frame)
  have "caches_sound X ctx (eg_caches (rs_engine rs'))"
    using snd cs by (simp add: eg' rs1_def after_job_def caches_sound_def)
  moreover have "same_frame rs rs'"
  proof -
    have "same_frame rs ?rs2" by (simp add: same_frame_def rs1_def after_job_def sch_on_complete_def) (simp add: set_cand_def)
    moreover have "same_frame ?rs2 rs'" unfolding rs'2 by (rule accept_job_frame)
    ultimately show ?thesis by (simp add: same_frame_def)
  qed
  moreover have "store_ok ?L rs'" "work_left ?L rs' = work_left ?L ?rs2" "item_ok rn rs' wi = item_ok rn ?rs2 wi"
    "flight_in S rs' = flight_in S ?rs2" for wi S
    using store2 by (simp_all add: store_ok_def work_left_def item_ok_def flight_in_def eg')
  ultimately show ?thesis using work2 item2 fl2 inc' by auto
qed

subsection \<open>The invariant between batches\<close>

definition run_inv :: "extern \<Rightarrow> exec_ctx \<Rightarrow> run_consts \<Rightarrow> 's run_state \<Rightarrow> bool" where
  "run_inv X ctx rn rs \<longleftrightarrow> store_ok (length (rn_ladder rn)) rs \<and> flight_in {} rs \<and> run_exec_ctx rn rs = ctx
     \<and> caches_sound X ctx (eg_caches (rs_engine rs)) \<and> incumbent_ok X ctx rn rs"

lemma same_frame_refl [simp]: "same_frame rs rs"
  by (simp add: same_frame_def)

lemma same_frame_trans: "same_frame a b \<Longrightarrow> same_frame b c \<Longrightarrow> same_frame a c"
  by (simp add: same_frame_def)

lemma same_frame_ctx: "same_frame rs rs' \<Longrightarrow> run_exec_ctx rn rs' = run_exec_ctx rn rs"
  by (simp add: same_frame_def run_exec_ctx_def)

lemma complete_all_ok:
  assumes "complete_all X rn th outs rs = Inr (es, rs')" "store_ok (length (rn_ladder rn)) rs"
    and "distinct (map (wi_cand_id \<circ> wo_item) outs)"
    and "\<forall>out \<in> set outs. item_ok rn rs (wo_item out) \<and> outcome_agrees X ctx out"
    and "flight_in (wi_cand_id ` wo_item ` set outs) rs" "run_exec_ctx rn rs = ctx"
    and "caches_sound X ctx (eg_caches (rs_engine rs))" "incumbent_ok X ctx rn rs"
  shows "run_inv X ctx rn rs' \<and> work_left (length (rn_ladder rn)) rs' + length outs \<le> work_left (length (rn_ladder rn)) rs
    \<and> same_frame rs rs'"
  using assms
proof (induction outs arbitrary: rs es)
  case Nil
  then show ?case by (simp add: run_inv_def)
next
  case (Cons out outs)
  from Cons.prems(1) obtain e rs1 es1 where one: "complete_one X rn th out rs = Inr (e, rs1)"
    and rest: "complete_all X rn th outs rs1 = Inr (es1, rs')" by (auto simp: res_bind_Inr)
  have "item_ok rn rs (wo_item out)" "outcome_agrees X ctx out" using Cons.prems(4) by simp_all
  note ok = complete_one_ok[OF one Cons.prems(2) this Cons.prems(6)[symmetric] Cons.prems(7,8)]
  have fr: "same_frame rs rs1" using ok by simp
  have "flight_in (wi_cand_id ` wo_item ` set outs) rs1"
  proof -
    have "flight_in (wi_cand_id ` wo_item ` set (out # outs) - {wi_cand_id (wo_item out)}) rs1" using ok Cons.prems(5) by blast
    then show ?thesis by (auto simp: flight_in_def)
  qed
  moreover have "\<forall>o' \<in> set outs. item_ok rn rs1 (wo_item o') \<and> outcome_agrees X ctx o'"
    using ok Cons.prems(3,4) by (auto simp: image_iff)
  ultimately have "run_inv X ctx rn rs' \<and> work_left (length (rn_ladder rn)) rs' + length outs
      \<le> work_left (length (rn_ladder rn)) rs1 \<and> same_frame rs1 rs'"
    using ok Cons.prems(3,6) same_frame_ctx[OF fr] by (intro Cons.IH[OF rest]) auto
  with ok same_frame_trans[OF fr] show ?case by auto
qed

lemma batch_boundaryE:
  assumes "batch_boundary X rn events rs = Inr rs'"
  obtains delta dk new_a a_delta dd where
    "dk_update X (sort_by (\<lambda>a b. ce_id a \<le> ce_id b) events) (eg_calibrator (rs_engine rs)) = Inr (delta, dk)"
    "update_assignment X (length (rn_ladder rn)) (dk_state dk) (eg_dids (rs_engine rs)) = ((new_a, a_delta), dd)"
    "rs' = rs\<lparr>rs_engine := (rs_engine rs)\<lparr>eg_calibrator := dk, eg_dids := dd\<rparr>, rs_assignment := new_a,
       rs_policy_rev := if a_delta \<noteq> 0 then (if delta \<noteq> 0 then rs_policy_rev rs + delta else rs_policy_rev rs) + a_delta
         else if delta \<noteq> 0 then rs_policy_rev rs + delta else rs_policy_rev rs\<rparr>"
proof -
  from assms obtain delta dk where dk:
    "dk_update X (sort_by (\<lambda>a b. ce_id a \<le> ce_id b) events) (eg_calibrator (rs_engine rs)) = Inr (delta, dk)"
    by (auto simp: batch_boundary_def Let_def res_bind_Inr)
  obtain new_a a_delta dd where ua:
    "update_assignment X (length (rn_ladder rn)) (dk_state dk) (eg_dids (rs_engine rs)) = ((new_a, a_delta), dd)"
    by (metis surj_pair)
  show thesis by (rule that[OF dk ua]) (use assms dk ua in \<open>simp add: batch_boundary_def Let_def\<close>)
qed

lemma batch_boundary_frame:
  assumes "batch_boundary X rn events rs = Inr rs'"
  shows "rs_cands rs' = rs_cands rs" "rs_index rs' = rs_index rs" "rs_geo rs' = rs_geo rs"
    "eg_caches (rs_engine rs') = eg_caches (rs_engine rs)" "rs_x_best rs' = rs_x_best rs" "rs_f_best rs' = rs_f_best rs"
    "rs_poll_generated rs' = rs_poll_generated rs" "eg_search (rs_engine rs') = eg_search (rs_engine rs)"
    "eg_audit (rs_engine rs') = eg_audit (rs_engine rs)" "eg_scheduler (rs_engine rs') = eg_scheduler (rs_engine rs)"
    "rs_chunk_base rs' = rs_chunk_base rs" "rs_steps_left rs' = rs_steps_left rs" "rs_accept rs' = rs_accept rs"
  by (rule batch_boundaryE[OF assms], simp)+

lemma run_inv_cong:
  assumes "run_inv X ctx rn rs" "rs_cands rs' = rs_cands rs" "rs_index rs' = rs_index rs"
    and "ag_base_steps (rs_geo rs') = ag_base_steps (rs_geo rs)" "eg_caches (rs_engine rs') = eg_caches (rs_engine rs)"
    and "rs_x_best rs' = rs_x_best rs" "rs_f_best rs' = rs_f_best rs" "rs_accept rs' = rs_accept rs"
  shows "run_inv X ctx rn rs'"
  using assms by (simp add: run_inv_def store_ok_def flight_in_def run_exec_ctx_def incumbent_ok_def barrier_inv_def)

lemma end_iteration_inv:
  assumes "run_inv X ctx rn rs"
  shows "run_inv X ctx rn (end_iteration rn rs)"
proof -
  let ?rs = "(end_iteration rn rs)\<lparr>rs_accept := rs_accept rs\<rparr>"
  have inv: "run_inv X ctx rn ?rs" by (rule run_inv_cong[OF assms]) (simp_all add: end_iteration_def ag_refine_def Let_def)
  have "barrier_inv rn rs" using assms by (simp add: run_inv_def incumbent_ok_def)
  then have "barrier_inv rn (end_iteration rn rs)"
    using tighten_bounds[of "rn_accept_cfg rn" "as_barrier (rs_accept rs)"] f_le_trans
    by (auto simp: barrier_inv_def barrier_ok_def end_iteration_def acc_on_iteration_end_def)
  with inv show ?thesis by (simp add: run_inv_def store_ok_def flight_in_def run_exec_ctx_def incumbent_ok_def)
qed

subsection \<open>New candidates\<close>

lemma run_state_self: "\<exists>ix cs. rs = rs\<lparr>rs_index := ix, rs_cands := cs\<rparr>"
  by (intro exI[of _ "rs_index rs"] exI[of _ "rs_cands rs"]) simp

lemma ingest_frame: "\<exists>ix cs. ingest iter p rs = rs\<lparr>rs_index := ix, rs_cands := cs\<rparr>"
  using run_state_self[of rs] by (cases p) (auto simp: ingest_def)

lemma ingest_store:
  assumes "store_ok L rs" "0 < L"
  shows "store_ok L (ingest iter p rs)"
proof (cases p)
  case (fields i x score)
  have new: "cand_ok L (new_cand rs iter i x score)" "cd_id (new_cand rs iter i x score) = i"
    using assms(2) by (simp_all add: cand_ok_def new_cand_def origin_ok_def)
  have "cd_id (rs_cands rs ! pos) \<noteq> i" if "pos < length (rs_cands rs)" "rs_index rs i = None" for pos
    using store_index[OF assms(1) that(1)] that(2) by auto
  then show ?thesis
    using assms(1) new by (auto simp: store_ok_def ingest_def fields nth_append less_Suc_eq split: if_splits)
qed

lemma ingest_inv:
  assumes "run_inv X ctx rn rs" "rn_ladder rn \<noteq> []"
  shows "run_inv X ctx rn (ingest iter p rs)"
proof -
  have "store_ok (length (rn_ladder rn)) (ingest iter p rs)" using assms by (intro ingest_store) (simp_all add: run_inv_def)
  moreover have "flight_in {} (ingest iter p rs)"
    using assms by (cases p) (auto simp: run_inv_def ingest_def flight_in_def new_cand_def flying_def)
  moreover obtain ix cs where "ingest iter p rs = rs\<lparr>rs_index := ix, rs_cands := cs\<rparr>" using ingest_frame by blast
  ultimately show ?thesis using assms by (simp add: run_inv_def run_exec_ctx_def incumbent_ok_def barrier_inv_def)
qed

lemma ingests_inv: "run_inv X ctx rn rs \<Longrightarrow> rn_ladder rn \<noteq> [] \<Longrightarrow> run_inv X ctx rn (fold (\<lambda>q. ingest iter (f q)) ps rs)"
  by (induction ps arbitrary: rs) (simp_all add: ingest_inv)

lemma ingests_frame: "\<exists>ix cs. fold (\<lambda>q. ingest iter (f q)) ps rs = rs\<lparr>rs_index := ix, rs_cands := cs\<rparr>"
proof (induction ps arbitrary: rs)
  case Nil
  show ?case using run_state_self[of rs] by simp
next
  case (Cons q ps)
  obtain ix cs where "ingest iter (f q) rs = rs\<lparr>rs_index := ix, rs_cands := cs\<rparr>" using ingest_frame by blast
  with Cons.IH[of "rs\<lparr>rs_index := ix, rs_cands := cs\<rparr>"] show ?case by auto
qed

lemma poll_inject_inv:
  assumes "run_inv X ctx rn rs" "rn_ladder rn \<noteq> []"
  shows "run_inv X ctx rn (poll_inject iter center rs) \<and> rs_poll_generated (poll_inject iter center rs)
    \<and> rs_geo (poll_inject iter center rs) = rs_geo rs"
proof -
  define pts where "pts = enumerate 0 (generate_points_aniso center (ag_poll_step_units (rs_geo rs)))"
  define f :: "nat \<times> xmesh \<Rightarrow> cand_id \<times> xmesh \<times> f64" where "f = (\<lambda>(d, x). (poll_id iter d, x, f_inf))"
  have eq: "poll_inject iter center rs = (fold (\<lambda>q. ingest iter (f q)) pts rs)\<lparr>rs_poll_generated := True\<rparr>"
    by (simp add: poll_inject_def pts_def f_def case_prod_unfold)
  have inv: "run_inv X ctx rn (fold (\<lambda>q. ingest iter (f q)) pts rs)" by (rule ingests_inv[OF assms])
  obtain ix cs where fr: "fold (\<lambda>q. ingest iter (f q)) pts rs = rs\<lparr>rs_index := ix, rs_cands := cs\<rparr>"
    using ingests_frame[of iter f pts rs] by blast
  have "run_inv X ctx rn (poll_inject iter center rs)"
    unfolding eq by (rule run_inv_cong[OF inv]) simp_all
  then show ?thesis by (simp add: eq fr)
qed

lemma propose_step_inv:
  assumes "propose_step X so rn iter rs = Inr rs'" "run_inv X ctx rn rs" "rn_ladder rn \<noteq> []"
  shows "run_inv X ctx rn rs'"
proof -
  from assms(1) obtain sorted s where "rs' = fold (ingest iter) sorted (set_search s rs)"
    by (auto simp: propose_step_def res_bind_Inr)
  moreover have "run_inv X ctx rn (set_search s rs)" by (rule run_inv_cong[OF assms(2)]) (simp_all add: set_search_def)
  ultimately show ?thesis using ingests_inv[of X ctx rn "set_search s rs" iter "\<lambda>q. q" sorted] assms(3) by simp
qed

subsection \<open>The executor\<close>

text \<open>
  What the engine needs of an executor: from sound caches, one outcome per item, each empty or in agreement with the black
  box, and sound caches again. Order does not matter, the engine sorts.
\<close>

locale executor_contract =
  fixes X :: extern and run :: runner
  assumes run_ok: "caches_sound X ctx c \<Longrightarrow> \<forall>wi \<in> set items. wi_env_rev wi = cx_env_rev ctx \<Longrightarrow>
    run ad ctx items c = Inr (outs, c') \<Longrightarrow>
    mset (map wo_item outs) = mset items \<and> (\<forall>out \<in> set outs. outcome_agrees X ctx out) \<and> caches_sound X ctx c'"

text \<open>An executor that always returns, with no empty outcome, when the black box does not panic.\<close>

locale reliable_executor = executor_contract +
  assumes run_total: "evaluator_total (cx_evaluator ctx) \<Longrightarrow> caches_sound X ctx c \<Longrightarrow>
    \<forall>wi \<in> set items. wi_env_rev wi = cx_env_rev ctx \<Longrightarrow>
    \<exists>outs c'. run ad ctx items c = Inr (outs, c') \<and> (\<forall>out \<in> set outs. outcome_matches X ctx out)"

context executor_contract
begin

lemma batch_step_ok:
  assumes step: "run_batch_step X run rn th work rs = Inr rs'" and st: "store_ok (length (rn_ladder rn)) rs"
    and d: "distinct (map wi_cand_id work)" and it: "\<forall>wi \<in> set work. item_ok rn rs wi"
    and fl: "flight_in (wi_cand_id ` set work) rs" and ctx: "run_exec_ctx rn rs = ctx"
    and cs: "caches_sound X ctx (eg_caches (rs_engine rs))" and inc: "incumbent_ok X ctx rn rs"
  shows "run_inv X ctx rn rs' \<and> work_left (length (rn_ladder rn)) rs' + length work \<le> work_left (length (rn_ladder rn)) rs
    \<and> rs_poll_generated rs' = rs_poll_generated rs \<and> rs_geo rs' = rs_geo rs"
proof -
  let ?L = "length (rn_ladder rn)" and ?ad = "set_executor rn rs"
  obtain outs c sorted rs1 events rs2 rs3 where b: "run ?ad ctx work (eg_caches (rs_engine rs)) = Inr (outs, c)"
    and sorted: "sorted = sort_by (\<lambda>a b. wi_cand_id (wo_item a) \<le> wi_cand_id (wo_item b)) outs"
    and rs1: "rs1 = rs\<lparr>rs_engine := (rs_engine rs)\<lparr>eg_caches := c, eg_executor := ?ad\<rparr>,
       rs_stats := fold (\<lambda>out. update_stats_from_outcome out ?L) sorted (rs_stats rs)\<rparr>"
    and all: "complete_all X rn th sorted rs1 = Inr (events, rs2)" and bb: "batch_boundary X rn events rs2 = Inr rs3"
    and rs': "rs' = rs3\<lparr>rs_chunk_base := tune_chunk (rn_cfg rn) sorted (rs_chunk_base rs3),
       rs_steps_left := rs_steps_left rs3 - length sorted\<rparr>"
    using step by (auto simp: run_batch_step_def Let_def res_bind_Inr ctx)
  have "\<forall>wi \<in> set work. wi_env_rev wi = cx_env_rev ctx" using it by (simp add: item_ok_def run_exec_ctx_def flip: ctx)
  note ex = run_ok[OF cs this b]
  have ms: "mset (map wo_item sorted) = mset work" using ex by (simp add: sorted)
  then have len: "length sorted = length work" by (metis length_map size_mset)
  have set: "wo_item ` set sorted = set work" using ms by (metis list.set_map set_mset_mset)
  have "distinct (map wi_cand_id (map wo_item sorted))"
    using d ms by (metis distinct_count_atmost_1 mset_map set_mset_mset)
  then have d1: "distinct (map (wi_cand_id \<circ> wo_item) sorted)" by simp
  have st1: "store_ok ?L rs1" "run_exec_ctx rn rs1 = ctx" "incumbent_ok X ctx rn rs1" "work_left ?L rs1 = work_left ?L rs"
    "\<And>S. flight_in S rs1 = flight_in S rs" "\<And>wi. item_ok rn rs1 wi = item_ok rn rs wi"
    using st ctx inc by (simp_all add: rs1 store_ok_def run_exec_ctx_def incumbent_ok_def barrier_inv_def work_left_def flight_in_def item_ok_def)
  have "\<forall>out \<in> set sorted. item_ok rn rs1 (wo_item out) \<and> outcome_agrees X ctx out"
    using it set ex by (auto simp: st1(6) sorted)
  moreover have "flight_in (wi_cand_id ` wo_item ` set sorted) rs1" using fl by (simp add: set st1(5))
  moreover have "caches_sound X ctx (eg_caches (rs_engine rs1))" using ex by (simp add: rs1)
  ultimately have inv: "run_inv X ctx rn rs2 \<and> work_left ?L rs2 + length sorted \<le> work_left ?L rs1 \<and> same_frame rs1 rs2"
    using complete_all_ok[OF all st1(1) d1] st1(2,3) by blast
  note bf = batch_boundary_frame[OF bb]
  have "run_inv X ctx rn rs'" by (rule run_inv_cong[OF conjunct1[OF inv]]) (simp_all add: rs' bf)
  moreover have "work_left ?L rs' = work_left ?L rs2" by (simp add: rs' bf work_left_def)
  moreover have "rs_poll_generated rs' = rs_poll_generated rs" "rs_geo rs' = rs_geo rs"
    using inv by (simp_all add: rs' bf same_frame_def rs1)
  ultimately show ?thesis using inv len st1(4) by simp
qed

lemma inner_body_ok:
  assumes body: "inner_body X run rn iter rs = Inr fl" and inv: "run_inv X ctx rn rs" and L: "rn_ladder rn \<noteq> []"
  shows "case fl of Stop rs' \<Rightarrow> run_inv X ctx rn rs' \<and> rs_geo rs' = rs_geo rs
    | Next rs' \<Rightarrow> run_inv X ctx rn rs' \<and> rs_geo rs' = rs_geo rs \<and> (\<not> rs_poll_generated rs \<and> rs_poll_generated rs'
       \<or> rs_poll_generated rs' = rs_poll_generated rs \<and> work_left (length (rn_ladder rn)) rs' < work_left (length (rn_ladder rn)) rs)"
proof -
  let ?view = "make_ready_view (run_thresholds rs) iter (rs_cands rs)"
  consider (idle) "fl = Stop rs" | (poll) center where "fl = Next (poll_inject iter center rs)" "\<not> rs_poll_generated rs"
    | (disp) ids work rs1 where "dispatch rn ids rs = (work, rs1)" "work = [] \<and> fl = Stop rs1
        \<or> work \<noteq> [] \<and> (\<exists>rs2. run_batch_step X run rn (run_thresholds rs) work rs1 = Inr rs2 \<and> fl = Next rs2)"
    using body by (auto simp: inner_body_def Let_def res_bind_Inr split: if_splits option.splits prod.splits)
  then show ?thesis
  proof cases
    case idle
    then show ?thesis using inv by simp
  next
    case poll
    then show ?thesis using poll_inject_inv[OF inv L] by simp
  next
    case disp
    have st: "store_ok (length (rn_ladder rn)) rs" using inv by (simp add: run_inv_def)
    note d = dispatch_ok[OF disp(1) st]
    obtain cs where rs1: "rs1 = rs\<lparr>rs_cands := cs\<rparr>" using d by blast
    have fl1: "flight_in (wi_cand_id ` set work) rs1" using d inv unfolding run_inv_def by (metis sup_bot_left)
    have fr: "run_exec_ctx rn rs1 = ctx" "caches_sound X ctx (eg_caches (rs_engine rs1))" "incumbent_ok X ctx rn rs1"
      "rs_poll_generated rs1 = rs_poll_generated rs" "rs_geo rs1 = rs_geo rs"
      using inv by (simp_all add: rs1 run_inv_def run_exec_ctx_def incumbent_ok_def barrier_inv_def)
    show ?thesis
    proof (cases "work = []")
      case True
      then show ?thesis using d disp(2) fr fl1 by (simp add: run_inv_def)
    next
      case False
      with disp(2) obtain rs2 where b: "run_batch_step X run rn (run_thresholds rs) work rs1 = Inr rs2" "fl = Next rs2" by auto
      have ok: "run_inv X ctx rn rs2 \<and> work_left (length (rn_ladder rn)) rs2 + length work \<le> work_left (length (rn_ladder rn)) rs1
          \<and> rs_poll_generated rs2 = rs_poll_generated rs1 \<and> rs_geo rs2 = rs_geo rs1"
        by (rule batch_step_ok[OF b(1)]) (use d fr fl1 in auto)
      have "0 < length work" using False by (cases work) simp_all
      with ok d have "work_left (length (rn_ladder rn)) rs2 < work_left (length (rn_ladder rn)) rs" by linarith
      with ok show ?thesis using b(2) fr by simp
    qed
  qed
qed

text \<open>Every pass of the inner loop injects the poll points, once, or moves a candidate.\<close>

lemma inner_loop_ok:
  assumes "run_inv X ctx rn rs" "rn_ladder rn \<noteq> []"
  shows "\<exists>r. inner_loop X run rn iter rs = Some r \<and> (\<forall>rs'. r = Inr rs' \<longrightarrow> run_inv X ctx rn rs' \<and> rs_geo rs' = rs_geo rs)"
  using assms(1)
proof (induction "(if rs_poll_generated rs then 0 else 1 :: nat, work_left (length (rn_ladder rn)) rs)" arbitrary: rs
    rule: wf_induct_rule[OF wf_lex_prod[OF wf_less_than wf_less_than]])
  case (1 rs)
  show ?case
  proof (cases "rs_steps_left rs = 0 \<or> (\<forall>rs'. inner_body X run rn iter rs \<noteq> Inr (Next rs'))")
    case True
    show ?thesis
    proof (cases "rs_steps_left rs = 0")
      case True
      then show ?thesis using 1(2) by (simp add: inner_loop.simps)
    next
      case False
      with True have n: "\<nexists>rs'. inner_body X run rn iter rs = Inr (Next rs')" by simp
      show ?thesis
      proof (cases "inner_body X run rn iter rs")
        case (Inl p)
        with False show ?thesis by (simp add: inner_loop.simps)
      next
        case (Inr fl)
        with n obtain rs' where "fl = Stop rs'" by (cases fl) auto
        with False Inr inner_body_ok[OF Inr 1(2) assms(2)] show ?thesis by (simp add: inner_loop.simps)
      qed
    qed
  next
    case False
    then obtain rs' where b: "inner_body X run rn iter rs = Inr (Next rs')" "rs_steps_left rs \<noteq> 0" by auto
    note ok = inner_body_ok[OF b(1) 1(2) assms(2)]
    have "\<exists>r. inner_loop X run rn iter rs' = Some r \<and> (\<forall>rs''. r = Inr rs'' \<longrightarrow> run_inv X ctx rn rs'' \<and> rs_geo rs'' = rs_geo rs')"
      by (rule 1(1)) (use ok in auto)
    with b ok show ?thesis by (simp add: inner_loop.simps)
  qed
qed

lemma iteration_ok:
  assumes "run_inv X ctx rn rs" "rn_ladder rn \<noteq> []"
  shows "\<exists>r. iteration X so run rn iter rs = Some r \<and> (\<forall>rs'. r = Inr rs' \<longrightarrow> run_inv X ctx rn rs')"
proof (cases "propose_step X so rn iter (start_iteration rn rs)")
  case (Inl p)
  then show ?thesis by (simp add: iteration_def)
next
  case (Inr rs1)
  have "run_inv X ctx rn (start_iteration rn rs)" by (rule run_inv_cong[OF assms(1)]) (simp_all add: start_iteration_def)
  then have i1: "run_inv X ctx rn rs1" by (rule propose_step_inv[OF Inr _ assms(2)])
  have i2: "run_inv X ctx rn (start_steps rn rs1)" by (rule run_inv_cong[OF i1]) (simp_all add: start_steps_def)
  from inner_loop_ok[OF i2 assms(2), of iter] show ?thesis
    using end_iteration_inv by (auto simp: iteration_def Inr split: sum.split)
qed

lemma iterations_ok:
  assumes "run_inv X ctx rn rs" "rn_ladder rn \<noteq> []"
  shows "\<exists>r. iterations X so run rn is rs = Some r \<and> (\<forall>rs'. r = Inr rs' \<longrightarrow> run_inv X ctx rn rs')"
  using assms(1)
proof (induction "is" arbitrary: rs)
  case (Cons i "is")
  from iteration_ok[OF Cons.prems assms(2), of so i] obtain r where
    r: "iteration X so run rn i rs = Some r" "\<And>rs'. r = Inr rs' \<Longrightarrow> run_inv X ctx rn rs'" by blast
  show ?case
  proof (cases r)
    case (Inr rs')
    from Cons.IH[OF r(2)[OF Inr]] show ?thesis by (simp add: r(1) Inr)
  qed (simp add: r(1))
qed simp

end

interpretation inline: reliable_executor X "inline_runner X" for X
proof
  show "mset (map wo_item outs) = mset items \<and> (\<forall>out \<in> set outs. outcome_agrees X ctx out) \<and> caches_sound X ctx c'"
    if "caches_sound X ctx c" "\<forall>wi \<in> set items. wi_env_rev wi = cx_env_rev ctx" "inline_runner X ad ctx items c = Inr (outs, c')"
    for ctx c items ad outs c'
    using run_batch_inline_ok[OF that(1,2)] that(3) by (auto simp: inline_runner_def intro: outcome_matches_agrees)
  show "\<exists>outs c'. inline_runner X ad ctx items c = Inr (outs, c') \<and> (\<forall>out \<in> set outs. outcome_matches X ctx out)"
    if "evaluator_total (cx_evaluator ctx)" "caches_sound X ctx c" "\<forall>wi \<in> set items. wi_env_rev wi = cx_env_rev ctx"
    for ctx c items ad
    using run_batch_inline_total[OF that(1)] run_batch_inline_ok[OF that(2,3)] by (metis inline_runner_def)
qed

text \<open>A function that returns results which a run of the worker pool can return.\<close>

definition pool_conforms :: "extern \<Rightarrow> runner \<Rightarrow> bool" where
  "pool_conforms X run \<longleftrightarrow> (\<forall>ad ctx items c outs c'. run ad ctx items c = Inr (outs, c') \<longrightarrow>
     (\<exists>W ps sp s0 s. pool_init W c items s0 \<and> pool_reach X ctx ps items sp s0 s \<and> pl_main s = M_returned outs \<and> pl_caches s = c'))"

lemma outcome_good_agrees: "outcome_good X ctx out \<Longrightarrow> outcome_agrees X ctx out"
proof -
  have "outcome_agrees X ctx (outcome_panicked wi)" for wi by (simp add: outcome_agrees_def outcome_panicked_def)
  then show "outcome_good X ctx out \<Longrightarrow> outcome_agrees X ctx out"
    unfolding outcome_good_def by (metis outcome_matches_agrees)
qed

lemma pool_executor: "pool_conforms X run \<Longrightarrow> executor_contract X run"
proof
  show "mset (map wo_item outs) = mset items \<and> (\<forall>out \<in> set outs. outcome_agrees X ctx out) \<and> caches_sound X ctx c'"
    if conf: "pool_conforms X run" and cs: "caches_sound X ctx c" and rev: "\<forall>wi \<in> set items. wi_env_rev wi = cx_env_rev ctx"
      and r: "run ad ctx items c = Inr (outs, c')" for ctx c items ad outs c'
  proof -
    from conf r obtain W ps sp s0 s where p: "pool_init W c items s0" "pool_reach X ctx ps items sp s0 s"
      "pl_main s = M_returned outs" "pl_caches s = c'" unfolding pool_conforms_def by blast
    have "pool_inv X ctx items s" by (rule reach_inv[OF p(2,1) cs rev])
    then show ?thesis using p(3,4) outcome_good_agrees by (auto simp: pool_inv_def pool_core_def)
  qed
qed

subsection \<open>Runs\<close>

text \<open>The caches an engine brings into a run agree with the black box of the run; empty caches do.\<close>

definition caches_fit :: "extern \<Rightarrow> bool \<Rightarrow> 's search_ops \<Rightarrow> engine_cfg \<Rightarrow> env \<Rightarrow> nat \<Rightarrow> evaluator \<Rightarrow> 's engine \<Rightarrow> bool" where
  "caches_fit X threads so cfg e workers ev eg \<longleftrightarrow> (case engine_init X threads so cfg e workers ev eg of
     Inl _ \<Rightarrow> True | Inr (rn, rs) \<Rightarrow> caches_sound X (run_exec_ctx rn rs) (eg_caches eg))"

text \<open>What \<open>engine_init\<close> computes from the configuration alone.\<close>

lemma engine_initE:
  assumes "engine_init X threads so cfg e workers ev eg = Inr (rn, rs)"
  obtains dk ladder geo where "dk_configure (calib_cfg_of cfg) (dk_init (ec_num_constraints cfg) (eg_calibrator eg)) = Inr dk"
    "(case resolve_ladder_levels cfg (resolved_dim cfg ev) of (tau, smc) \<Rightarrow> build_ladder tau smc) = Inr ladder" "ladder \<noteq> []"
    "init_geo cfg (resolved_dim cfg ev) = Inr geo"
    "rn = init_consts cfg e ev ladder geo (sch_configure workers (eg_scheduler eg))"
    "\<exists>eg1. rs = init_state X cfg ladder geo eg1 \<and> eg_caches eg1 = eg_caches eg \<and> eg_calibrator eg1 = dk
       \<and> eg_scheduler eg1 = sch_configure workers (eg_scheduler eg) \<and> eg_audit eg1 = eg_audit eg
       \<and> eg_search eg1 = so_reset so e (eg_search eg) \<and> eg_dids eg1 = dids_init (ec_num_constraints cfg) (eg_dids eg)"
proof -
  obtain tau smc where lv: "resolve_ladder_levels cfg (resolved_dim cfg ev) = (tau, smc)" by (metis surj_pair)
  from assms obtain dk ladder geo eg1 where
    d: "dk_configure (calib_cfg_of cfg) (dk_init (ec_num_constraints cfg) (eg_calibrator eg)) = Inr dk"
    "build_ladder tau smc = Inr ladder" "ladder \<noteq> []" "init_geo cfg (resolved_dim cfg ev) = Inr geo"
    and eg1: "configure_engine threads so cfg e workers eg = Inr eg1"
    and r: "rn = init_consts cfg e ev ladder geo (eg_scheduler eg1)" "rs = init_state X cfg ladder geo eg1"
    by (auto simp: engine_init_def configure_engine_def res_bind_Inr Let_def lv split: if_splits)
  show thesis
    by (rule that[of dk ladder geo]) (use d r eg1 lv in \<open>auto simp: configure_engine_def res_bind_Inr Let_def\<close>)
qed

lemma init_state_fields:
  "rs_cands (init_state X cfg ladder geo eg) = []" "rs_index (init_state X cfg ladder geo eg) = Map.empty"
  "rs_geo (init_state X cfg ladder geo eg) = geo" "eg_caches (rs_engine (init_state X cfg ladder geo eg)) = eg_caches eg"
  "rs_accept (init_state X cfg ladder geo eg) = acceptance_state_new (accept_cfg_of cfg)"
  "rs_x_best (init_state X cfg ladder geo eg) = None" "rs_f_best (init_state X cfg ladder geo eg) = None"
  "eg_calibrator (rs_engine (init_state X cfg ladder geo eg)) = eg_calibrator eg"
  "eg_search (rs_engine (init_state X cfg ladder geo eg)) = eg_search eg"
  "eg_scheduler (rs_engine (init_state X cfg ladder geo eg)) = eg_scheduler eg"
  "eg_audit (rs_engine (init_state X cfg ladder geo eg)) = eg_audit eg"
  "rs_chunk_base (init_state X cfg ladder geo eg) = clamp_chunk cfg (ec_executor_chunk_base cfg)"
  by (simp_all add: init_state_def split: prod.splits)

lemma engine_init_inv:
  assumes "engine_init X threads so cfg e workers ev eg = Inr (rn, rs)"
    and "caches_sound X (run_exec_ctx rn rs) (eg_caches eg)"
  shows "rn_ladder rn \<noteq> [] \<and> run_inv X (run_exec_ctx rn rs) rn rs"
  using assms(1)
proof (cases rule: engine_initE)
  case (1 dk ladder geo)
  then obtain eg1 where rs: "rs = init_state X cfg ladder geo eg1" "eg_caches eg1 = eg_caches eg" by blast
  have "rn_ladder rn = ladder" "rn_accept_cfg rn = accept_cfg_of cfg" using 1(5) by (simp_all add: init_consts_def)
  moreover have "bs_h (barrier_new (accept_cfg_of cfg)) \<le> bs_h (barrier_new (accept_cfg_of cfg))"
    using f_le_D[OF barrier_new_ok[unfolded barrier_ok_def]] by (intro f_le_refl) (simp add: acceptance_state_new_def)
  ultimately show ?thesis using 1(3) assms(2) barrier_new_ok[of "accept_cfg_of cfg"]
    by (simp add: run_inv_def store_ok_def flight_in_def incumbent_ok_def truth_of_def barrier_inv_def start_barrier_def
        init_consts_def barrier_ok_def rs init_state_fields acceptance_state_new_def)
qed

lemma run_with_evaluatorE:
  assumes "run_with_evaluator X threads so run cfg e workers ev eg = Some (Inr (out, eg'))"
  obtains rn rs rs' where "engine_init X threads so cfg e workers ev eg = Inr (rn, rs)"
    "iterations X so run rn [0..<ec_max_iters cfg] rs = Some (Inr rs')" "out = engine_output_of rs'" "eg' = rs_engine rs'"
  using assms by (auto simp: run_with_evaluator_def split: sum.splits option.splits prod.splits)

text \<open>Starting again from an engine with other caches and policies gives the same context.\<close>

lemma engine_init_again:
  assumes "engine_init X threads so cfg e workers ev eg = Inr (rn, rs)"
    and "engine_init X threads so cfg e workers ev eg' = Inr (rn', rs')"
  shows "run_exec_ctx rn' rs' = run_exec_ctx rn rs"
  using assms(1)
proof (cases rule: engine_initE)
  case (1 dk ladder geo)
  note one = this
  from assms(2) show ?thesis
  proof (cases rule: engine_initE)
    case (1 dk' ladder' geo')
    with one show ?thesis by (auto simp: run_exec_ctx_def init_consts_def init_state_fields)
  qed
qed

end
