(* ===== verification/Engine_Total.thy ===== *)
theory Engine_Total
  imports Engine_Run
begin

text \<open>
  No run panics: when the configuration is accepted, the black box does not panic and
  declares an objective (or has no estimate to offer), and the base
  step is below \<open>2 ^ 800\<close>, every \<open>unwrap\<close>, \<open>expect\<close>, \<open>assert\<close>, index and comparison of the engine loop succeeds. The
  search policy enters through \<open>search_policy\<close>, the executor through \<open>reliable_executor\<close>.
\<close>

subsection \<open>What keeps the engine from panicking\<close>

text \<open>A mesh point of dimension \<open>D\<close> with 64-bit coordinates.\<close>

definition pt_ok :: "nat \<Rightarrow> xmesh \<Rightarrow> bool" where
  "pt_ok D x \<longleftrightarrow> length x = D \<and> (\<forall>u \<in> set x. i64_ok u)"

definition cand_dom :: "nat \<Rightarrow> cand \<Rightarrow> bool" where
  "cand_dom D c \<longleftrightarrow> pt_ok D (cd_x c) \<and> \<not> is_nan (cd_base_score c)"

definition geo_ok :: "nat \<Rightarrow> aniso_geo \<Rightarrow> bool" where
  "geo_ok D geo \<longleftrightarrow> D \<le> length (ag_base_steps geo) \<and> length (ag_mesh_muls geo) = length (ag_base_steps geo)
     \<and> (\<forall>s \<in> set (ag_base_steps geo). mag_le 800 s) \<and> (\<forall>mm \<in> set (ag_mesh_muls geo). i64_ok mm)"

definition safe_inv :: "('s \<Rightarrow> bool) \<Rightarrow> nat \<Rightarrow> nat \<Rightarrow> 's run_state \<Rightarrow> bool" where
  "safe_inv Q m D rs \<longleftrightarrow> dk_inv m (eg_calibrator (rs_engine rs)) \<and> da_modulus (eg_audit (rs_engine rs)) \<noteq> 0
     \<and> (\<forall>c \<in> set (rs_cands rs). cand_dom D c) \<and> (\<forall>x. rs_x_best rs = Some x \<longrightarrow> pt_ok D x) \<and> geo_ok D (rs_geo rs)
     \<and> Q (eg_search (rs_engine rs))"

text \<open>
  The first objective of an incumbent can be indexed: the black box declares an objective, or never has an estimate.
\<close>

definition objective_safe :: "evaluator \<Rightarrow> bool" where
  "objective_safe ev \<longleftrightarrow> 0 < ev_num_objectives ev \<or> (\<forall>x p e est. compute_estimates ev x p e \<noteq> Inr (Some est))"

lemma objective_safeI: "0 < ev_num_objectives ev \<Longrightarrow> objective_safe ev"
  by (simp add: objective_safe_def)

text \<open>The engine's inputs within the ranges of their machine types.\<close>

definition consts_ok :: "nat \<Rightarrow> run_consts \<Rightarrow> bool" where
  "consts_ok D rn \<longleftrightarrow> D = max (rn_dim rn) 1 \<and> D < 2 ^ 63 \<and> rn_ladder rn \<noteq> [] \<and> length (rn_ladder rn) < 2 ^ 64
     \<and> evaluator_total (rn_evaluator rn) \<and> objective_safe (rn_evaluator rn)"

subsection \<open>Materialising and completing\<close>

lemma draw_audit_total: "da_modulus (mx_audit mx) \<noteq> 0 \<Longrightarrow> \<exists>cd'. draw_audit mx wi j p est cd = Inr cd'"
  by (simp add: draw_audit_def should_audit_def)

lemma materialize_cached_total: "da_modulus (mx_audit mx) \<noteq> 0 \<Longrightarrow> \<exists>r. materialize_cached mx wi v cd = Inr r"
proof (cases v)
  case (EarlyInfeasible j est m)
  assume "da_modulus (mx_audit mx) \<noteq> 0"
  then obtain cd' where "draw_audit mx wi j (em_phi m) est (note_estimates wi est cd) = Inr cd'" using draw_audit_total by blast
  then show ?thesis by (auto simp: EarlyInfeasible Let_def)
qed (simp_all add: Let_def)

lemma mat_step_total: "da_modulus (mx_audit mx) \<noteq> 0 \<Longrightarrow> \<exists>r. mat_step mx wi est cost cd = Inr r"
proof -
  assume m: "da_modulus (mx_audit mx) \<noteq> 0"
  have "\<exists>r. mat_cut mx wi j est cost cd = Inr r" for j
    using draw_audit_total[OF m, of wi j "wi_phi wi" est cd] by (auto simp: mat_cut_def Let_def)
  then show ?thesis by (auto simp: mat_step_def split: option.split)
qed

lemma materialize_total:
  assumes m: "da_modulus (mx_audit mx) \<noteq> 0" and ev: "evaluator_total (mx_evaluator mx)" and out: "outcome_matches X ctx out"
  shows "\<exists>r. materialize X mx out cd st dc = Inr r"
proof (cases "wo_cached_decision out")
  case (Some v)
  with materialize_cached_total[OF m, of "wo_item out" v cd] show ?thesis by (auto simp: materialize_def Let_def)
next
  case None
  with out obtain est where est: "wo_estimates out = Some est" by (auto simp: outcome_matches_def)
  have "\<exists>v cd1. check_cheap X mx cd = Inr (v, cd1)"
  proof (cases "mesh_to_real_aniso X (cd_x cd) (mx_base_steps mx)")
    case (Some xr)
    obtain b where "ev_cheap (mx_evaluator mx) xr (mx_env mx) = Inr b" using ev unfolding evaluator_total_def by blast
    with Some show ?thesis by (simp add: check_cheap_def Let_def)
  qed (simp add: check_cheap_def Let_def)
  then obtain v cd1 where cc: "check_cheap X mx cd = Inr (v, cd1)" by blast
  obtain job cd3 where st3: "mat_step mx (wo_item out) est (wo_runtime_cost out) (note_estimates (wo_item out) est cd1) = Inr (job, cd3)"
    using mat_step_total[OF m] by (metis surj_pair)
  show ?thesis
    by (cases v) (auto simp: materialize_def Let_def None est cc st3 split: prod.split)
qed

text \<open>A completion replaces one candidate by itself, moved.\<close>

lemma complete_one_cands:
  assumes run: "complete_one X rn th out rs = Inr (e, rs')" and st: "store_ok (length (rn_ladder rn)) rs"
    and it: "item_ok rn rs (wo_item out)" and ag: "outcome_agrees X ctx out" and ctx: "ctx = run_exec_ctx rn rs"
  shows "\<exists>pos c. pos < length (rs_cands rs) \<and> rs_cands rs' = (rs_cands rs)[pos := c] \<and> cd_x c = cd_x (rs_cands rs ! pos)
    \<and> cd_base_score c = cd_base_score (rs_cands rs ! pos) \<and> rs_x_best rs' \<in> {rs_x_best rs, Some (cd_x c)}"
proof -
  let ?L = "length (rn_ladder rn)" and ?wi = "wo_item out" and ?mx = "run_mat_ctx rn th rs"
  obtain pos where pos: "rs_index rs (wi_cand_id ?wi) = Some pos" using it by (auto simp: item_ok_def)
  obtain job c st1 dc where mat: "materialize X ?mx out (rs_cands rs ! pos) (rs_stats rs) (ch_decision (eg_caches (rs_engine rs)))
      = Inr (job, c, st1, dc)" and rs': "rs' = accept_job rn c (mj_result job) (set_cand pos c (rs\<lparr>rs_engine :=
        after_job (wi_cand_id ?wi) ?wi c (mj_result job) ((rs_engine rs)\<lparr>eg_caches := (eg_caches (rs_engine rs))\<lparr>ch_decision := dc\<rparr>\<rparr>),
        rs_stats := st1\<rparr>))"
    using run pos by (auto simp: complete_one_def Let_def res_bind_Inr)
  have p: "pos < length (rs_cands rs)" "cand_ok ?L (rs_cands rs ! pos)" using store_pos[OF st pos] by auto
  have wi: "wi_phi_idx ?wi < ?L" "wi_env_rev ?wi = cx_env_rev ctx" "cx_ladder_len ctx = ?L"
    using it by (simp_all add: item_ok_def ctx run_exec_ctx_def)
  have mx: "mx_ladder ?mx = rn_ladder rn" by (simp add: run_mat_ctx_def)
  have "moved ?L (wi_phi_idx ?wi) (rs_cands rs ! pos) c"
    using materialize_moved[OF mat, unfolded mx] p(2) wi outcome_agrees_cut[OF ag] by (simp add: cand_ok_def)
  moreover have "rs_cands rs' = (rs_cands rs)[pos := c]" "rs_x_best rs' \<in> {rs_x_best rs, Some (cd_x c)}"
    unfolding rs' by (simp_all add: accept_job_frame)
      (auto simp: accept_job_def split: job_result.split prod.split truth_decision.split)
  ultimately show ?thesis using p(1) by (intro exI[of _ pos] exI[of _ c]) (simp add: moved_def)
qed

lemma complete_one_safe:
  assumes run: "complete_one X rn th out rs = Inr (e, rs')" and st: "store_ok (length (rn_ladder rn)) rs"
    and it: "item_ok rn rs (wo_item out)" and ag: "outcome_agrees X ctx out" and ctx: "ctx = run_exec_ctx rn rs"
    and fr: "same_frame rs rs'" and safe: "safe_inv Q m D rs"
  shows "safe_inv Q m D rs'"
proof -
  obtain pos c where pos: "pos < length (rs_cands rs)" "rs_cands rs' = (rs_cands rs)[pos := c]"
    "cd_x c = cd_x (rs_cands rs ! pos)" "cd_base_score c = cd_base_score (rs_cands rs ! pos)"
    "rs_x_best rs' \<in> {rs_x_best rs, Some (cd_x c)}" using complete_one_cands[OF run st it ag ctx] by blast
  have "cand_dom D (rs_cands rs ! pos)" using safe pos(1) by (simp add: safe_inv_def)
  then have c: "cand_dom D c" "pt_ok D (cd_x c)" using pos by (simp_all add: cand_dom_def)
  have "\<forall>d \<in> set (rs_cands rs'). cand_dom D d"
    using safe c pos(2) by (auto simp: safe_inv_def dest: set_update_subset_insert[THEN subsetD])
  then show ?thesis using safe fr pos(5) c(2) by (auto simp: safe_inv_def same_frame_def)
qed

lemma complete_one_total:
  assumes it: "item_ok rn rs (wo_item out)" and safe: "safe_inv Q m D rs" and ok: "consts_ok D rn" and out: "outcome_matches X ctx out"
  shows "\<exists>e rs'. complete_one X rn th out rs = Inr (e, rs')"
proof -
  obtain pos where pos: "rs_index rs (wi_cand_id (wo_item out)) = Some pos" using it by (auto simp: item_ok_def)
  have "\<exists>r. materialize X (run_mat_ctx rn th rs) out (rs_cands rs ! pos) (rs_stats rs) (ch_decision (eg_caches (rs_engine rs))) = Inr r"
    by (rule materialize_total[OF _ _ out]) (use safe ok in \<open>simp_all add: run_mat_ctx_def safe_inv_def consts_ok_def\<close>)
  then show ?thesis by (auto simp: complete_one_def Let_def pos)
qed

lemma complete_all_total:
  assumes "store_ok (length (rn_ladder rn)) rs" "distinct (map (wi_cand_id \<circ> wo_item) outs)"
    and "\<forall>out \<in> set outs. item_ok rn rs (wo_item out) \<and> outcome_matches X ctx out"
    and "run_exec_ctx rn rs = ctx" "caches_sound X ctx (eg_caches (rs_engine rs))" "incumbent_ok X ctx rn rs"
    and "safe_inv Q m D rs" "consts_ok D rn"
  shows "\<exists>es rs'. complete_all X rn th outs rs = Inr (es, rs') \<and> safe_inv Q m D rs'"
  using assms
proof (induction outs arbitrary: rs)
  case (Cons out outs)
  have it: "item_ok rn rs (wo_item out)" "outcome_matches X ctx out" using Cons.prems(3) by simp_all
  obtain e rs1 where one: "complete_one X rn th out rs = Inr (e, rs1)"
    using complete_one_total[OF it(1) Cons.prems(7,8) it(2)] by blast
  note ok = complete_one_ok[OF one Cons.prems(1) it(1) outcome_matches_agrees[OF it(2)] Cons.prems(4)[symmetric] Cons.prems(5,6)]
  have fr: "same_frame rs rs1" using ok by simp
  have safe: "safe_inv Q m D rs1"
    by (rule complete_one_safe[OF one Cons.prems(1) it(1) outcome_matches_agrees[OF it(2)] Cons.prems(4)[symmetric] fr Cons.prems(7)])
  have "\<forall>o' \<in> set outs. item_ok rn rs1 (wo_item o') \<and> outcome_matches X ctx o'"
    using ok Cons.prems(2,3) by (auto simp: image_iff)
  then have "\<exists>es rs'. complete_all X rn th outs rs1 = Inr (es, rs') \<and> safe_inv Q m D rs'"
    using ok Cons.prems(2,4,8) same_frame_ctx[OF fr] safe by (intro Cons.IH) auto
  with one show ?case by auto
qed simp

lemma batch_boundary_total:
  assumes "safe_inv Q m D rs"
  shows "\<exists>rs'. batch_boundary X rn events rs = Inr rs' \<and> safe_inv Q m D rs'"
proof -
  obtain delta dk where u: "dk_update X (sort_by (\<lambda>a b. ce_id a \<le> ce_id b) events) (eg_calibrator (rs_engine rs)) = Inr (delta, dk)"
    "dk_inv m dk" using dk.update_ok[of m "eg_calibrator (rs_engine rs)" X] assms unfolding safe_inv_def by blast
  then have "\<exists>rs'. batch_boundary X rn events rs = Inr rs'" by (simp add: batch_boundary_def Let_def split: prod.split)
  then obtain rs' where rs': "batch_boundary X rn events rs = Inr rs'" by blast
  then have "eg_calibrator (rs_engine rs') = dk" using u(1) by (elim batch_boundaryE) simp
  with rs' u(2) assms batch_boundary_frame[OF rs'] show ?thesis by (simp add: safe_inv_def)
qed

subsection \<open>Scores are numbers\<close>

lemma diff_not_nan: "\<not> is_nan x \<Longrightarrow> is_finite y \<Longrightarrow> \<not> is_nan (x - y :: f64)"
proof (cases "is_finite x")
  case True
  then show "is_finite y \<Longrightarrow> \<not> is_nan (x - y)"
    using add_not_nan[of x "- y"] finite_not_nan[of y] by (simp add: minus_f64_def)
next
  case False
  then show "\<not> is_nan x \<Longrightarrow> is_finite y \<Longrightarrow> \<not> is_nan (x - y)"
    using finite_minus[of y] by (simp add: minus_f64_def plus_f64_def finite_iff)
qed

lemma f_min_not_nan: "\<not> is_nan x \<Longrightarrow> \<not> is_nan (f_min x y)"
  by (simp add: f_min_def)

lemma nat_weight_finite: "k < 2 ^ 64 \<Longrightarrow> 0 < b \<Longrightarrow> is_finite (f_of_int (int k) * f_lit 1 b)"
proof -
  assume k: "k < 2 ^ 64" and b: "0 < b"
  have "\<bar>int k\<bar> \<le> 2 ^ 64" using k by simp
  then have "mag_le 64 (f_of_int (int k))" by (rule mag_le_of_int)
  moreover have "mag_le 0 (f_lit 1 b)" using b by (intro mag_le_lit) simp_all
  ultimately have "mag_le (64 + 0) (f_of_int (int k) * f_lit 1 b)" by (rule mag_le_times) simp_all
  then show ?thesis by (rule mag_le_finite) simp
qed

lemma ready_score_num:
  assumes "cand_dom D c" "epoch < 2 ^ 64" "cd_next_phi_idx c < 2 ^ 64"
  shows "\<not> is_nan (ready_score th epoch c)"
proof -
  have big: "is_finite (f_of_int (10 ^ 12))" by (rule f_of_int_finite) simp
  have "epoch - cd_created_epoch c < 2 ^ 64" using assms(2) by simp
  then have age: "is_finite (f_of_int (int (epoch - cd_created_epoch c)) * f_lit 1 (10 ^ 9))" by (rule nat_weight_finite) simp
  have idx: "is_finite (f_of_int (int (cd_next_phi_idx c)) * f_lit 1 (10 ^ 6))" using assms(3) by (rule nat_weight_finite) simp
  define s1 where "s1 = (if cd_audit_required c then cd_base_score c - f_of_int (10 ^ 12) else cd_base_score c)"
  define s2 where "s2 = s1 - f_of_int (int (epoch - cd_created_epoch c)) * f_lit 1 (10 ^ 9)"
  have "\<not> is_nan s1" using assms(1) diff_not_nan[OF _ big] by (simp add: s1_def cand_dom_def)
  then have s2: "\<not> is_nan s2" unfolding s2_def using age by (rule diff_not_nan)
  have "\<not> is_nan (case cd_last_estimates c of None \<Rightarrow> s2 | Some est \<Rightarrow> f_min s2 (fst (objective_bounds est th)))"
    using s2 f_min_not_nan by (simp split: option.split)
  then show ?thesis
    unfolding ready_score_def Let_def s1_def[symmetric] s2_def[symmetric] using idx by (rule diff_not_nan)
qed

lemma sort_scored_total: "\<forall>x \<in> set xs. \<not> is_nan (f x) \<Longrightarrow> \<exists>ys. sort_scored f k xs = Inr ys \<and> set ys = set xs"
  by (auto simp: sort_scored_def)

lemma ready_view_num:
  assumes "safe_inv Q m D rs" "store_ok (length (rn_ladder rn)) rs" "length (rn_ladder rn) < 2 ^ 64" "iter < 2 ^ 64"
    and "v \<in> set (make_ready_view th iter (rs_cands rs))"
  shows "\<not> is_nan (rv_score v)"
proof -
  from assms(5) obtain c where c: "c \<in> set (rs_cands rs)" "cd_status c = Ready" "v = ready_entry th iter c"
    by (auto simp: make_ready_view_def)
  with assms(1,2) have "cand_dom D c" "cand_ok (length (rn_ladder rn)) c" by (simp_all add: safe_inv_def store_ok_def)
  with c assms(3,4) show ?thesis by (simp add: ready_entry_def ready_score_num cand_ok_def)
qed

subsection \<open>Geometry\<close>

lemma current_steps_mag: "geo_ok D geo \<Longrightarrow> v \<in> set (ag_current_steps geo) \<Longrightarrow> mag_le 863 v"
proof -
  assume g: "geo_ok D geo" and "v \<in> set (ag_current_steps geo)"
  then obtain bs mm where v: "v = bs * f_of_int mm" "bs \<in> set (ag_base_steps geo)" "mm \<in> set (ag_mesh_muls geo)"
    by (auto simp: ag_current_steps_def dest: set_zip_leftD set_zip_rightD)
  with g have "mag_le 800 bs" "i64_ok mm" by (simp_all add: geo_ok_def)
  then have "mag_le (800 + 63) (bs * f_of_int mm)"
    by (intro mag_le_times mag_le_of_int) (auto simp: i64_ok_def I64_MIN_def I64_MAX_def)
  then show ?thesis by (simp add: v(1))
qed

lemma incumbent_real_ok:
  assumes "geo_ok D geo" "pt_ok D x"
  shows "\<exists>ix. incumbent_real geo x = Inr ix \<and> length ix = D \<and> (\<forall>v \<in> set ix. mag_le 864 v)"
proof (cases "x = []")
  case False
  with assms have ne: "ag_base_steps geo \<noteq> []" by (auto simp: geo_ok_def pt_ok_def)
  have "mag_le 864 (f_of_int u * get_or (ag_base_steps geo ! 0) (ag_base_steps geo) i)" if "u \<in> set x" for i u
  proof -
    have "get_or (ag_base_steps geo ! 0) (ag_base_steps geo) i \<in> set (ag_base_steps geo)"
      using ne by (simp add: get_or_def get_def)
    then have "mag_le (63 + 800) (f_of_int u * get_or (ag_base_steps geo ! 0) (ag_base_steps geo) i)"
      using assms that by (intro mag_le_times mag_le_of_int) (auto simp: geo_ok_def pt_ok_def i64_ok_def I64_MIN_def I64_MAX_def)
    then show ?thesis by (rule mag_le_mono) simp
  qed
  with ne assms(2) show ?thesis by (auto simp: incumbent_real_def in_set_enumerate_eq pt_ok_def)
qed (use assms(2) in \<open>simp add: incumbent_real_def pt_ok_def\<close>)

lemma geo_ok_refine: "geo_ok D geo \<Longrightarrow> geo_ok D (ag_refine geo)"
proof -
  assume g: "geo_ok D geo"
  have ok: "i64_ok (max (i64_div mm d) minm)" if "i64_ok mm" "mm > minm" "1 \<le> minm" "2 \<le> d" for mm minm d
  proof -
    have "i64_div mm d = mm div d" using that by (intro i64_div_pos) auto
    moreover have "mm div d \<le> mm" "0 \<le> mm div d" using that by (simp_all add: div_le_dividend_int pos_imp_zdiv_nonneg_iff)
    ultimately show ?thesis using that by (auto simp: i64_ok_def I64_MIN_def)
  qed
  show ?thesis using g ok[of _ "max (ag_mesh_mul_min geo) 1" "max (ag_refine_div geo) 2"]
    by (auto simp: geo_ok_def ag_refine_def Let_def)
qed

lemma poll_points_ok: "pt_ok D x \<Longrightarrow> p \<in> set (generate_points_aniso x steps) \<Longrightarrow> pt_ok D p"
  by (auto simp: generate_points_aniso_def poll_pair_def pt_ok_def Let_def dest: set_update_subset_insert[THEN subsetD])

lemma quantize_ok: "quantize_aniso_from geo i xs = Inr x \<Longrightarrow> \<forall>u \<in> set x. i64_ok u"
  by (induction geo i xs arbitrary: x rule: quantize_aniso_from.induct) (auto simp: Let_def split: if_splits sum.splits)

subsection \<open>The inner loop does not panic\<close>

lemma safe_inv_cong:
  assumes "safe_inv Q m D rs" "eg_calibrator (rs_engine rs') = eg_calibrator (rs_engine rs)"
    and "eg_audit (rs_engine rs') = eg_audit (rs_engine rs)" "rs_cands rs' = rs_cands rs" "rs_x_best rs' = rs_x_best rs"
    and "rs_geo rs' = rs_geo rs" "eg_search (rs_engine rs') = eg_search (rs_engine rs)"
  shows "safe_inv Q m D rs'"
  using assms by (simp add: safe_inv_def)

lemma dispatch_safe:
  assumes "dispatch rn ids rs = (wis, rs')" "\<forall>c \<in> set (rs_cands rs). cand_dom D c" "store_ok L rs"
  shows "\<forall>c \<in> set (rs_cands rs'). cand_dom D c"
  using assms
proof (induction ids arbitrary: rs wis rs')
  case (Cons i ids)
  show ?case
  proof (cases "rs_index rs i")
    case (Some pos)
    define c where "c = rs_cands rs ! pos"
    define k where "k = cd_next_phi_idx c"
    show ?thesis
    proof (cases "cd_status c \<noteq> Ready \<or> k \<ge> length (rn_ladder rn)")
      case True
      then show ?thesis using Cons Some by (simp add: c_def k_def Let_def)
    next
      case False
      define c' where "c' = c\<lparr>cd_status := InFlight k, cd_submitted_policy_rev := rs_policy_rev rs,
               cd_submitted_incumbent_id := rs_incumbent_id rs\<rparr>"
      obtain wis1 where d: "dispatch rn ids (set_cand pos c' rs) = (wis1, rs')"
        using Cons.prems(1) Some False by (auto simp: Let_def c'_def simp flip: c_def k_def split: prod.splits)
      have p: "pos < length (rs_cands rs)" "cd_id c = i" "cand_ok L c" using store_pos[OF Cons.prems(3) Some] by (simp_all add: c_def)
      then have c: "cand_dom D c'" using Cons.prems(2) by (simp add: c'_def cand_dom_def c_def)
      have "store_ok L (set_cand pos c' rs)"
        by (rule set_cand_store[OF Cons.prems(3) Some]) (use p False in \<open>simp_all add: c'_def cand_ok_def origin_ok_def k_def\<close>)
      with Cons.IH[OF d] c Cons.prems(2) show ?thesis by (auto dest: set_update_subset_insert[THEN subsetD])
    qed
  qed (use Cons in simp)
qed simp

lemma ingest_safe:
  assumes "safe_inv Q m D rs" "pt_ok D x" "\<not> is_nan score"
  shows "safe_inv Q m D (ingest iter (i, x, score) rs)"
  using assms by (auto simp: safe_inv_def ingest_def new_cand_def cand_dom_def)

lemma ingests_safe:
  assumes "safe_inv Q m D rs" "\<forall>q \<in> set ps. pt_ok D (fst (snd q)) \<and> \<not> is_nan (snd (snd q))"
  shows "safe_inv Q m D (fold (ingest iter) ps rs)"
  using assms
proof (induction ps arbitrary: rs)
  case (Cons q ps)
  have "safe_inv Q m D (ingest iter q rs)" using ingest_safe[of Q m D rs "fst (snd q)" "snd (snd q)" iter "fst q"] Cons.prems by simp
  with Cons show ?case by simp
qed simp

lemma poll_inject_safe:
  assumes "safe_inv Q m D rs" "rs_x_best rs = Some x"
  shows "safe_inv Q m D (poll_inject iter x rs)"
proof -
  define ps where "ps = map (\<lambda>(d, y). (poll_id iter d, y, f_inf)) (enumerate 0 (generate_points_aniso x (ag_poll_step_units (rs_geo rs))))"
  have x: "pt_ok D x" using assms by (simp add: safe_inv_def)
  have "pt_ok D y" if "(d, y) \<in> set (enumerate 0 (generate_points_aniso x (ag_poll_step_units (rs_geo rs))))" for d y
    using poll_points_ok[OF x set_zip_rightD[OF that[unfolded enumerate_eq_zip]]] .
  then have "\<forall>q \<in> set ps. pt_ok D (fst (snd q)) \<and> \<not> is_nan (snd (snd q))"
    by (fastforce simp: ps_def is_nan_def)
  then have "safe_inv Q m D (fold (ingest iter) ps rs)" using ingests_safe[OF assms(1)] by blast
  moreover have "poll_inject iter x rs = (fold (ingest iter) ps rs)\<lparr>rs_poll_generated := True\<rparr>"
    by (simp add: poll_inject_def ps_def fold_map comp_def case_prod_unfold)
  ultimately show ?thesis by (simp add: safe_inv_def)
qed

context reliable_executor
begin

lemma batch_step_total:
  assumes st: "store_ok (length (rn_ladder rn)) rs"
    and d: "distinct (map wi_cand_id work)" and it: "\<forall>wi \<in> set work. item_ok rn rs wi" and ctx: "run_exec_ctx rn rs = ctx"
    and cs: "caches_sound X ctx (eg_caches (rs_engine rs))" and inc: "incumbent_ok X ctx rn rs"
    and safe: "safe_inv Q m D rs" and ok: "consts_ok D rn"
  shows "\<exists>rs'. run_batch_step X run rn th work rs = Inr rs' \<and> safe_inv Q m D rs'"
proof -
  let ?L = "length (rn_ladder rn)" and ?ad = "set_executor rn rs"
  have rev: "\<forall>wi \<in> set work. wi_env_rev wi = cx_env_rev ctx" using it by (simp add: item_ok_def run_exec_ctx_def flip: ctx)
  have "evaluator_total (cx_evaluator ctx)" using ok by (simp add: consts_ok_def run_exec_ctx_def flip: ctx)
  then obtain outs c where b: "run ?ad ctx work (eg_caches (rs_engine rs)) = Inr (outs, c)" "\<forall>out \<in> set outs. outcome_matches X ctx out"
    using run_total[OF _ cs rev] by blast
  define sorted where "sorted = sort_by (\<lambda>a b. wi_cand_id (wo_item a) \<le> wi_cand_id (wo_item b)) outs"
  define rs1 where "rs1 = rs\<lparr>rs_engine := (rs_engine rs)\<lparr>eg_caches := c, eg_executor := ?ad\<rparr>,
       rs_stats := fold (\<lambda>out. update_stats_from_outcome out ?L) sorted (rs_stats rs)\<rparr>"
  note ex = run_ok[OF cs rev b(1)]
  have ms: "mset (map wo_item sorted) = mset work" using ex by (simp add: sorted_def)
  have set: "wo_item ` set sorted = set work" using ms by (metis list.set_map set_mset_mset)
  have "distinct (map wi_cand_id (map wo_item sorted))"
    using d ms by (metis distinct_count_atmost_1 mset_map set_mset_mset)
  then have d1: "distinct (map (wi_cand_id \<circ> wo_item) sorted)" by simp
  have st1: "store_ok ?L rs1" "run_exec_ctx rn rs1 = ctx" "incumbent_ok X ctx rn rs1" "\<And>wi. item_ok rn rs1 wi = item_ok rn rs wi"
    "safe_inv Q m D rs1" "caches_sound X ctx (eg_caches (rs_engine rs1))"
    using st ctx inc safe ex by (simp_all add: rs1_def store_ok_def run_exec_ctx_def incumbent_ok_def barrier_inv_def item_ok_def safe_inv_def)
  have "\<forall>out \<in> set sorted. item_ok rn rs1 (wo_item out) \<and> outcome_matches X ctx out"
    using it set b(2) by (auto simp: st1(4) sorted_def)
  then obtain events rs2 where all: "complete_all X rn th sorted rs1 = Inr (events, rs2)" "safe_inv Q m D rs2"
    using complete_all_total[OF st1(1) d1 _ st1(2,6,3,5) ok] by blast
  obtain rs3 where bb: "batch_boundary X rn events rs2 = Inr rs3" "safe_inv Q m D rs3" using batch_boundary_total[OF all(2)] by blast
  have "run_batch_step X run rn th work rs = Inr (rs3\<lparr>rs_chunk_base := tune_chunk (rn_cfg rn) sorted (rs_chunk_base rs3),
             rs_steps_left := rs_steps_left rs3 - length sorted\<rparr>)"
    using b(1) all(1) bb(1) by (simp add: run_batch_step_def Let_def ctx sorted_def rs1_def)
  with bb(2) show ?thesis by (auto simp: safe_inv_def)
qed

lemma inner_body_total:
  assumes inv: "run_inv X ctx rn rs" and safe: "safe_inv Q m D rs" and ok: "consts_ok D rn" and iter: "iter < 2 ^ 64"
  shows "\<exists>fl. inner_body X run rn iter rs = Inr fl \<and> (case fl of Next rs' \<Rightarrow> safe_inv Q m D rs' | Stop rs' \<Rightarrow> safe_inv Q m D rs')"
proof -
  let ?th = "run_thresholds rs"
  let ?view = "make_ready_view ?th iter (rs_cands rs)"
  have st: "store_ok (length (rn_ladder rn)) rs" using inv by (simp add: run_inv_def)
  show ?thesis
  proof (cases "?view = []")
    case True
    then show ?thesis using safe poll_inject_safe[OF safe] by (auto simp: inner_body_def Let_def split: option.split)
  next
    case False
    have "\<forall>v \<in> set ?view. \<not> is_nan (rv_score v)"
      using ready_view_num[OF safe st _ iter] ok by (auto simp: consts_ok_def)
    then obtain sorted where srt: "sort_scored rv_score rv_id ?view = Inr sorted" using sort_scored_total by metis
    let ?picked = "sch_select_next sorted (eg_scheduler (rs_engine rs))"
    let ?ids = "take (min (min (length ?picked) (rn_boundary rn)) (rs_steps_left rs)) ?picked"
    obtain work rs1 where d: "dispatch rn ?ids rs = (work, rs1)" by (metis surj_pair)
    note dd = dispatch_ok[OF d st]
    obtain cs where rs1: "rs1 = rs\<lparr>rs_cands := cs\<rparr>" using dd by blast
    have "\<forall>c \<in> set (rs_cands rs). cand_dom D c" using safe by (simp add: safe_inv_def)
    then have safe1: "safe_inv Q m D rs1" using dispatch_safe[OF d _ st] safe by (simp add: rs1 safe_inv_def)
    have fr: "run_exec_ctx rn rs1 = ctx" "caches_sound X ctx (eg_caches (rs_engine rs1))" "incumbent_ok X ctx rn rs1"
      using inv by (simp_all add: rs1 run_inv_def run_exec_ctx_def incumbent_ok_def barrier_inv_def)
    have "\<exists>rs2. run_batch_step X run rn ?th work rs1 = Inr rs2 \<and> safe_inv Q m D rs2"
      by (rule batch_step_total[OF _ _ _ fr safe1 ok]) (use dd in auto)
    then obtain rs2 where b: "run_batch_step X run rn ?th work rs1 = Inr rs2" "safe_inv Q m D rs2" by blast
    show ?thesis using False safe safe1 b by (simp add: inner_body_def Let_def srt d)
  qed
qed

lemma inner_loop_total:
  assumes "run_inv X ctx rn rs" "safe_inv Q m D rs" "consts_ok D rn" "iter < 2 ^ 64"
  shows "\<exists>rs'. inner_loop X run rn iter rs = Some (Inr rs') \<and> run_inv X ctx rn rs' \<and> safe_inv Q m D rs'"
  using assms(1,2)
proof (induction "(if rs_poll_generated rs then 0 else 1 :: nat, work_left (length (rn_ladder rn)) rs)" arbitrary: rs
    rule: wf_induct_rule[OF wf_lex_prod[OF wf_less_than wf_less_than]])
  case (1 rs)
  have L: "rn_ladder rn \<noteq> []" using assms(3) by (simp add: consts_ok_def)
  obtain fl where b: "inner_body X run rn iter rs = Inr fl" "case fl of Next rs' \<Rightarrow> safe_inv Q m D rs' | Stop rs' \<Rightarrow> safe_inv Q m D rs'"
    using inner_body_total[OF 1(2,3) assms(3,4)] by blast
  note ok = inner_body_ok[OF b(1) 1(2) L]
  show ?case
  proof (cases fl)
    case (Next rs')
    have "\<exists>rs''. inner_loop X run rn iter rs' = Some (Inr rs'') \<and> run_inv X ctx rn rs'' \<and> safe_inv Q m D rs''"
      by (rule 1(1)) (use ok b(2) Next in auto)
    then show ?thesis using b 1(2,3) Next by (simp add: inner_loop.simps)
  next
    case (Stop rs')
    then show ?thesis using b ok 1(2,3) by (simp add: inner_loop.simps)
  qed
qed

end

subsection \<open>Proposals do not panic\<close>

lemma incumbent_hint:
  assumes "incumbent_ok X ctx rn rs" "run_exec_ctx rn rs = ctx" "consts_ok D rn"
  shows "\<exists>h. score_hint (rs_f_best rs) = Inr h"
proof (cases "rs_f_best rs")
  case (Some f)
  with assms(1) obtain x est where "ref_eval X ctx x (last (rn_ladder rn)) = Inr (Some est)" "f = f_hat est"
    by (auto simp: incumbent_ok_def truth_of_def split: option.splits)
  then obtain xr where ce: "compute_estimates (cx_evaluator ctx) xr (last (rn_ladder rn)) (cx_env ctx) = Inr (Some est)"
    by (auto simp: ref_eval_def split: option.splits)
  then have "length f = ev_num_objectives (rn_evaluator rn)"
    using compute_estimates_ok \<open>f = f_hat est\<close> assms(2) by (fastforce simp: est_ok_def run_exec_ctx_def)
  moreover have "objective_safe (cx_evaluator ctx)" using assms(2,3) by (auto simp: consts_ok_def run_exec_ctx_def)
  then have "0 < ev_num_objectives (cx_evaluator ctx)" using ce unfolding objective_safe_def by blast
  ultimately show ?thesis using Some assms(2) by (cases f) (auto simp: score_hint_def run_exec_ctx_def)
qed (simp add: score_hint_def)

lemma search_context_ok:
  assumes "safe_inv Q m D rs" "consts_ok D rn"
  shows "\<exists>c. search_context rn rs = Inr c \<and> ctx_bounded c \<and> ctx_dim D c"
proof (cases "rs_x_best rs")
  case None
  with assms show ?thesis
    by (auto simp: search_context_def ctx_bounded_def ctx_dim_def consts_ok_def safe_inv_def dest: current_steps_mag)
next
  case (Some x)
  with assms have x: "geo_ok D (rs_geo rs)" "pt_ok D x" by (simp_all add: safe_inv_def)
  obtain ix where "incumbent_real (rs_geo rs) x = Inr ix" "\<forall>v \<in> set ix. mag_le 864 v" "length ix = D"
    using incumbent_real_ok[OF x] by blast
  with Some x assms(2) show ?thesis
    by (auto simp: search_context_def ctx_bounded_def ctx_dim_def consts_ok_def pt_ok_def dest: current_steps_mag)
qed

context search_policy
begin

lemma score_raw_total:
  assumes "extern_ok X" "cand_usable so s D rc" "geo_ok D geo" "score_hint f_best = Inr h"
  shows "\<exists>q. score_raw X so geo f_best s rc = Inr q \<and> pt_ok D (fst (snd q)) \<and> \<not> is_nan (snd (snd q))"
proof -
  obtain x where x: "project_to_aniso_mesh X rc geo = Inr x" "length x = D"
    using usable_points[OF assms(1,2), of geo] assms(3) unfolding geo_ok_def by auto
  then have "\<forall>u \<in> set x. i64_ok u"
    by (auto simp: project_to_aniso_mesh_def quantize_real_to_aniso_mesh_def quantize_ok split: option.splits)
  with x assms(2,4) show ?thesis by (simp add: score_raw_def pt_ok_def cand_usable_def)
qed

lemma propose_step_total:
  assumes X: "extern_ok X" "ln_1p_bounded X" and safe: "safe_inv (sinv D) m D rs" and ok: "consts_ok D rn" and iter: "iter < 2 ^ 64"
    and inc: "incumbent_ok X ctx rn rs" "run_exec_ctx rn rs = ctx"
  shows "\<exists>rs'. propose_step X so rn iter rs = Inr rs' \<and> safe_inv (sinv D) m D rs'"
proof -
  obtain c where c: "search_context rn rs = Inr c" "ctx_bounded c" "ctx_dim D c" using search_context_ok[OF safe ok] by blast
  obtain h where h: "score_hint (rs_f_best rs) = Inr h" using incumbent_hint[OF inc ok] by blast
  have "sinv D (eg_search (rs_engine rs))" using safe by (simp add: safe_inv_def)
  from propose_ok[OF X(2) c(2,3) iter this] obtain raw s where
    raw: "so_propose so iter (ec_candidates_per_iter (rn_cfg rn)) (so_set_context so c (eg_search (rs_engine rs))) = Inr (raw, s)"
    "\<forall>rc \<in> set raw. cand_usable so s D rc" "sinv D s" by blast
  have "geo_ok D (rs_geo rs)" using safe by (simp add: safe_inv_def)
  then obtain scored where sc: "res_map (score_raw X so (rs_geo rs) (rs_f_best rs) s) raw = Inr scored"
    "\<forall>q \<in> set scored. pt_ok D (fst (snd q)) \<and> \<not> is_nan (snd (snd q))"
    using res_map_total[where xs = raw and f = "score_raw X so (rs_geo rs) (rs_f_best rs) s"
        and P = "\<lambda>q. pt_ok D (fst (snd q)) \<and> \<not> is_nan (snd (snd q))"] score_raw_total[OF X(1) _ _ h] raw(2) by metis
  obtain sorted where srt: "sort_scored (\<lambda>p. snd (snd p)) fst scored = Inr sorted" "set sorted = set scored"
    using sort_scored_total[of scored "\<lambda>p. snd (snd p)" fst] sc(2) by blast
  have "safe_inv (sinv D) m D (fold (ingest iter) sorted (set_search s rs))"
    by (rule ingests_safe) (use safe sc(2) srt(2) raw(3) in \<open>auto simp: safe_inv_def set_search_def\<close>)
  with c(1) raw(1) sc(1) srt(1) show ?thesis by (simp add: propose_step_def)
qed

end

lemma iteration_total:
  assumes pol: "search_policy X so sinv" "reliable_executor X run" and X: "extern_ok X" "ln_1p_bounded X"
    and inv: "run_inv X ctx rn rs" and safe: "safe_inv (sinv D) m D rs" and ok: "consts_ok D rn" and iter: "iter < 2 ^ 64"
  shows "\<exists>rs'. iteration X so run rn iter rs = Some (Inr rs') \<and> run_inv X ctx rn rs' \<and> safe_inv (sinv D) m D rs'"
proof -
  have L: "rn_ladder rn \<noteq> []" using ok by (simp add: consts_ok_def)
  have i0: "run_inv X ctx rn (start_iteration rn rs)" by (rule run_inv_cong[OF inv]) (simp_all add: start_iteration_def)
  have s0: "safe_inv (sinv D) m D (start_iteration rn rs)" by (rule safe_inv_cong[OF safe]) (simp_all add: start_iteration_def)
  obtain rs1 where p: "propose_step X so rn iter (start_iteration rn rs) = Inr rs1" "safe_inv (sinv D) m D rs1"
    using search_policy.propose_step_total[OF pol(1) X s0 ok iter, of ctx] i0 by (auto simp: run_inv_def)
  have i1: "run_inv X ctx rn rs1" by (rule propose_step_inv[OF p(1) i0 L])
  have i2: "run_inv X ctx rn (start_steps rn rs1)" by (rule run_inv_cong[OF i1]) (simp_all add: start_steps_def)
  have s2: "safe_inv (sinv D) m D (start_steps rn rs1)" by (rule safe_inv_cong[OF p(2)]) (simp_all add: start_steps_def)
  obtain rs2 where l: "inner_loop X run rn iter (start_steps rn rs1) = Some (Inr rs2)" "run_inv X ctx rn rs2" "safe_inv (sinv D) m D rs2"
    using reliable_executor.inner_loop_total[OF pol(2) i2 s2 ok iter] by blast
  have "run_inv X ctx rn (end_iteration rn rs2)"
    by (rule end_iteration_inv[OF l(2)])
  moreover have "safe_inv (sinv D) m D (end_iteration rn rs2)"
    using l(3) geo_ok_refine by (auto simp: safe_inv_def end_iteration_def)
  ultimately show ?thesis using p(1) l(1) by (simp add: iteration_def)
qed

lemma iterations_total:
  assumes pol: "search_policy X so sinv" "reliable_executor X run" and X: "extern_ok X" "ln_1p_bounded X"
    and inv: "run_inv X ctx rn rs" and safe: "safe_inv (sinv D) m D rs" and ok: "consts_ok D rn" and small: "\<forall>i \<in> set is. i < 2 ^ 64"
  shows "\<exists>rs'. iterations X so run rn is rs = Some (Inr rs') \<and> run_inv X ctx rn rs' \<and> safe_inv (sinv D) m D rs'"
  using inv safe small
proof (induction "is" arbitrary: rs)
  case (Cons i "is")
  obtain rs1 where r: "iteration X so run rn i rs = Some (Inr rs1)" "run_inv X ctx rn rs1" "safe_inv (sinv D) m D rs1"
    using iteration_total[OF pol X Cons.prems(1,2) ok, of i] Cons.prems(3) by auto
  obtain rs2 where "iterations X so run rn is rs1 = Some (Inr rs2)" "run_inv X ctx rn rs2" "safe_inv (sinv D) m D rs2"
    using Cons.IH[OF r(2,3)] Cons.prems(3) by auto
  with r show ?case by simp
qed simp

subsection \<open>Initialisation does not panic\<close>

text \<open>Machine ranges of the configuration: its integer types, lengths that vectors can have, a base step of at most \<open>2 ^ 800\<close>.\<close>

definition cfg_in_range :: "engine_cfg \<Rightarrow> evaluator \<Rightarrow> bool" where
  "cfg_in_range cfg ev \<longleftrightarrow> ec_max_iters cfg < 2 ^ 64 \<and> i64_ok (ec_mesh_mul_init cfg) \<and> resolved_dim cfg ev < 2 ^ 63
     \<and> length (ec_tau_levels cfg) < 2 ^ 62 \<and> length (ec_smc_levels cfg) < 2 ^ 62 \<and> ec_mesh_base_step cfg \<le> f_of_int (2 ^ 800)"

lemma dk_configure_fresh: "dk_configure c (dk_init m d) = dk_start c m"
  by (cases d) (simp add: dk_start_def dk_configure_def dk_apply_cfg_def dk_init_def dk_default_def Let_def)

lemma resolved_length:
  assumes "length (ec_tau_levels cfg) < 2 ^ 62" "length (ec_smc_levels cfg) < 2 ^ 62"
    and "resolve_ladder_levels cfg dim = (tau, smc)"
  shows "length tau + length smc < 2 ^ 64"
proof -
  define ts ss where "ts = (if ec_tau_levels cfg = [] then default_tau_levels dim else ec_tau_levels cfg)"
    and "ss = (if ec_smc_levels cfg = [] then default_smc_levels dim else ec_smc_levels cfg)"
  have r: "tau = (if filter (\<lambda>t. t > 0) ts = [] then [1] else filter (\<lambda>t. t > 0) ts)"
    "smc = (if filter (\<lambda>s. s > 0) ss = [] then [1] else filter (\<lambda>s. s > 0) ss)"
    using assms(3) by (simp_all add: resolve_ladder_levels_def Let_def flip: ts_def ss_def)
  have "length tau \<le> Suc (length ts)" "length smc \<le> Suc (length ss)"
    using length_filter_le[of "\<lambda>t. t > 0" ts] length_filter_le[of "\<lambda>s. s > 0" ss]
    by (simp_all add: r le_SucI)
  moreover have "length ts < 2 ^ 62" "length ss < 2 ^ 62"
    using assms(1,2) by (simp_all add: ts_def ss_def default_tau_levels_def default_smc_levels_def Let_def)
  ultimately show ?thesis by simp
qed

lemma init_geo_ok:
  assumes "is_finite (ec_mesh_base_step cfg)" "0 < ec_mesh_base_step cfg" "ec_mesh_base_step cfg \<le> f_of_int (2 ^ 800)"
    and "ec_mesh_base_steps cfg = None" "i64_ok (ec_mesh_mul_init cfg)"
  shows "\<exists>geo. init_geo cfg dim = Inr geo \<and> geo_ok (max dim 1) geo"
proof -
  have "mag_le 800 (ec_mesh_base_step cfg)" using assms(2,3) by (intro mag_le_compare) (auto simp: f64_ord_defs)
  moreover have "i64_ok (max (ec_mesh_mul_init cfg) 1)" using assms(5) by (auto simp: i64_ok_def I64_MIN_def I64_MAX_def)
  ultimately show ?thesis using assms by (auto simp: init_geo_def Let_def to_anisotropic_def geo_ok_def)
qed

lemma engine_init_total:
  assumes v: "cfg_valid cfg" "ec_mesh_base_steps cfg = None" and rg: "cfg_in_range cfg ev"
    and ev: "evaluator_total ev" "objective_safe ev" and aud: "da_modulus (eg_audit eg) \<noteq> 0" "Q (so_reset so e (eg_search eg))"
  shows "\<exists>rn rs. engine_init X threads so cfg e workers ev eg = Inr (rn, rs) \<and> consts_ok (max (resolved_dim cfg ev) 1) rn
    \<and> safe_inv Q (ec_num_constraints cfg) (max (resolved_dim cfg ev) 1) rs"
proof -
  let ?dim = "resolved_dim cfg ev" and ?m = "ec_num_constraints cfg"
  have "cc_delta_min (calib_cfg_of cfg) \<le> cc_delta_max (calib_cfg_of cfg)" using v(1) by (simp add: calib_cfg_of_def cfg_valid_def)
  then obtain dk where dk: "dk_configure (calib_cfg_of cfg) (dk_init ?m (eg_calibrator eg)) = Inr dk" "dk_inv ?m dk"
    using dk_start_ok[of "calib_cfg_of cfg" ?m] by (auto simp: dk_configure_fresh)
  obtain eg1 where eg1: "configure_engine threads so cfg e workers eg = Inr eg1" "eg_calibrator eg1 = dk" "eg_audit eg1 = eg_audit eg"
    "eg_search eg1 = so_reset so e (eg_search eg)"
    using dk(1) by (simp add: configure_engine_def Let_def)
  obtain tau smc where lv: "resolve_ladder_levels cfg ?dim = (tau, smc)" by (metis surj_pair)
  then have ne: "tau \<noteq> []" "smc \<noteq> []" using resolved_levels[of cfg ?dim] by auto
  obtain l where l: "build_ladder tau smc = Inr l" "length l = length tau + length smc - 1"
    by (rule build_ladder_props[OF ne]) blast
  have "length tau + length smc < 2 ^ 64" using rg lv by (intro resolved_length) (simp_all add: cfg_in_range_def)
  then have len: "length l < 2 ^ 64" "l \<noteq> []" using l ne staircase.build_ok[OF ne] by auto
  obtain geo where geo: "init_geo cfg ?dim = Inr geo" "geo_ok (max ?dim 1) geo"
    using init_geo_ok[of cfg ?dim] v rg by (auto simp: cfg_valid_def cfg_in_range_def)
  have "engine_init X threads so cfg e workers ev eg = Inr (init_consts cfg e ev l geo (eg_scheduler eg1), init_state X cfg l geo eg1)"
    using eg1(1) lv l(1) len(2) geo(1) by (simp add: engine_init_def Let_def)
  moreover have "consts_ok (max ?dim 1) (init_consts cfg e ev l geo (eg_scheduler eg1))"
    using len ev rg by (simp add: consts_ok_def init_consts_def cfg_in_range_def)
  moreover have "safe_inv Q ?m (max ?dim 1) (init_state X cfg l geo eg1)"
    using dk(2) eg1 aud(1,2) geo(2) by (simp add: safe_inv_def init_state_fields)
  ultimately show ?thesis by blast
qed

end
