(* ===== verification/Engine_Reach.thy ===== *)
theory Engine_Reach
  imports Engine_Total
begin

text \<open>
  The states a run passes through, as a transition system: proposals, poll injection, dispatch, batches and the end of an
  iteration, in any order. Every state of \<open>inner_loop\<close>, \<open>iteration\<close> and \<open>iterations\<close> is reachable, so what holds of every
  reachable state holds between any two batches of a run. Shown here: the policy of a state (slacks, bias bounds,
  assignment) is identified by its revision, and the chunk stays in the configured range.
\<close>

subsection \<open>Reachable states\<close>

inductive engine_reach :: "extern \<Rightarrow> 's search_ops \<Rightarrow> runner \<Rightarrow> run_consts \<Rightarrow> 's run_state \<Rightarrow> 's run_state \<Rightarrow> bool"
  for X so run rn rs0 where
  er_init: "engine_reach X so run rn rs0 rs0"
| er_propose: "engine_reach X so run rn rs0 rs \<Longrightarrow> propose_step X so rn iter (start_iteration rn rs) = Inr rs' \<Longrightarrow>
    engine_reach X so run rn rs0 (start_steps rn rs')"
| er_poll: "engine_reach X so run rn rs0 rs \<Longrightarrow> engine_reach X so run rn rs0 (poll_inject iter center rs)"
| er_idle: "engine_reach X so run rn rs0 rs \<Longrightarrow> dispatch rn ids rs = ([], rs') \<Longrightarrow> engine_reach X so run rn rs0 rs'"
| er_batch: "engine_reach X so run rn rs0 rs \<Longrightarrow> dispatch rn ids rs = (work, rs1) \<Longrightarrow>
    run_batch_step X run rn (run_thresholds rs) work rs1 = Inr rs2 \<Longrightarrow> engine_reach X so run rn rs0 rs2"
| er_end: "engine_reach X so run rn rs0 rs \<Longrightarrow> engine_reach X so run rn rs0 (end_iteration rn rs)"

lemma inner_body_reach:
  assumes "inner_body X run rn iter rs = Inr fl" "engine_reach X so run rn rs0 rs"
  shows "case fl of Stop rs' \<Rightarrow> engine_reach X so run rn rs0 rs' | Next rs' \<Rightarrow> engine_reach X so run rn rs0 rs'"
proof -
  consider (idle) "fl = Stop rs" | (poll) center where "fl = Next (poll_inject iter center rs)"
    | (disp) ids work rs1 where "dispatch rn ids rs = (work, rs1)" "work = [] \<and> fl = Stop rs1
        \<or> (\<exists>rs2. run_batch_step X run rn (run_thresholds rs) work rs1 = Inr rs2 \<and> fl = Next rs2)"
    using assms(1) by (auto simp: inner_body_def Let_def res_bind_Inr split: if_splits option.splits prod.splits)
  then show ?thesis
  proof cases
    case idle
    then show ?thesis using assms(2) by simp
  next
    case poll
    then show ?thesis using er_poll[OF assms(2)] by simp
  next
    case disp
    then show ?thesis using er_idle[OF assms(2)] er_batch[OF assms(2) disp(1)] by auto
  qed
qed

lemma inner_loop_reach:
  assumes "inner_loop X run rn iter rs = Some (Inr rs')" "engine_reach X so run rn rs0 rs"
  shows "engine_reach X so run rn rs0 rs'"
proof -
  have "\<forall>so rs0 rs'. r = Inr rs' \<longrightarrow> engine_reach X so run rn rs0 rs \<longrightarrow> engine_reach X so run rn rs0 rs'"
    if "inner_loop X run rn iter rs = Some r" for r
    using that
  proof (induction rule: inner_loop.raw_induct[rotated, consumes 1])
    case (1 il X run rn iter rs r)
    note IH = 1(1) and body = 1(2)
    show ?case
    proof (cases "rs_steps_left rs = 0 \<or> (\<exists>p. inner_body X run rn iter rs = Inl p)")
      case True
      with body show ?thesis by (auto split: if_splits)
    next
      case False
      then obtain fl where fl: "inner_body X run rn iter rs = Inr fl" "rs_steps_left rs \<noteq> 0"
        by (cases "inner_body X run rn iter rs") auto
      note reach = inner_body_reach[OF fl(1)]
      show ?thesis
      proof (cases fl)
        case (Next rs1)
        with body fl have "il X run rn iter rs1 = Some r" by simp
        note go = IH[OF this]
        show ?thesis
        proof (intro allI impI)
          fix so rs0 rs' assume r: "r = Inr rs'" "engine_reach X so run rn rs0 rs"
          have "engine_reach X so run rn rs0 rs1" using reach[OF r(2)] Next by simp
          with go r(1) show "engine_reach X so run rn rs0 rs'" by blast
        qed
      next
        case (Stop rs1)
        with body fl have "r = Inr rs1" by simp
        with reach Stop show ?thesis by (metis Inr_inject flow.simps(6))
      qed
    qed
  qed
  with assms show ?thesis by blast
qed

lemma iteration_reach:
  assumes "iteration X so run rn iter rs = Some (Inr rs')" "engine_reach X so run rn rs0 rs"
  shows "engine_reach X so run rn rs0 rs'"
proof -
  from assms(1) obtain rs1 rs2 where "propose_step X so rn iter (start_iteration rn rs) = Inr rs1"
    "inner_loop X run rn iter (start_steps rn rs1) = Some (Inr rs2)" "rs' = end_iteration rn rs2"
    by (auto simp: iteration_def split: sum.splits option.splits)
  with assms(2) show ?thesis by (auto intro: er_end inner_loop_reach er_propose)
qed

lemma iterations_reach:
  "iterations X so run rn is rs = Some (Inr rs') \<Longrightarrow> engine_reach X so run rn rs0 rs \<Longrightarrow> engine_reach X so run rn rs0 rs'"
  by (induction "is" arbitrary: rs) (auto split: option.splits sum.splits dest: iteration_reach)

subsection \<open>The frame of a batch\<close>

text \<open>What only a batch changes.\<close>

definition batch_frame :: "'s run_state \<Rightarrow> 's run_state \<Rightarrow> bool" where
  "batch_frame rs rs' \<longleftrightarrow> rs_policy_rev rs' = rs_policy_rev rs \<and> rs_assignment rs' = rs_assignment rs
     \<and> rs_chunk_base rs' = rs_chunk_base rs \<and> rs_stats rs' = rs_stats rs
     \<and> eg_calibrator (rs_engine rs') = eg_calibrator (rs_engine rs) \<and> eg_dids (rs_engine rs') = eg_dids (rs_engine rs)"

lemma batch_frame_propose: "propose_step X so rn iter (start_iteration rn rs) = Inr rs' \<Longrightarrow> batch_frame rs (start_steps rn rs')"
proof -
  assume "propose_step X so rn iter (start_iteration rn rs) = Inr rs'"
  then obtain sorted s where "rs' = fold (ingest iter) sorted (set_search s (start_iteration rn rs))"
    by (auto simp: propose_step_def res_bind_Inr)
  then obtain ix cs where "rs' = (set_search s (start_iteration rn rs))\<lparr>rs_index := ix, rs_cands := cs\<rparr>"
    using ingests_frame[of iter "\<lambda>q. q" sorted "set_search s (start_iteration rn rs)"] by auto
  then show ?thesis by (simp add: batch_frame_def start_steps_def set_search_def start_iteration_def)
qed

lemma batch_frame_poll: "batch_frame rs (poll_inject iter center rs)"
proof -
  define f :: "nat \<times> xmesh \<Rightarrow> cand_id \<times> xmesh \<times> f64" where "f = (\<lambda>(d, x). (poll_id iter d, x, f_inf))"
  define pts where "pts = enumerate 0 (generate_points_aniso center (ag_poll_step_units (rs_geo rs)))"
  have "poll_inject iter center rs = (fold (\<lambda>q. ingest iter (f q)) pts rs)\<lparr>rs_poll_generated := True\<rparr>"
    by (simp add: poll_inject_def pts_def f_def case_prod_unfold)
  moreover obtain ix cs where "fold (\<lambda>q. ingest iter (f q)) pts rs = rs\<lparr>rs_index := ix, rs_cands := cs\<rparr>"
    using ingests_frame by blast
  ultimately show ?thesis by (simp add: batch_frame_def)
qed

lemma batch_frame_dispatch: "dispatch rn ids rs = (work, rs') \<Longrightarrow> batch_frame rs rs'"
proof (induction ids arbitrary: rs work)
  case (Cons i ids)
  have sc: "batch_frame (set_cand pos c rs) rs' \<longleftrightarrow> batch_frame rs rs'" for pos c rs by (simp add: batch_frame_def set_cand_def)
  from Cons.prems show ?case
    by (auto simp: Let_def split: option.splits if_splits prod.splits dest!: Cons.IH) (simp_all add: sc)
qed (simp add: batch_frame_def)

lemma batch_frame_end: "batch_frame rs (end_iteration rn rs)"
  by (simp add: batch_frame_def end_iteration_def)

text \<open>An invariant of the batches that rests on the frame is an invariant of the run.\<close>

lemma engine_reach_inv:
  assumes "engine_reach X so run rn rs0 rs" "P rs0"
    and batch: "\<And>th work rs rs'. P rs \<Longrightarrow> run_batch_step X run rn th work rs = Inr rs' \<Longrightarrow> P rs'"
    and frame: "\<And>rs rs'. P rs \<Longrightarrow> batch_frame rs rs' \<Longrightarrow> P rs'"
  shows "P rs"
  using assms(1,2)
  by induction (auto intro: batch frame batch_frame_propose batch_frame_poll batch_frame_dispatch batch_frame_end)

subsection \<open>The invariant of the run holds in every reachable state\<close>

lemma dispatch_ready:
  assumes inv: "run_inv X ctx rn rs" and d: "dispatch rn ids rs = (work, rs1)"
  obtains cs where "rs1 = rs\<lparr>rs_cands := cs\<rparr>" "store_ok (length (rn_ladder rn)) rs1" "distinct (map wi_cand_id work)"
    "\<forall>wi \<in> set work. item_ok rn rs1 wi" "flight_in (wi_cand_id ` set work) rs1" "run_exec_ctx rn rs1 = ctx"
    "caches_sound X ctx (eg_caches (rs_engine rs1))" "incumbent_ok X ctx rn rs1"
proof -
  have "store_ok (length (rn_ladder rn)) rs" using inv by (simp add: run_inv_def)
  note ok = dispatch_ok[OF d this]
  obtain cs where rs1: "rs1 = rs\<lparr>rs_cands := cs\<rparr>" using ok by blast
  have "flight_in (wi_cand_id ` set work) rs1" using ok inv unfolding run_inv_def by (metis sup_bot_left)
  with ok rs1 inv show thesis by (intro that[of cs]) (simp_all add: run_inv_def run_exec_ctx_def incumbent_ok_def barrier_inv_def)
qed

context executor_contract
begin

lemma reach_run_inv:
  assumes "engine_reach X so run rn rs0 rs" "run_inv X ctx rn rs0" "rn_ladder rn \<noteq> []"
  shows "run_inv X ctx rn rs"
  using assms(1,2)
proof induction
  case (er_propose rs iter rs')
  have "run_inv X ctx rn (start_iteration rn rs)"
    by (rule run_inv_cong[OF er_propose(3)[OF er_propose(4)]]) (simp_all add: start_iteration_def)
  from propose_step_inv[OF er_propose(2) this assms(3)] show ?case
    by (rule run_inv_cong) (simp_all add: start_steps_def)
next
  case (er_poll rs iter center)
  then show ?case using poll_inject_inv[of X ctx rn rs] assms(3) by blast
next
  case (er_idle rs ids rs')
  show ?case
  proof (rule dispatch_ready[OF er_idle(3)[OF er_idle(4)] er_idle(2)])
    assume "store_ok (length (rn_ladder rn)) rs'" "flight_in (wi_cand_id ` set []) rs'"
      "run_exec_ctx rn rs' = ctx" "caches_sound X ctx (eg_caches (rs_engine rs'))" "incumbent_ok X ctx rn rs'"
    then show ?thesis by (simp add: run_inv_def)
  qed
next
  case (er_batch rs ids work rs1 rs2)
  show ?case
  proof (rule dispatch_ready[OF er_batch(4)[OF er_batch(5)] er_batch(2)])
    assume "store_ok (length (rn_ladder rn)) rs1" "distinct (map wi_cand_id work)"
      "\<forall>wi \<in> set work. item_ok rn rs1 wi" "flight_in (wi_cand_id ` set work) rs1" "run_exec_ctx rn rs1 = ctx"
      "caches_sound X ctx (eg_caches (rs_engine rs1))" "incumbent_ok X ctx rn rs1"
    from batch_step_ok[OF er_batch(3) this] show ?thesis by simp
  qed
next
  case (er_end rs)
  show ?case by (rule end_iteration_inv[OF er_end(2)[OF er_end(3)]])
qed

end

subsection \<open>What a batch does to the policy\<close>

definition join_frame :: "'s run_state \<Rightarrow> 's run_state \<Rightarrow> bool" where
  "join_frame rs rs' \<longleftrightarrow> rs_policy_rev rs' = rs_policy_rev rs \<and> rs_assignment rs' = rs_assignment rs
     \<and> rs_chunk_base rs' = rs_chunk_base rs \<and> rs_steps_left rs' = rs_steps_left rs
     \<and> eg_calibrator (rs_engine rs') = eg_calibrator (rs_engine rs) \<and> di_assignment (eg_dids (rs_engine rs')) = di_assignment (eg_dids (rs_engine rs))"

lemma dids_record_assignment [simp]: "di_assignment (dids_record_result x p i r d) = di_assignment d"
  by (simp add: dids_record_result_def Let_def)

lemma complete_one_join: "complete_one X rn th out rs = Inr (e, rs') \<Longrightarrow> join_frame rs rs'"
proof -
  assume "complete_one X rn th out rs = Inr (e, rs')"
  then obtain pos c r st dc where "rs' = accept_job rn c r (set_cand pos c (rs\<lparr>rs_engine :=
      after_job (wi_cand_id (wo_item out)) (wo_item out) c r ((rs_engine rs)\<lparr>eg_caches := (eg_caches (rs_engine rs))\<lparr>ch_decision := dc\<rparr>\<rparr>),
      rs_stats := st\<rparr>))"
    by (auto simp: complete_one_def Let_def res_bind_Inr split: option.splits)
  moreover have "rs_assignment (accept_job rn c r s) = rs_assignment s" "rs_chunk_base (accept_job rn c r s) = rs_chunk_base s"
    "rs_steps_left (accept_job rn c r s) = rs_steps_left s" for s :: "'a run_state"
    using accept_job_frame(1)[of s rn c r] by (simp_all add: same_frame_def)
  ultimately show ?thesis by (simp add: join_frame_def accept_job_frame after_job_def set_cand_def)
qed

lemma complete_all_join: "complete_all X rn th outs rs = Inr (es, rs') \<Longrightarrow> join_frame rs rs'"
proof (induction outs arbitrary: rs es)
  case (Cons out outs)
  from Cons.prems obtain e rs1 es1 where "complete_one X rn th out rs = Inr (e, rs1)" "complete_all X rn th outs rs1 = Inr (es1, rs')"
    by (auto simp: res_bind_Inr)
  then have "join_frame rs rs1" "join_frame rs1 rs'" using Cons.IH complete_one_join by auto
  then show ?case by (simp add: join_frame_def)
qed (simp add: join_frame_def)

lemma run_batch_stepE:
  assumes "run_batch_step X run rn th work rs = Inr rs'"
  obtains outs c sorted events rs2 rs3 where "run (set_executor rn rs) (run_exec_ctx rn rs) work (eg_caches (rs_engine rs)) = Inr (outs, c)"
    "sorted = sort_by (\<lambda>a b. wi_cand_id (wo_item a) \<le> wi_cand_id (wo_item b)) outs"
    "complete_all X rn th sorted (rs\<lparr>rs_engine := (rs_engine rs)\<lparr>eg_caches := c, eg_executor := set_executor rn rs\<rparr>,
       rs_stats := fold (\<lambda>out. update_stats_from_outcome out (length (rn_ladder rn))) sorted (rs_stats rs)\<rparr>) = Inr (events, rs2)"
    "batch_boundary X rn events rs2 = Inr rs3"
    "rs' = rs3\<lparr>rs_chunk_base := tune_chunk (rn_cfg rn) sorted (rs_chunk_base rs3), rs_steps_left := rs_steps_left rs3 - length sorted\<rparr>"
  using assms by (auto simp: run_batch_step_def Let_def res_bind_Inr)

text \<open>The calibrator is in a valid state and the assignment in force is the one DIDS reported last.\<close>

definition policy_inv :: "nat \<Rightarrow> 's run_state \<Rightarrow> bool" where
  "policy_inv m rs \<longleftrightarrow> dk_inv m (eg_calibrator (rs_engine rs)) \<and> di_assignment (eg_dids (rs_engine rs)) = rs_assignment rs"

definition same_policy :: "'s run_state \<Rightarrow> 's run_state \<Rightarrow> bool" where
  "same_policy rs rs' \<longleftrightarrow> rs_assignment rs' = rs_assignment rs
     \<and> same_thresholds (dk_state (eg_calibrator (rs_engine rs))) (dk_state (eg_calibrator (rs_engine rs')))"

lemma batch_policy:
  assumes inv: "policy_inv m rs" and run: "run_batch_step X run rn th work rs = Inr rs'"
  shows "policy_inv m rs' \<and> (rs_policy_rev rs' = rs_policy_rev rs \<and> same_policy rs rs'
    \<or> rs_policy_rev rs' = rs_policy_rev rs + 1 \<or> rs_policy_rev rs' = rs_policy_rev rs + 2)"
  using run
proof (cases rule: run_batch_stepE)
  case (1 outs c sorted events rs2 rs3)
  have j: "rs_policy_rev rs2 = rs_policy_rev rs" "rs_assignment rs2 = rs_assignment rs"
    "eg_calibrator (rs_engine rs2) = eg_calibrator (rs_engine rs)" "di_assignment (eg_dids (rs_engine rs2)) = rs_assignment rs"
    using complete_all_join[OF 1(3)] inv by (simp_all add: join_frame_def policy_inv_def)
  obtain delta dk a ad dd where u:
    "dk_update X (sort_by (\<lambda>a b. ce_id a \<le> ce_id b) events) (eg_calibrator (rs_engine rs2)) = Inr (delta, dk)"
    "update_assignment X (length (rn_ladder rn)) (dk_state dk) (eg_dids (rs_engine rs2)) = ((a, ad), dd)"
    "rs3 = rs2\<lparr>rs_engine := (rs_engine rs2)\<lparr>eg_calibrator := dk, eg_dids := dd\<rparr>, rs_assignment := a,
       rs_policy_rev := if ad \<noteq> 0 then (if delta \<noteq> 0 then rs_policy_rev rs2 + delta else rs_policy_rev rs2) + ad
         else if delta \<noteq> 0 then rs_policy_rev rs2 + delta else rs_policy_rev rs2\<rparr>"
    by (rule batch_boundaryE[OF 1(4)])
  have "dk_ok (eg_calibrator (rs_engine rs))" using inv by (simp add: policy_inv_def dk_inv_def)
  then obtain dl d' where d: "dk_update X (sort_by (\<lambda>a b. ce_id a \<le> ce_id b) events) (eg_calibrator (rs_engine rs)) = Inr (dl, d')"
      "dl = 0 \<or> dl = 1" by (rule dk_update_total) blast
  have "dk_inv m (eg_calibrator (rs_engine rs))" using inv by (simp add: policy_inv_def)
  from dk.update_ok[OF this, of X "sort_by (\<lambda>a b. ce_id a \<le> ce_id b) events"]
  have dk: "dk_inv m dk" "delta = 0 \<Longrightarrow> same_thresholds (dk_state (eg_calibrator (rs_engine rs))) (dk_state dk)" "delta = 0 \<or> delta = 1"
    using u(1) j(3) d by auto
  have a: "di_assignment dd = a" "ad = 0 \<longleftrightarrow> a = rs_assignment rs" "ad = 0 \<or> ad = 1"
    using dids_p.stored[of X "length (rn_ladder rn)" "dk_state dk" "eg_dids (rs_engine rs2)"]
      dids_p.delta_zero[of X "length (rn_ladder rn)" "dk_state dk" "eg_dids (rs_engine rs2)"] u(2) j(4)
    by (simp_all add: update_assignment_def Let_def split: if_splits) auto
  have "policy_inv m rs'" using dk(1) a(1) by (simp add: policy_inv_def 1(5) u(3))
  moreover have "same_policy rs rs'" if "delta = 0" "ad = 0"
    using dk(2) a(2) that by (simp add: same_policy_def 1(5) u(3))
  moreover have "rs_policy_rev rs' = rs_policy_rev rs + delta + ad" by (simp add: 1(5) u(3) j(1))
  ultimately show ?thesis using dk(3) a(3) by auto
qed

subsection \<open>The chunk\<close>

definition chunk_ok :: "engine_cfg \<Rightarrow> nat \<Rightarrow> bool" where
  "chunk_ok cfg c \<longleftrightarrow> min (max (ec_executor_chunk_min cfg) 1) (max (ec_executor_chunk_max cfg) 1) \<le> c
     \<and> c \<le> max (ec_executor_chunk_max cfg) 1"

lemma clamp_chunk_ok: "chunk_ok cfg (clamp_chunk cfg t)"
  by (simp add: chunk_ok_def clamp_chunk_def)

lemma tune_chunk_ok: "chunk_ok cfg c \<Longrightarrow> chunk_ok cfg (tune_chunk cfg outs c)"
  by (simp add: tune_chunk_def Let_def clamp_chunk_ok)

lemma batch_chunk:
  assumes "chunk_ok (rn_cfg rn) (rs_chunk_base rs)" "run_batch_step X run rn th work rs = Inr rs'"
  shows "chunk_ok (rn_cfg rn) (rs_chunk_base rs')"
  using assms(2)
proof (cases rule: run_batch_stepE)
  case (1 outs c sorted events rs2 rs3)
  have "rs_chunk_base rs3 = rs_chunk_base rs"
    using complete_all_join[OF 1(3)] batch_boundary_frame(11)[OF 1(4)] by (simp add: join_frame_def)
  then show ?thesis using assms(1) tune_chunk_ok by (simp add: 1(5))
qed

subsection \<open>Statistics of an inline batch\<close>

lemma execute_one_counted: "execute_one X ctx wi c = Inr (out, c') \<Longrightarrow> outcome_counted out"
  by (auto simp: execute_one_def execute_miss_def res_bind_Inr outcome_counted_def outcome_decision_hit_def
      outcome_eval_hit_def outcome_computed_def outcome_invalid_def invalid_eval_def split: option.splits)

lemma inline_counted: "run_batch_inline X ctx wis c = Inr (outs, c') \<Longrightarrow> out \<in> set outs \<Longrightarrow> outcome_counted out"
  by (induction wis arbitrary: c outs) (auto simp: res_bind_Inr dest: execute_one_counted)

lemma fold_stats_total: "\<forall>out \<in> set outs. outcome_counted out \<Longrightarrow>
  stats_total (fold (\<lambda>out. update_stats_from_outcome out L) outs st) = stats_total st + length outs"
  by (induction outs arbitrary: st) (simp_all add: update_stats_total)

lemma stats_total_cheap [simp]: "stats_total (st\<lparr>st_cheap_rejects := k\<rparr>) = stats_total st"
  by (simp add: stats_total_def)

text \<open>An outcome with an estimate is of a point that is on the real line, so the cheap gate does not count it again.\<close>

lemma materialize_stats:
  assumes run: "materialize X mx out cd st dc = Inr (job, cd', st', dc')" and m: "outcome_matches X ctx out"
    and x: "cd_x cd = wi_x (wo_item out)" and b: "mx_base_steps mx = cx_base_steps ctx"
  shows "stats_total st' = stats_total st"
proof (cases "wo_cached_decision out")
  case (Some v)
  with run show ?thesis by (auto simp: materialize_def Let_def res_bind_Inr)
next
  case None
  with m obtain est where "ref_eval X ctx (wi_x (wo_item out)) (wi_phi (wo_item out)) = Inr (Some est)"
    by (auto simp: outcome_matches_def)
  then have real: "mesh_to_real_aniso X (cd_x cd) (mx_base_steps mx) \<noteq> None"
    by (auto simp: ref_eval_def x b split: option.splits)
  from run None obtain v cd1 where c: "check_cheap X mx cd = Inr (v, cd1)" by (auto simp: materialize_def Let_def res_bind_Inr)
  with real have "v \<noteq> Cheap_invalid" by (auto simp: check_cheap_def Let_def res_bind_Inr split: if_splits option.splits)
  then consider "v = Cheap_ok" | "v = Cheap_rejected" by (cases v) auto
  then show ?thesis
    by cases (use run None c in \<open>auto simp: materialize_def Let_def res_bind_Inr split: option.splits\<close>)
qed

lemma complete_one_stats:
  assumes run: "complete_one X rn th out rs = Inr (e, rs')" and it: "item_ok rn rs (wo_item out)"
    and out: "outcome_matches X (run_exec_ctx rn rs) out"
  shows "stats_total (rs_stats rs') = stats_total (rs_stats rs)"
proof -
  obtain pos where pos: "rs_index rs (wi_cand_id (wo_item out)) = Some pos" "cd_x (rs_cands rs ! pos) = wi_x (wo_item out)"
    using it by (auto simp: item_ok_def)
  from run pos obtain job c st dc where mat: "materialize X (run_mat_ctx rn th rs) out (rs_cands rs ! pos) (rs_stats rs)
      (ch_decision (eg_caches (rs_engine rs))) = Inr (job, c, st, dc)" and "rs_stats rs' = st"
    by (auto simp: complete_one_def Let_def res_bind_Inr accept_job_frame set_cand_def)
  with materialize_stats[OF mat out pos(2)] show ?thesis by (simp add: run_mat_ctx_def run_exec_ctx_def)
qed

lemma complete_all_stats:
  assumes "complete_all X rn th outs rs = Inr (es, rs')" "store_ok (length (rn_ladder rn)) rs"
    and "distinct (map (wi_cand_id \<circ> wo_item) outs)" "run_exec_ctx rn rs = ctx"
    and "\<forall>out \<in> set outs. item_ok rn rs (wo_item out) \<and> outcome_matches X ctx out"
    and "caches_sound X ctx (eg_caches (rs_engine rs))" "incumbent_ok X ctx rn rs"
  shows "stats_total (rs_stats rs') = stats_total (rs_stats rs)"
  using assms
proof (induction outs arbitrary: rs es)
  case (Cons out outs)
  have it: "item_ok rn rs (wo_item out)" "outcome_matches X ctx out" using Cons.prems(5) by simp_all
  from Cons.prems(1) obtain e es1 rs1 where one: "complete_one X rn th out rs = Inr (e, rs1)"
    and rest: "complete_all X rn th outs rs1 = Inr (es1, rs')" by (auto simp: res_bind_Inr)
  note ok = complete_one_ok[OF one Cons.prems(2) it(1) outcome_matches_agrees[OF it(2)] Cons.prems(4)[symmetric] Cons.prems(6,7)]
  have fr: "same_frame rs rs1" using ok by simp
  have "\<forall>o' \<in> set outs. item_ok rn rs1 (wo_item o') \<and> outcome_matches X ctx o'"
    using ok Cons.prems(3,5) by (auto simp: image_iff)
  then have "stats_total (rs_stats rs') = stats_total (rs_stats rs1)"
    using ok Cons.prems(3,4) same_frame_ctx[OF fr] by (intro Cons.IH[OF rest]) auto
  with complete_one_stats[OF one it(1)] it(2) Cons.prems(4) show ?case by simp
qed simp

lemma inline_batch_stats:
  assumes "run_inv X ctx rn rs" "dispatch rn ids rs = (work, rs1)"
    and run: "run_batch_step X (inline_runner X) rn th work rs1 = Inr rs2"
  shows "stats_total (rs_stats rs2) = stats_total (rs_stats rs) + length work \<and> rs_steps_left rs2 = rs_steps_left rs - length work"
proof -
  let ?L = "length (rn_ladder rn)"
  obtain cs where r: "rs1 = rs\<lparr>rs_cands := cs\<rparr>" "store_ok ?L rs1" "distinct (map wi_cand_id work)"
    "\<forall>wi \<in> set work. item_ok rn rs1 wi" "flight_in (wi_cand_id ` set work) rs1" "run_exec_ctx rn rs1 = ctx"
    "caches_sound X ctx (eg_caches (rs_engine rs1))" "incumbent_ok X ctx rn rs1"
    by (rule dispatch_ready[OF assms(1,2)])
  from run show ?thesis
  proof (cases rule: run_batch_stepE)
    case (1 outs c sorted events rs2' rs3)
    let ?rs = "rs1\<lparr>rs_engine := (rs_engine rs1)\<lparr>eg_caches := c, eg_executor := set_executor rn rs1\<rparr>,
       rs_stats := fold (\<lambda>out. update_stats_from_outcome out ?L) sorted (rs_stats rs1)\<rparr>"
    have inl: "run_batch_inline X ctx work (eg_caches (rs_engine rs1)) = Inr (outs, c)"
      using 1(1) r(6) by (simp add: inline_runner_def)
    have "\<forall>wi \<in> set work. wi_env_rev wi = cx_env_rev ctx" using r(4,6) by (auto simp: item_ok_def run_exec_ctx_def)
    note ok = run_batch_inline_ok[OF r(7) this inl]
    have ms: "mset (map wo_item sorted) = mset work" unfolding 1(2) mset_map mset_sort_by using ok by (metis mset_map)
    then have len: "length sorted = length work" by (metis length_map size_mset)
    have "distinct (map wi_cand_id (map wo_item sorted))"
      using r(3) ms by (metis distinct_count_atmost_1 mset_map set_mset_mset)
    then have d: "distinct (map (wi_cand_id \<circ> wo_item) sorted)" by simp
    have set: "wo_item ` set sorted = set work" using ms by (metis list.set_map set_mset_mset)
    have itm: "item_ok rn ?rs wi = item_ok rn rs1 wi" for wi by (simp add: item_ok_def)
    have outs: "\<forall>out \<in> set sorted. item_ok rn ?rs (wo_item out) \<and> outcome_matches X ctx out"
    proof (intro ballI conjI)
      fix out assume "out \<in> set sorted"
      then have "wo_item out \<in> set work" "out \<in> set outs" using set by (auto simp: 1(2))
      then show "item_ok rn ?rs (wo_item out)" "outcome_matches X ctx out" using r(4) ok itm by blast+
    qed
    have "stats_total (rs_stats rs2') = stats_total (rs_stats ?rs)"
      by (rule complete_all_stats[OF 1(3) _ d _ outs])
        (use r(2,6,8) ok in \<open>simp_all add: store_ok_def run_exec_ctx_def incumbent_ok_def barrier_inv_def\<close>)
    moreover have "\<forall>out \<in> set sorted. outcome_counted out" using inline_counted[OF inl] by (simp add: 1(2))
    then have "stats_total (rs_stats ?rs) = stats_total (rs_stats rs) + length work"
      using len by (simp add: fold_stats_total r(1))
    moreover have "rs_stats rs3 = rs_stats rs2'" "rs_steps_left rs3 = rs_steps_left rs2'"
      using batch_boundary_frame(12)[OF 1(4)] by (rule_tac batch_boundaryE[OF 1(4)], simp)+
    moreover have "rs_steps_left rs2' = rs_steps_left rs" using complete_all_join[OF 1(3)] by (simp add: join_frame_def r(1))
    ultimately show ?thesis using len by (simp add: 1(5))
  qed
qed

end
