(* ===== verification/Step_Props.thy ===== *)
theory Step_Props
  imports Engine
begin

text \<open>
  What the engine guarantees of a single step of a candidate, and where its rules part from their documentation: an early
  cut respects the assignment and the audit, a promotion stop is forgotten by the decision cache, the reported incumbent
  may be replaced by a point that violates more, and per-dimension steps of the wrong length panic.
\<close>

subsection \<open>Early cuts\<close>

text \<open>
  C19: a candidate whose outcome is fresh ends as early infeasible only for a reason. The margin policy found the
  constraint violated at this step, the step is below TRUTH and at or above the level DIDS assigned to that constraint,
  the candidate was not under audit, and the audit policy did not select it.
\<close>

theorem early_cut_respects_assignment:
  assumes "materialize X mx out cd st dc = Inr (job, cd', st', dc')" "wo_cached_decision out = None"
    and "origin_ok (length (mx_ladder mx)) cd" "wi_phi_idx (wo_item out) < length (mx_ladder mx)"
    and "cd_status cd' = DoneEarlyInfeasible j i"
  shows "\<exists>est. wo_estimates out = Some est \<and> early_infeasible est (mx_th mx) = Some j \<and> i = wi_phi_idx (wo_item out)
    \<and> i + 1 < length (mx_ladder mx) \<and> assigned_level mx j \<le> i + 1 \<and> \<not> cd_audit_required cd
    \<and> should_audit (mx_audit mx) (cd_x cd) (wi_phi (wo_item out)) (wi_env_rev (wo_item out)) = Inr False"
proof -
  obtain v cd1 where cc: "check_cheap X mx cd = Inr (v, cd1)"
    using assms(1,2) by (auto simp: materialize_def Let_def res_bind_Inr)
  have same: "cd_audit_required cd1 = cd_audit_required cd" "cd_x cd1 = cd_x cd" "cd_status cd1 = cd_status cd"
    using cc by (auto simp: check_cheap_def Let_def res_bind_Inr split: if_splits option.splits)
  have v: "v = Cheap_ok" using assms(1,2,5) cc by (cases v) (auto simp: materialize_def Let_def)
  obtain est where est: "wo_estimates out = Some est"
    using assms(1,2) cc v by (cases "wo_estimates out") (auto simp: materialize_def Let_def)
  define cd2 where "cd2 = note_estimates (wo_item out) est cd1"
  have cd2: "cd_audit_required cd2 = cd_audit_required cd" "cd_x cd2 = cd_x cd"
    using same by (simp_all add: cd2_def note_estimates_def)
  have t: "wi_phi_idx (wo_item out) + 1 \<noteq> length (mx_ladder mx)"
    using assms(1,2,5) cc v est by (auto simp: materialize_def mat_truth_def Let_def)
  then have "mat_step mx (wo_item out) est (wo_runtime_cost out) cd2 = Inr (job, cd')"
    using assms(1,2) cc v est by (auto simp: materialize_def Let_def res_bind_Inr cd2_def)
  from mat_step_cut[OF this assms(5)] est t assms(4) cd2 show ?thesis by auto
qed

definition item_cut :: work_item where
  "item_cut = \<lparr>wi_cand_id = 1, wi_x = [3], wi_phi_idx = 0, wi_phi = Phi 1 8, wi_env_rev = 5, wi_policy_rev = 0, wi_incumbent_id = 0\<rparr>"

definition cand_cut :: cand where
  "cand_cut = \<lparr>cd_id = 1, cd_x = [3], cd_base_score = 0, cd_created_epoch = 0, cd_next_phi_idx = 0,
     cd_last_estimates_phi_idx = None, cd_last_estimates = None, cd_audit_required = False, cd_audit_origin = None,
     cd_audit_cut_estimates = None, cd_cheap_checked = True, cd_cheap_ok = True, cd_submitted_policy_rev = 0,
     cd_submitted_incumbent_id = 0, cd_status = InFlight 0\<rparr>"

definition mx_cut :: mat_ctx where
  "mx_cut = \<lparr>mx_cfg = preset_base_args\<lparr>ec_objective_prune_min_smc_rank := 1,
     ec_objective_prune_min_level := 1, ec_objective_prune_require_back_half := False\<rparr>, mx_evaluator = const_evaluator, mx_env = env_demo, mx_base_steps = [1],
     mx_ladder = [Phi 1 8, Phi 1 16], mx_assignment = [2, 1], mx_th = th_demo, mx_policy_rev = 0, mx_incumbent_f = Some [1],
     mx_audit = \<lparr>da_p_audit = 0, da_modulus = 1\<rparr>\<rparr>"

lemma no_audit: "should_audit (mx_audit mx_cut) x p er = Inr False"
proof -
  have "clamp01 0 * f_of_int 1 = 0" "f_as_u64 0 = 0"
    by (simp_all add: clamp01_if f_as_u64_def f_trunc_def f64_eval cong: if_weak_cong)
  then show ?thesis by (simp add: should_audit_def audit_thresh_def mx_cut_def)
qed

theorem early_cut_respects_assignment_witness:
  "\<exists>job cd' st' dc'. materialize extern0 mx_cut (outcome_computed item_cut est_demo) cand_cut engine_stats_default cache_empty
     = Inr (job, cd', st', dc') \<and> cd_status cd' = DoneEarlyInfeasible 1 0 \<and> assigned_level mx_cut 1 \<le> 0 + 1"
proof -
  have step: "\<exists>job cd'. mat_step mx_cut item_cut est_demo 1 (note_estimates item_cut est_demo cand_cut) = Inr (job, cd')
      \<and> cd_status cd' = DoneEarlyInfeasible 1 0"
    using demo_cut no_audit[of "[3]" "Phi 1 8" 5]
    by (simp add: mat_step_def mx_cut_def assigned_level_def get_or_def get_def item_cut_def mat_cut_def cand_cut_def
        note_estimates_def draw_audit_def Let_def)
  then obtain job cd' where s: "mat_step mx_cut item_cut est_demo 1 (note_estimates item_cut est_demo cand_cut) = Inr (job, cd')"
    "cd_status cd' = DoneEarlyInfeasible 1 0" by blast
  have "check_cheap extern0 mx_cut cand_cut = Inr (Cheap_ok, cand_cut)" by (simp add: check_cheap_def cand_cut_def)
  then have m: "materialize extern0 mx_cut (outcome_computed item_cut est_demo) cand_cut engine_stats_default cache_empty
     = Inr (job, cd', engine_stats_default, decision_cache_put (mat_dkey mx_cut item_cut TagPartial
         (note_estimates item_cut est_demo cand_cut)) (mj_result job) cache_empty)"
    using s by (simp add: materialize_def outcome_computed_def Let_def) (simp add: item_cut_def mx_cut_def)
  have "wo_cached_decision (outcome_computed item_cut est_demo) = None" "origin_ok (length (mx_ladder mx_cut)) cand_cut"
    "wi_phi_idx (wo_item (outcome_computed item_cut est_demo)) < length (mx_ladder mx_cut)"
    by (simp_all add: outcome_computed_def origin_ok_def cand_cut_def item_cut_def mx_cut_def)
  from early_cut_respects_assignment[OF m this s(2)] m s(2) show ?thesis by blast
qed

subsection \<open>Stops and the decision cache\<close>

lemma mat_cut_not_stopped: "mat_cut mx wi j est cost cd = Inr (job, cd') \<Longrightarrow> cd_status cd' \<noteq> DoneStoppedPartial i"
  by (auto simp: mat_cut_def Let_def res_bind_Inr to_audit_target_def split: if_splits)

lemma mat_step_stopped:
  assumes "mat_step mx wi est cost cd = Inr (job, cd')" "cd_status cd' = DoneStoppedPartial i"
  shows "promotion_stop mx wi est cd \<and> i = wi_phi_idx wi \<and> mj_result job = Partial est (mat_meta mx wi cost)"
proof -
  have "mat_partial mx wi est cost cd = (job, cd')"
    using assms mat_cut_not_stopped[of mx wi _ est cost cd job cd'] by (auto simp: mat_step_def split: option.splits if_splits)
  with assms(2) show ?thesis
    by (auto simp: mat_partial_def job_final_def to_audit_target_def Let_def split: if_splits)
qed

text \<open>A fresh outcome that stops its candidate leaves the decision \<open>Partial\<close> in the decision cache, under the key of its item.\<close>

lemma stop_is_cached:
  assumes "materialize X mx out cd st dc = Inr (job, cd', st', dc')" "wo_cached_decision out = None"
    and "cd_status cd' = DoneStoppedPartial i"
  obtains est where "mj_result job = Partial est (mat_meta mx (wo_item out) (wo_runtime_cost out))"
    "i = wi_phi_idx (wo_item out)" "i + 1 \<noteq> length (mx_ladder mx)"
    "dc' = decision_cache_put (DecisionKey (cd_x cd) (wi_phi (wo_item out)) (wi_env_rev (wo_item out)) (mx_policy_rev mx) TagPartial) (mj_result job) dc"
proof -
  let ?wi = "wo_item out"
  obtain v cd1 where cc: "check_cheap X mx cd = Inr (v, cd1)"
    using assms(1,2) by (auto simp: materialize_def Let_def res_bind_Inr)
  have x: "cd_x cd1 = cd_x cd" using cc by (auto simp: check_cheap_def Let_def res_bind_Inr split: if_splits option.splits)
  have v: "v = Cheap_ok" using assms cc by (cases v) (auto simp: materialize_def Let_def)
  obtain est where est: "wo_estimates out = Some est"
    using assms(1,2) cc v by (cases "wo_estimates out") (auto simp: materialize_def Let_def)
  have t: "wi_phi_idx ?wi + 1 \<noteq> length (mx_ladder mx)"
    using assms cc v est by (auto simp: materialize_def mat_truth_def Let_def)
  then have step: "mat_step mx ?wi est (wo_runtime_cost out) (note_estimates ?wi est cd1) = Inr (job, cd')"
    and dc: "dc' = decision_cache_put (mat_dkey mx ?wi TagPartial (note_estimates ?wi est cd1)) (mj_result job) dc"
    using assms(1,2) cc v est by (auto simp: materialize_def Let_def res_bind_Inr)
  from mat_step_stopped[OF step assms(3)] t dc x show thesis
    by (intro that) (simp_all add: mat_dkey_def note_estimates_def)
qed

text \<open>
  C30: the decision cache forgets promotion stops. When a fresh outcome ends its candidate because it cannot beat the
  incumbent, the decision cache afterwards answers the item of any candidate at the same point, fidelity, environment and
  policy revision with \<open>Partial\<close>, the decision that a step with a successor leaves: executing that item evaluates nothing,
  and materialising its outcome makes the candidate ready for the next step, whatever the incumbent is by then.
\<close>

theorem cached_stop_is_forgotten:
  assumes "materialize X mx out cd st dc = Inr (job, cd', st', dc')" "wo_cached_decision out = None"
    and "cd_status cd' = DoneStoppedPartial i" "i + 1 < length (mx_ladder mx)" "\<not> mc_poisoned dc"
    and "wi_x wi = cd_x cd" "wi_phi wi = wi_phi (wo_item out)" "wi_phi_idx wi = wi_phi_idx (wo_item out)"
    and "wi_env_rev wi = wi_env_rev (wo_item out)" "wi_policy_rev wi = mx_policy_rev mx"
    and "cx_ladder_len ctx = length (mx_ladder mx)" "ch_decision c = dc'"
    and "mx_ladder mx' = mx_ladder mx" "\<not> cd_audit_required cd2"
  shows "\<exists>est m job' cd3. decision_cache_get dc' (item_dkey ctx wi) = Some (Partial est m)
    \<and> execute_one X ctx wi c = Inr (outcome_decision_hit wi (Partial est m), c)
    \<and> materialize X mx' (outcome_decision_hit wi (Partial est m)) cd2 st2 dc' = Inr (job', cd3, st2, dc')
    \<and> mj_result job' = mj_result job \<and> cd_status cd3 = Ready \<and> cd_next_phi_idx cd3 = i + 1"
proof -
  from assms(1-3) obtain est where r: "mj_result job = Partial est (mat_meta mx (wo_item out) (wo_runtime_cost out))"
    "i = wi_phi_idx (wo_item out)" "i + 1 \<noteq> length (mx_ladder mx)"
    "dc' = decision_cache_put (DecisionKey (cd_x cd) (wi_phi (wo_item out)) (wi_env_rev (wo_item out)) (mx_policy_rev mx) TagPartial) (mj_result job) dc"
    by (rule stop_is_cached)
  have "item_dkey ctx wi = DecisionKey (cd_x cd) (wi_phi (wo_item out)) (wi_env_rev (wo_item out)) (mx_policy_rev mx) TagPartial"
    using assms(6-11) r(2,3) by (simp add: item_dkey_def item_tag_def)
  then have get: "decision_cache_get dc' (item_dkey ctx wi) = Some (mj_result job)"
    using assms(5) by (simp add: r(4) decision_get_put)
  have "\<exists>job' cd3. materialize X mx' (outcome_decision_hit wi (mj_result job)) cd2 st2 dc' = Inr (job', cd3, st2, dc')
      \<and> mj_result job' = mj_result job \<and> cd_status cd3 = Ready \<and> cd_next_phi_idx cd3 = i + 1"
    using assms(4,8,13,14) r(1,2)
    by (simp add: materialize_def outcome_decision_hit_def Let_def note_estimates_def job_open_def)
  with get r(1) assms(12) show ?thesis by (auto simp: execute_one_def)
qed

lemma demo_stop: "promotion_stop mx_cut item_cut est_demo cand_cut"
proof -
  have lcb: "fst (objective_bounds est_demo th_demo) = 1"
    by (simp add: objective_bounds_def th_demo_k est_demo_def f_hat_primary_def f_se_primary_def z_alpha_f demo_terms Let_def)
  have "1 - f_lit 1 1000 \<le> 1" by (simp add: f64_eval cong: if_weak_cong)
  moreover have "objective_pruning_allowed 0 (mx_ladder mx_cut) False (mx_cfg mx_cut)"
    by (simp add: objective_pruning_allowed_def mx_cut_def preset_base_args_def Let_def get_def)
  moreover have "th_eps_f th_demo = f_lit 1 1000" by (simp add: th_demo_def thresholds_of_def calib_state_init_def)
  ultimately show ?thesis
    by (simp add: promotion_stop_def item_cut_def cand_cut_def) (simp add: mx_cut_def lcb get_or_def get_def)
qed

definition mx_stop :: mat_ctx where
  "mx_stop = mx_cut\<lparr>mx_assignment := [2, 2]\<rparr>"

definition ctx_stop :: exec_ctx where
  "ctx_stop = \<lparr>cx_evaluator = const_evaluator, cx_env = env_demo, cx_env_rev = 5, cx_ladder_len = 2, cx_base_steps = [1]\<rparr>"

lemma demo_stopped:
  "\<exists>job cd'. materialize extern0 mx_stop (outcome_computed item_cut est_demo) cand_cut engine_stats_default cache_empty
     = Inr (job, cd', engine_stats_default, decision_cache_put (mat_dkey mx_stop item_cut TagPartial
         (note_estimates item_cut est_demo cand_cut)) (mj_result job) cache_empty) \<and> cd_status cd' = DoneStoppedPartial 0"
proof -
  have "promotion_stop mx_stop item_cut est_demo (note_estimates item_cut est_demo cand_cut)"
    using demo_stop by (simp add: promotion_stop_def mx_stop_def note_estimates_def split: option.splits)
  moreover have fields: "mx_th mx_stop = th_demo" "wi_phi_idx item_cut = 0" "assigned_level mx_stop 1 = 2" "assigned_level mx_stop (Suc 0) = 2"
    by (simp_all add: mx_stop_def mx_cut_def item_cut_def assigned_level_def get_or_def get_def)
  ultimately have step: "\<exists>job cd'. mat_step mx_stop item_cut est_demo 1 (note_estimates item_cut est_demo cand_cut) = Inr (job, cd')
      \<and> cd_status cd' = DoneStoppedPartial 0"
    using demo_cut fields by (simp add: mat_step_def mat_partial_def Let_def)
  have "check_cheap extern0 mx_stop cand_cut = Inr (Cheap_ok, cand_cut)" by (simp add: check_cheap_def cand_cut_def)
  moreover have "wi_phi_idx item_cut = 0" "length (mx_ladder mx_stop) = 2" by (simp_all add: item_cut_def mx_stop_def mx_cut_def)
  ultimately show ?thesis using step by (auto simp: materialize_def outcome_computed_def Let_def)
qed

text \<open>Another candidate at the same point goes on to the second step.\<close>

theorem cached_stop_is_forgotten_witness:
  "\<exists>job cd' dc' est m job' cd3.
     materialize extern0 mx_stop (outcome_computed item_cut est_demo) cand_cut engine_stats_default cache_empty
       = Inr (job, cd', engine_stats_default, dc') \<and> cd_status cd' = DoneStoppedPartial 0
   \<and> execute_one extern0 ctx_stop (item_cut\<lparr>wi_cand_id := 9\<rparr>) \<lparr>ch_eval = cache_empty, ch_decision = dc'\<rparr>
       = Inr (outcome_decision_hit (item_cut\<lparr>wi_cand_id := 9\<rparr>) (Partial est m), \<lparr>ch_eval = cache_empty, ch_decision = dc'\<rparr>)
   \<and> materialize extern0 mx_stop (outcome_decision_hit (item_cut\<lparr>wi_cand_id := 9\<rparr>) (Partial est m)) (cand_cut\<lparr>cd_id := 9\<rparr>)
       engine_stats_default dc' = Inr (job', cd3, engine_stats_default, dc') \<and> cd_status cd3 = Ready \<and> cd_next_phi_idx cd3 = 1"
proof -
  obtain job cd' dc' where m: "materialize extern0 mx_stop (outcome_computed item_cut est_demo) cand_cut engine_stats_default cache_empty
      = Inr (job, cd', engine_stats_default, dc')" "cd_status cd' = DoneStoppedPartial 0" using demo_stopped by blast
  have "\<exists>est m job' cd3. decision_cache_get dc' (item_dkey ctx_stop (item_cut\<lparr>wi_cand_id := 9\<rparr>)) = Some (Partial est m)
    \<and> execute_one extern0 ctx_stop (item_cut\<lparr>wi_cand_id := 9\<rparr>) \<lparr>ch_eval = cache_empty, ch_decision = dc'\<rparr>
       = Inr (outcome_decision_hit (item_cut\<lparr>wi_cand_id := 9\<rparr>) (Partial est m), \<lparr>ch_eval = cache_empty, ch_decision = dc'\<rparr>)
    \<and> materialize extern0 mx_stop (outcome_decision_hit (item_cut\<lparr>wi_cand_id := 9\<rparr>) (Partial est m)) (cand_cut\<lparr>cd_id := 9\<rparr>)
       engine_stats_default dc' = Inr (job', cd3, engine_stats_default, dc')
    \<and> mj_result job' = mj_result job \<and> cd_status cd3 = Ready \<and> cd_next_phi_idx cd3 = 0 + 1"
    by (rule cached_stop_is_forgotten[OF m(1) _ m(2)])
      (simp_all add: outcome_computed_def item_cut_def cand_cut_def mx_stop_def mx_cut_def ctx_stop_def cache_empty_def)
  with m show ?thesis by auto
qed

subsection \<open>The incumbent\<close>

definition accept_demo :: accept_cfg where
  "accept_demo = \<lparr>ac_h0 = 1, ac_h_min = 0, ac_h_shrink = 1, ac_eps_f = 0, ac_eps_v = 0, ac_filter_cap = 8\<rparr>"

text \<open>
  The engine replaces the incumbent by every accepted TRUTH result: after a feasible point of value 2 it accepts a point of
  value 1 that violates a constraint by one half, within the barrier, and reports that one, although the acceptance policy
  remembers the feasible value.
\<close>

theorem feasible_incumbent_replaced:
  fixes rs :: "'s run_state"
  assumes "rn_accept_cfg rn = accept_demo" "rs_accept rs = acceptance_state_new accept_demo"
  shows "let rs1 = accept_job rn (cand_cut\<lparr>cd_x := [0]\<rparr>) (Truth [f_of_int 2] [0] True 0 m) rs;
      rs2 = accept_job rn (cand_cut\<lparr>cd_x := [1]\<rparr>) (Truth [1] [f_lit 5 10] False (f_lit 5 10) m) rs1 in
    rs_x_best rs1 = Some [0] \<and> rs_x_best rs2 = Some [1] \<and> rs_f_best rs2 = Some [1]
    \<and> fs_incumbent_feasible_f (as_filter (rs_accept rs2)) = Some (f_of_int 2)"
proof -
  have d: "\<not> dominates \<lparr>fp_f = f_of_int 2, fp_v = 0\<rparr> \<lparr>fp_f = 1, fp_v = f_lit 5 10\<rparr> 0 0"
    by (simp add: dominates_def f64_eval cong: if_weak_cong)
  have n: "\<not> (1 :: f64) < 0" "(0 :: f64) \<le> 0" "\<not> f_lit 5 10 \<le> (0 :: f64)" "\<not> (1 :: f64) < f_lit 5 10" "f_max 1 (f_max 0 0) = (1 :: f64)"
    by (simp_all add: f64_eval cong: if_weak_cong)
  have f: "is_finite (1 :: f64)" by (rule one_finite)
  have one: "decide_truth accept_demo (acceptance_state_new accept_demo) x (f_of_int 2) 0 = (Accept,
      \<lparr>as_barrier = \<lparr>bs_h = 1\<rparr>, as_filter = \<lparr>fs_points = [\<lparr>fp_f = f_of_int 2, fp_v = 0\<rparr>], fs_incumbent_feasible_f = Some (f_of_int 2)\<rparr>\<rparr>)" for x
    using n f by (simp add: decide_truth_def acceptance_state_new_def barrier_new_def accept_demo_def filter_insert_def Let_def)
  have two: "fst (decide_truth accept_demo s x 1 (f_lit 5 10)) = Accept \<and>
      fs_incumbent_feasible_f (as_filter (snd (decide_truth accept_demo s x 1 (f_lit 5 10)))) = Some (f_of_int 2)"
    if "s = \<lparr>as_barrier = \<lparr>bs_h = 1\<rparr>, as_filter = \<lparr>fs_points = [\<lparr>fp_f = f_of_int 2, fp_v = 0\<rparr>], fs_incumbent_feasible_f = Some (f_of_int 2)\<rparr>\<rparr>" for s x
    using n d by (simp add: that decide_truth_def filter_insert_def accept_demo_def Let_def)
  show ?thesis
    using two[OF refl, of "[1]"] assms
    by (auto simp: accept_job_def one get_or_def get_def Let_def split: prod.splits truth_decision.splits)
qed

subsection \<open>Per-dimension steps\<close>

lemma quantize_short: "i + length xs > length (ag_base_steps g) \<or> i + length xs > length (ag_mesh_muls g) \<Longrightarrow>
  i \<le> length (ag_base_steps g) \<Longrightarrow> i \<le> length (ag_mesh_muls g) \<Longrightarrow> quantize_aniso_from g i xs = Inl Index_out_of_bounds"
  by (induction g i xs rule: quantize_aniso_from.induct) (auto simp: Let_def)

lemma quantize_long: "i + length xs \<le> length (ag_base_steps g) \<Longrightarrow> i + length xs \<le> length (ag_mesh_muls g) \<Longrightarrow>
  \<exists>zs. quantize_aniso_from g i xs = Inr zs"
proof (induction xs arbitrary: i)
  case (Cons v xs)
  then obtain zs where "quantize_aniso_from g (Suc i) xs = Inr zs" by fastforce
  with Cons.prems show ?case by (simp add: Let_def)
qed simp

text \<open>
  Quantising a point panics exactly when the geometry has fewer axes than the point, so per-dimension base steps that
  are fewer than the search dimension stop the run at its first proposal with an index out of bounds: neither
  \<open>EngineConfig\<close> nor the initialisation compares the two lengths.
\<close>

theorem quantize_panics_iff:
  "quantize_real_to_aniso_mesh x g = Inl p \<longleftrightarrow>
     p = Index_out_of_bounds \<and> (length (ag_base_steps g) < length x \<or> length (ag_mesh_muls g) < length x)"
proof (cases "length (ag_base_steps g) < length x \<or> length (ag_mesh_muls g) < length x")
  case True
  then show ?thesis using quantize_short[of g 0 x] by (auto simp: quantize_real_to_aniso_mesh_def)
next
  case False
  then show ?thesis using quantize_long[of 0 x g] by (auto simp: quantize_real_to_aniso_mesh_def)
qed

text \<open>Any non-empty list of positive finite steps is accepted.\<close>

theorem base_steps_unchecked:
  assumes "is_finite (ec_mesh_base_step cfg)" "0 < ec_mesh_base_step cfg" "ec_mesh_base_steps cfg = Some [1]"
  shows "\<exists>geo. init_geo cfg dim = Inr geo \<and> length (ag_base_steps geo) = 1"
proof -
  have "is_finite 1" "(0 :: f64) < 1" by (rule one_finite) (simp add: f64_eval cong: if_weak_cong)
  then show ?thesis using assms by (simp add: init_geo_def Let_def)
qed

end
