(* ===== verification/Stratified.thy ===== *)
theory Stratified
  imports Search
begin

text \<open>
  \<open>policies/stratified_search.rs\<close>: \<open>StratifiedSearch\<close>, the drop-in alternative to \<open>DefaultSearch\<close>. It mixes coordinate
  steps around the incumbent, extrapolation along the last improvement and a Halton sequence. The draws are in the order
  of the code, the index arithmetic panics where the code does, and the two counters wrap as \<open>u64\<close>. The lemmas show that
  the Halton loop returns, that a coordinate step moves at most six coordinates, that the stored direction is normalised
  whatever the roundings, and that the policy meets the contract \<open>search_policy\<close>, so that every theorem on the engine's
  runs holds with it.
\<close>

subsection \<open>The Halton sequence\<close>

text \<open>
  With a base of at least 2 the index shrinks. Base 1 would never end and base 0 would panic; both are \<open>None\<close>, and no call
  has such a base.
\<close>

fun halton_loop :: "nat \<Rightarrow> nat \<Rightarrow> f64 \<Rightarrow> f64 \<Rightarrow> f64 option" where
  "halton_loop base i f r = (if i = 0 then Some r else if base < 2 then None
     else let f' = f / f_of_int (int base) in halton_loop base (i div base) f' (r + f' * f_of_int (int (i mod base))))"

declare halton_loop.simps [simp del]

definition halton :: "u64 \<Rightarrow> nat \<Rightarrow> f64 option" where
  "halton index base = halton_loop base (unat index) 1 0"

definition PRIMES :: "nat list" where
  "PRIMES = [2, 3, 5, 7, 11, 13, 17, 19, 23, 29, 31, 37, 41, 43, 47, 53, 59, 61, 67, 71, 73, 79, 83, 89,
    97, 101, 103, 107, 109, 113, 127, 131, 137, 139, 149, 151, 157, 163, 167, 173, 179, 181, 191,
    193, 197, 199, 211, 223, 227, 229, 233, 239, 241, 251, 257, 263, 269, 271, 277, 281, 283, 293,
    307, 311]"

subsection \<open>The mixture\<close>

record ModeRatios =
  mr_coordinate :: f64
  mr_directional :: f64

definition mode_ratios :: "nat \<Rightarrow> bool \<Rightarrow> ModeRatios" where
  "mode_ratios dim has_direction =
     (let (coord, dir_base) = (if dim \<le> 8 then (f_lit 60 100, f_lit 20 100)
        else if dim < 32 then (f_lit 45 100, f_lit 25 100) else (f_lit 30 100, f_lit 30 100)) in
      \<lparr>mr_coordinate = if has_direction then coord else coord + dir_base * f_lit 5 10,
       mr_directional = if has_direction then dir_base else 0\<rparr>)"

subsection \<open>State\<close>

record stratified_search =
  st_rng :: u64
  st_ctx :: search_ctx
  st_next :: u64
  st_prev_incumbent :: "f64 list option"
  st_improvement_direction :: "f64 list option"
  st_halton_index :: u64

definition stratified_default :: stratified_search where
  "stratified_default = \<lparr>st_rng = 0, st_ctx = search_ctx_default, st_next = 0, st_prev_incumbent = None,
     st_improvement_direction = None, st_halton_index = 0\<rparr>"

definition st_reset :: "env \<Rightarrow> stratified_search \<Rightarrow> stratified_search" where
  "st_reset e d = d\<lparr>st_next := 0, st_rng := search_seed e, st_ctx := search_ctx_default, st_prev_incumbent := None,
     st_improvement_direction := None,
     st_halton_index := drop_bit 32 (ucast (rng_master_seed e) * 0x517cc1b727220a95)\<rparr>"

definition improvement_dir :: "f64 list \<Rightarrow> f64 list \<Rightarrow> f64 list option" where
  "improvement_dir current prev = (let dir = map2 (-) current prev; norm_sq = f_sum (map (\<lambda>d. d * d) dir) in
     if norm_sq > f_lit 1 (10 ^ 30) then (let inv_norm = 1 / f_sqrt norm_sq in Some (map (\<lambda>d. d * inv_norm) dir)) else None)"

definition update_direction :: "stratified_search \<Rightarrow> stratified_search" where
  "update_direction d = (case sx_incumbent_x (st_ctx d) of None \<Rightarrow> d
     | Some current \<Rightarrow> (case st_prev_incumbent d of None \<Rightarrow> d
        | Some prev \<Rightarrow> if length prev = length current then (case improvement_dir current prev of
              Some dir \<Rightarrow> d\<lparr>st_improvement_direction := Some dir\<rparr> | None \<Rightarrow> d) else d)
        \<lparr>st_prev_incumbent := Some current\<rparr>)"

definition st_set_context :: "search_ctx \<Rightarrow> stratified_search \<Rightarrow> stratified_search" where
  "st_set_context c d = update_direction (d\<lparr>st_ctx := c\<rparr>)"

subsection \<open>The three modes\<close>

fun pick_dims :: "nat \<Rightarrow> nat \<Rightarrow> nat list \<Rightarrow> u64 \<Rightarrow> (nat list \<times> u64) res" where
  "pick_dims 0 i idx rng = Inr (idx, rng)"
| "pick_dims (Suc n) i idx rng = (let (w, r) = next_u64 rng; m = length idx - i in
     if m = 0 then Inl Rem_by_zero
     else let j = i + unat w mod m in pick_dims n (Suc i) (idx[i := idx ! j, j := idx ! i]) r)"

fun jumps :: "nat list \<Rightarrow> f64 \<Rightarrow> f64 list \<Rightarrow> u64 \<Rightarrow> f64 list \<times> u64" where
  "jumps [] step x rng = (x, rng)"
| "jumps (k # ks) step x rng = (let (x', r) = jump k 4 step x rng in jumps ks step x' r)"

definition propose_coordinate :: "f64 list \<Rightarrow> f64 \<Rightarrow> u64 \<Rightarrow> (f64 list \<times> u64) res" where
  "propose_coordinate inc step rng = (let dim = length inc; max_perturb = min dim 6; (w, r1) = next_u64 rng in
     if max_perturb = 0 then Inl Rem_by_zero
     else let n_perturb = 1 + unat w mod max_perturb in
       res_bind (pick_dims n_perturb 0 [0..<dim] r1) (\<lambda>(idx, r2). Inr (jumps (take n_perturb idx) step inc r2)))"

fun jitters :: "nat \<Rightarrow> f64 \<Rightarrow> f64 list \<Rightarrow> u64 \<Rightarrow> f64 list \<times> u64" where
  "jitters 0 step x rng = (x, rng)"
| "jitters (Suc n) step x rng = (let (w, r1) = next_u64 rng; k = unat w mod length x;
     (sg, r2) = next_sign r1; (u, r3) = next_f64 r2 in
     jitters n step (x[k := x ! k + sg * (u * f_lit 5 10) * step]) r3)"

definition propose_directional :: "f64 list \<Rightarrow> f64 list \<Rightarrow> f64 \<Rightarrow> u64 \<Rightarrow> (f64 list \<times> u64) res" where
  "propose_directional inc direction step rng = (let dim = length inc; (w, r1) = next_u64 rng;
     scale = 1 + f_of_int (uint (w mod 3)) in
     if length direction < dim then Inl Index_out_of_bounds
     else let x = map2 (\<lambda>v d. v + d * scale * step) inc direction; (w2, r2) = next_u64 r1 in
       if dim = 0 then Inl Rem_by_zero else Inr (jitters (1 + unat w2 mod min 2 dim) step x r2))"

definition propose_halton :: "extern \<Rightarrow> nat \<Rightarrow> f64 \<Rightarrow> u64 \<Rightarrow> f64 list" where
  "propose_halton X dim step idx = (let t = 1 + x_ln_1p X (f_of_int (uint idx) / f_max (f_of_int (int dim)) 1);
     radius = step * f_lit 8 1 * t in
     map (\<lambda>i. let base = PRIMES ! (i mod length PRIMES); offset = of_nat (i div length PRIMES) * 1000;
       h = the (halton (idx + 1 + offset) base) in (f_lit 2 1 * h - 1) * radius) [0..<dim])"

subsection \<open>Proposing\<close>

definition st_point :: "extern \<Rightarrow> nat \<Rightarrow> f64 \<Rightarrow> ModeRatios \<Rightarrow> stratified_search \<Rightarrow> (f64 list \<times> stratified_search) res" where
  "st_point X dim step ratios d = (let (r, r1) = next_f64 (st_rng d);
     with_rng = (\<lambda>p. res_bind p (\<lambda>(x, rng). Inr (x, d\<lparr>st_rng := rng\<rparr>)));
     halton_pt = Inr (propose_halton X dim step (st_halton_index d),
       d\<lparr>st_rng := r1, st_halton_index := st_halton_index d + 1\<rparr>) in
   case sx_incumbent_x (st_ctx d) of
     None \<Rightarrow> halton_pt
   | Some inc \<Rightarrow>
       if r < mr_coordinate ratios then with_rng (propose_coordinate inc step r1)
       else if r < mr_coordinate ratios + mr_directional ratios then
         (case st_improvement_direction d of
            Some dir \<Rightarrow> with_rng (propose_directional inc dir step r1)
          | None \<Rightarrow> with_rng (propose_coordinate inc step r1))
       else halton_pt)"

fun st_propose_loop :: "extern \<Rightarrow> nat \<Rightarrow> nat \<Rightarrow> f64 \<Rightarrow> ModeRatios \<Rightarrow> nat \<Rightarrow> stratified_search \<Rightarrow>
    (raw_cand list \<times> stratified_search) res" where
  "st_propose_loop X iter dim step ratios 0 d = Inr ([], d)"
| "st_propose_loop X iter dim step ratios (Suc n) d = res_bind (st_point X dim step ratios d) (\<lambda>(x, d1).
     res_bind (st_propose_loop X iter dim step ratios n (d1\<lparr>st_next := st_next d1 + 1\<rparr>)) (\<lambda>(rest, d').
       Inr (\<lparr>rc_id = cand_id_of iter (st_next d), rc_x = x\<rparr> # rest, d')))"

definition st_propose :: "extern \<Rightarrow> nat \<Rightarrow> nat \<Rightarrow> stratified_search \<Rightarrow> (raw_cand list \<times> stratified_search) res" where
  "st_propose X iter budget d = (let dim = max (sx_dim (st_ctx d)) 1; step = search_step (st_ctx d);
     ratios = mode_ratios dim (st_improvement_direction d \<noteq> None) in
   st_propose_loop X iter dim step ratios budget d)"

definition st_score :: "raw_cand \<Rightarrow> f64 option \<Rightarrow> stratified_search \<Rightarrow> f64" where
  "st_score rc hint d = search_score (st_ctx d) rc"

definition stratified_ops :: "extern \<Rightarrow> stratified_search search_ops" where
  "stratified_ops X = \<lparr>so_reset = st_reset, so_set_context = st_set_context, so_propose = st_propose X, so_score = st_score\<rparr>"

subsection \<open>The Halton loop returns\<close>

lemma one_le_of_int: "1 \<le> i \<Longrightarrow> 1 \<le> f_of_int i"
proof -
  assume "1 \<le> i"
  then have "fkey (rnd False (1 * int one_units) 1) \<le> fkey (rnd False (i * int one_units) 1)" by (intro rnd_mono) simp_all
  moreover have "f_of_int 1 = 1" by (simp add: f64_eval one_f64_def cong: if_weak_cong)
  ultimately have "fkey 1 \<le> fkey (f_of_int i)" by (simp add: f_of_int_def)
  then show ?thesis by (simp add: less_eq_f64_def f_of_int_def) (simp add: is_nan_def one_f64_def INF_MAG_def)
qed

lemma halton_loop_ok:
  assumes "2 \<le> base" "base \<le> 2 ^ 9" "i < 2 ^ k" "mag_le 0 f" "mag_le m r" "9 \<le> m" "m + k \<le> 1000"
  shows "\<exists>h. halton_loop base i f r = Some h \<and> mag_le (m + k) h"
  using assms
proof (induction k arbitrary: i f r m)
  case 0
  then show ?case by (simp add: halton_loop.simps)
next
  case (Suc k)
  show ?case
  proof (cases "i = 0")
    case True
    then show ?thesis using Suc.prems mag_le_mono[of m r "m + Suc k"] by (simp add: halton_loop.simps)
  next
    case False
    let ?f = "f / f_of_int (int base)" and ?r = "r + f / f_of_int (int base) * f_of_int (int (i mod base))"
    have "is_finite (f_of_int (int base))" using Suc.prems(2) by (intro f_of_int_finite) simp
    then have f: "mag_le 0 ?f" using Suc.prems(1,4) by (intro mag_le_divide one_le_of_int) simp_all
    have "i mod base \<le> base" using Suc.prems(1) by (simp add: less_imp_le)
    then have "mag_le 9 (f_of_int (int (i mod base)))" using Suc.prems(2) by (intro mag_le_of_int) simp
    with f have "mag_le 9 (?f * f_of_int (int (i mod base)))" using mag_le_times[of 0 ?f 9] by simp
    then have r: "mag_le (Suc m) ?r" using Suc.prems mag_le_mono[of 9 _ m] by (intro mag_le_plus) simp_all
    have "i div base \<le> i div 2" using Suc.prems(1) by (intro div_le_mono2) simp_all
    moreover have "i div 2 < 2 ^ k" using Suc.prems(3) by simp
    ultimately have "i div base < 2 ^ k" by linarith
    then obtain h where "halton_loop base (i div base) ?f ?r = Some h" "mag_le (Suc m + k) h"
      using Suc.IH[OF Suc.prems(1,2) _ f r] Suc.prems(6,7) by auto
    then show ?thesis using False Suc.prems(1) by (subst halton_loop.simps) (simp add: Let_def)
  qed
qed

lemma primes_range: "2 \<le> PRIMES ! (i mod length PRIMES) \<and> PRIMES ! (i mod length PRIMES) \<le> 2 ^ 9"
proof -
  have "i mod length PRIMES < length PRIMES" by (intro mod_less_divisor) (simp add: PRIMES_def)
  then have "PRIMES ! (i mod length PRIMES) \<in> set PRIMES" by (rule nth_mem)
  then show ?thesis by (auto simp: PRIMES_def)
qed

lemma halton_ok: "\<exists>h. halton w (PRIMES ! (i mod length PRIMES)) = Some h \<and> mag_le 73 h"
proof -
  have "unat w < 2 ^ 64" using unsigned_less[of w] by simp
  then show ?thesis unfolding halton_def
    using halton_loop_ok[of "PRIMES ! (i mod length PRIMES)" "unat w" 64 1 9 0] primes_range[of i] by simp
qed

lemma f_max_one: "\<not> is_nan x \<Longrightarrow> 1 \<le> f_max x 1"
  by (auto simp: f_max_def f64_ord_defs f64_pred_defs one_f64_def INF_MAG_def)

lemma propose_halton_ok:
  assumes ln: "ln_1p_bounded X" and step: "mag_le 863 step" and dim: "dim < 2 ^ 63"
  shows "length (propose_halton X dim step idx) = dim \<and> (\<forall>v \<in> set (propose_halton X dim step idx). mag_le 1006 v)"
proof -
  let ?y = "f_max (f_of_int (int dim)) 1" and ?i = "f_of_int (uint idx)"
  have "is_finite (f_of_int (int dim))" using dim by (intro mag_le_finite[of 63] mag_le_of_int) simp_all
  then have y: "1 \<le> ?y" "is_finite ?y" using f_max_one f_max_finite[of _ 1] finite_not_nan by (simp_all add: mag_le_finite[of 0])
  have i: "mag_le 64 ?i" "0 \<le> ?i" using uint_lt2p[of idx] by (auto intro!: mag_le_of_int f_of_int_nonneg)
  have q: "mag_le 64 (?i / ?y)" using i y by (intro mag_le_divide) simp_all
  have "0 \<le> ?i / ?y" using i y mag_le_not_nan[OF q] by (intro div_nonneg_f64) (auto simp: f64_ord_defs one_f64_def fkey_def split: if_splits)
  then have "mag_le 64 (x_ln_1p X (?i / ?y))" using ln q by (simp add: ln_1p_bounded_def)
  then have t: "mag_le 65 (1 + x_ln_1p X (?i / ?y))" using mag_le_plus[of 64 1] by simp
  have "mag_le (863 + 3) (step * f_lit 8 1)" using step by (intro mag_le_times mag_le_lit) simp_all
  then have rad: "mag_le 931 (step * f_lit 8 1 * (1 + x_ln_1p X (?i / ?y)))" using t mag_le_times[of 866 _ 65] by simp
  have "mag_le 1006 ((f_lit 2 1 * the (halton w (PRIMES ! (i mod length PRIMES))) - 1) * (step * f_lit 8 1 * (1 + x_ln_1p X (?i / ?y))))" for w i
  proof -
    obtain h where h: "halton w (PRIMES ! (i mod length PRIMES)) = Some h" "mag_le 73 h" using halton_ok by blast
    have "mag_le (1 + 73) (f_lit 2 1 * h)" using h by (intro mag_le_times mag_le_lit) simp_all
    then have "mag_le 75 (f_lit 2 1 * h - 1)" using mag_le_diff[of 74 _ 1] by simp
    then show ?thesis using rad h(1) mag_le_times[of 75 _ 931] by simp
  qed
  then show ?thesis by (auto simp: propose_halton_def Let_def)
qed

subsection \<open>A coordinate step\<close>

lemma pick_dims_ok: "i + n \<le> length idx \<Longrightarrow> \<exists>idx' r. pick_dims n i idx rng = Inr (idx', r) \<and> mset idx' = mset idx"
proof (induction n arbitrary: i idx rng)
  case (Suc n)
  obtain w r where w: "next_u64 rng = (w, r)" by (metis surj_pair)
  define j where "j = i + unat w mod (length idx - i)"
  have "unat w mod (length idx - i) < length idx - i" using Suc.prems by (intro mod_less_divisor) simp
  then have j: "i < length idx" "j < length idx" unfolding j_def by linarith+
  then have "mset (idx[i := idx ! j, j := idx ! i]) = mset idx" by (intro mset_swap)
  with Suc.IH[of "Suc i" "idx[i := idx ! j, j := idx ! i]" r] Suc.prems j show ?case by (simp add: w Let_def flip: j_def)
qed simp

lemma jumps_ok:
  assumes "\<forall>v \<in> set x. mag_le m v" "\<forall>k \<in> set ks. k < length x" "mag_le 863 step" "866 \<le> m" "m + length ks \<le> 1000"
  shows "length (fst (jumps ks step x rng)) = length x \<and> (\<forall>v \<in> set (fst (jumps ks step x rng)). mag_le (m + length ks) v)
    \<and> (\<forall>i < length x. i \<notin> set ks \<longrightarrow> fst (jumps ks step x rng) ! i = x ! i)"
  using assms
proof (induction ks arbitrary: x rng m)
  case (Cons k ks)
  obtain x' r where j: "jump k 4 step x rng = (x', r)" by (metis surj_pair)
  have "length x' = length x \<and> (\<forall>v \<in> set x'. mag_le (Suc m) v)"
    using jump_ok[OF Cons.prems(1) _ Cons.prems(3), of k 4 rng] Cons.prems j by simp
  moreover have "\<forall>i. i \<noteq> k \<longrightarrow> x' ! i = x ! i" using j by (auto simp: jump_def Let_def split: prod.splits)
  ultimately show ?case using Cons.IH[of x' "Suc m" r] Cons.prems by (simp add: j)
qed simp

text \<open>At least one and at most six coordinates move, and they are distinct.\<close>

lemma propose_coordinate_ok:
  assumes x: "\<forall>v \<in> set inc. mag_le 864 v" and step: "mag_le 863 step" and D: "inc \<noteq> []"
  shows "\<exists>x r ks. propose_coordinate inc step rng = Inr (x, r) \<and> length x = length inc \<and> (\<forall>v \<in> set x. mag_le 1006 v)
    \<and> distinct ks \<and> 1 \<le> length ks \<and> length ks \<le> min (length inc) 6 \<and> (\<forall>i < length inc. i \<notin> set ks \<longrightarrow> x ! i = inc ! i)"
proof -
  let ?D = "length inc"
  obtain w r1 where w: "next_u64 rng = (w, r1)" by (metis surj_pair)
  define n where "n = 1 + unat w mod min ?D 6"
  have mp: "0 < min ?D 6" using D by simp
  then have n: "1 \<le> n" "n \<le> min ?D 6" using mod_less_divisor[OF mp, of "unat w"] by (simp_all add: n_def)
  obtain idx r2 where p: "pick_dims n 0 [0..<?D] r1 = Inr (idx, r2)" "mset idx = mset [0..<?D]"
    using pick_dims_ok[of 0 n "[0..<?D]" r1] n by auto
  have idx: "distinct idx" "set idx = {0..<?D}" "length idx = ?D"
    using p(2) mset_eq_imp_distinct_iff[OF p(2)] mset_eq_setD[OF p(2)] mset_eq_length[OF p(2)] by simp_all
  define ks where "ks = take n idx"
  have ks: "distinct ks" "\<forall>k \<in> set ks. k < ?D" "length ks = n" using idx n by (auto simp: ks_def dest: in_set_takeD)
  have x': "\<forall>v \<in> set inc. mag_le 866 v" using x mag_le_mono by fastforce
  note j = jumps_ok[OF x' ks(2) step, of r2]
  have m: "mag_le 1006 v" if "mag_le (866 + length ks) v" for v using that n ks(3) by (elim mag_le_mono) simp
  obtain y r3 where y: "jumps ks step inc r2 = (y, r3)" by (metis surj_pair)
  have "propose_coordinate inc step rng = Inr (y, r3)" 
    unfolding propose_coordinate_def w Let_def prod.case n_def[symmetric] p(1) using D by (simp add: y flip: ks_def)
  with j ks n m show ?thesis by (intro exI[of _ y] exI[of _ r3] exI[of _ ks]) (simp add: y)
qed

subsection \<open>The improvement direction\<close>

lemma nonneg_add_ge: "0 \<le> x \<Longrightarrow> 0 \<le> y \<Longrightarrow> x \<le> x + y \<and> y \<le> (x + y :: f64)"
proof (cases "is_finite x \<and> is_finite y")
  case True
  assume "0 \<le> x" "0 \<le> y"
  moreover have "x + y = y + x" using True by (simp add: finite_add add.commute conj_commute)
  ultimately show ?thesis using True add_increasing_f64[of x y] add_increasing_f64[of y x] by simp
next
  case False
  assume "0 \<le> x" "0 \<le> y"
  then show ?thesis using False
    by (auto simp: plus_f64_def nonneg_iff f64_ord_defs f64_pred_defs fkey_def INF_MAG_def split: if_splits)
qed

lemma fold_nonneg_ge: "0 \<le> s \<Longrightarrow> (\<And>v. v \<in> set xs \<Longrightarrow> 0 \<le> v) \<Longrightarrow>
  s \<le> fold (\<lambda>x acc. acc + x) xs s \<and> (\<forall>v \<in> set xs. v \<le> fold (\<lambda>x acc. acc + x) xs (s :: f64))"
proof (induction xs arbitrary: s)
  case Nil
  then show ?case by (simp add: f_le_refl less_eq_f64_def)
next
  case (Cons x xs)
  have "0 \<le> x" using Cons.prems by simp
  then have a: "0 \<le> s + x" "s \<le> s + x" "x \<le> s + x" using Cons.prems(1) add_nonneg_f64 nonneg_add_ge by blast+
  from Cons.IH[OF a(1)] Cons.prems have "s + x \<le> fold (\<lambda>x acc. acc + x) xs (s + x)"
    "\<forall>v \<in> set xs. v \<le> fold (\<lambda>x acc. acc + x) xs (s + x)" by auto
  with a show ?case by (auto intro: f_le_trans)
qed

lemma f_sum_ge: "(\<And>v. v \<in> set xs \<Longrightarrow> 0 \<le> v) \<Longrightarrow> v \<in> set xs \<Longrightarrow> v \<le> f_sum xs"
proof -
  assume "\<And>v. v \<in> set xs \<Longrightarrow> 0 \<le> v" "v \<in> set xs"
  moreover have "0 \<le> (- 0 :: f64)" by (simp add: nonneg_iff is_zero_def uminus_f64_def) (simp add: is_nan_def)
  ultimately show ?thesis unfolding f_sum_def using fold_nonneg_ge[of "- 0" xs] by blast
qed

lemma improvement_dir_ok:
  assumes "improvement_dir cur prev = Some dir" "length prev = length cur"
    and "\<forall>v \<in> set cur. mag_le 864 v" "\<forall>v \<in> set prev. mag_le 864 v"
  shows "length dir = length cur \<and> (\<forall>v \<in> set dir. mag_le 1 v)"
proof -
  define ds where "ds = map2 (-) cur prev"
  define s where "s = f_sum (map (\<lambda>d. d * d) ds)"
  have d: "dir = map (\<lambda>d. d * (1 / f_sqrt s)) ds" "f_lit 1 (10 ^ 30) < s"
    using assms(1) by (simp_all add: improvement_dir_def Let_def ds_def s_def split: if_splits)
  have fin: "is_finite v" if "v \<in> set ds" for v
  proof -
    from that obtain a b where "v = a - b" "a \<in> set cur" "b \<in> set prev" by (auto simp: ds_def dest: set_zip_leftD set_zip_rightD)
    then show ?thesis using mag_le_diff[of 864 a b] assms(3,4) mag_le_finite[of 865 v] by simp
  qed
  then have "0 \<le> v * v" if "v \<in> set ds" for v using that by (intro square_nonneg_f64 mult_not_nan) simp_all
  then have "v * v \<le> s" if "v \<in> set ds" for v using that unfolding s_def by (intro f_sum_ge) auto
  then have "mag_le 1 (v * (1 / f_sqrt s))" if "v \<in> set ds" for v using that d(2) fin by (intro normalised_mag) simp_all
  moreover have "length ds = length cur" using assms(2) by (simp add: ds_def)
  ultimately show ?thesis by (auto simp: d(1))
qed

subsection \<open>A directional step\<close>

lemma jitters_ok:
  assumes "\<forall>v \<in> set x. mag_le m v" "x \<noteq> []" "mag_le 863 step" "916 \<le> m" "m + n \<le> 1000"
  shows "length (fst (jitters n step x rng)) = length x \<and> (\<forall>v \<in> set (fst (jitters n step x rng)). mag_le (m + n) v)"
  using assms
proof (induction n arbitrary: x m rng)
  case (Suc n)
  obtain w r1 where w: "next_u64 rng = (w, r1)" by (metis surj_pair)
  obtain sg r2 where sg: "next_sign r1 = (sg, r2)" by (metis surj_pair)
  obtain u r3 where u: "next_f64 r2 = (u, r3)" by (metis surj_pair)
  let ?k = "unat w mod length x"
  let ?x = "x[?k := x ! ?k + sg * (u * f_lit 5 10) * step]"
  have k: "?k < length x" using Suc.prems(2) by simp
  have "mag_le (53 + 0) (u * f_lit 5 10)" using next_f64_mag[of r2] u by (intro mag_le_times mag_le_lit) simp_all
  then have "mag_le (0 + 53) (sg * (u * f_lit 5 10))" using next_sign_mag[of r1] sg by (intro mag_le_times) simp_all
  then have "mag_le (53 + 863) (sg * (u * f_lit 5 10) * step)" using Suc.prems(3) by (intro mag_le_times) simp_all
  then have "mag_le m (sg * (u * f_lit 5 10) * step)" using Suc.prems(4) by (elim mag_le_mono) simp
  then have "mag_le (Suc m) (x ! ?k + sg * (u * f_lit 5 10) * step)" using Suc.prems k by (intro mag_le_plus) simp_all
  moreover have "\<forall>v \<in> set x. mag_le (Suc m) v" using Suc.prems(1) mag_le_mono[of m _ "Suc m"] by auto
  ultimately have "\<forall>v \<in> set ?x. mag_le (Suc m) v" by (auto dest: set_update_subset_insert[THEN subsetD])
  from Suc.IH[OF this, of r3] Suc.prems show ?case by (simp add: w sg u Let_def)
qed simp

lemma propose_directional_ok:
  assumes x: "\<forall>v \<in> set inc. mag_le 864 v" and dir: "\<forall>v \<in> set dir. mag_le 1 v" "length dir = length inc"
    and step: "mag_le 863 step" and D: "inc \<noteq> []"
  shows "\<exists>x r. propose_directional inc dir step rng = Inr (x, r) \<and> length x = length inc \<and> (\<forall>v \<in> set x. mag_le 1006 v)"
proof -
  obtain w r1 where w: "next_u64 rng = (w, r1)" by (metis surj_pair)
  obtain w2 r2 where w2: "next_u64 r1 = (w2, r2)" by (metis surj_pair)
  define sc where "sc = 1 + f_of_int (uint (w mod 3))"
  have "uint (w mod 3) < 3" using word_mod_less_divisor[of 3 w] by (simp add: word_less_def)
  then have "mag_le 1 (f_of_int (uint (w mod 3)))" by (intro mag_le_of_int) simp
  then have sc: "mag_le 2 sc" using mag_le_plus[of 1 1] by (simp add: sc_def numeral_2_eq_2)
  define y where "y = map2 (\<lambda>v d. v + d * sc * step) inc dir"
  have "mag_le 916 (v + d * sc * step)" if "v \<in> set inc" "d \<in> set dir" for v d
  proof -
    have "mag_le 3 (d * sc)" using that dir(1) sc mag_le_times[of 1 d 2 sc] by (simp add: numeral_eq_Suc)
    then have "mag_le (3 + 863) (d * sc * step)" using step by (intro mag_le_times) simp_all
    moreover have "mag_le 866 v" using that x mag_le_mono by fastforce
    ultimately have "mag_le 867 (v + d * sc * step)" using mag_le_plus[of 866] by simp
    then show ?thesis by (rule mag_le_mono) simp
  qed
  then have y: "\<forall>v \<in> set y. mag_le 916 v" "length y = length inc" "y \<noteq> []"
    using dir(2) D by (auto simp: y_def dest: set_zip_leftD set_zip_rightD)
  define n where "n = 1 + unat w2 mod min 2 (length inc)"
  have "0 < min 2 (length inc)" using D by simp
  from mod_less_divisor[OF this, of "unat w2"] have n: "n \<le> 2" by (simp add: n_def)
  note j = jitters_ok[OF y(1,3) step, of n r2]
  obtain z r3 where z: "jitters n step y r2 = (z, r3)" by (metis surj_pair)
  have "propose_directional inc dir step rng = Inr (z, r3)"
    unfolding propose_directional_def w Let_def prod.case sc_def[symmetric] w2 n_def[symmetric] y_def[symmetric]
    using D dir(2) z by simp
  moreover have "mag_le 1006 v" if "mag_le (916 + n) v" for v using that n by (elim mag_le_mono) simp
  ultimately show ?thesis using j n y(2) z by auto
qed

subsection \<open>The contract\<close>

definition st_inv :: "nat \<Rightarrow> stratified_search \<Rightarrow> bool" where
  "st_inv D d \<longleftrightarrow> (\<forall>p. st_prev_incumbent d = Some p \<longrightarrow> length p = D \<and> (\<forall>v \<in> set p. mag_le 864 v))
     \<and> (\<forall>dir. st_improvement_direction d = Some dir \<longrightarrow> length dir = D \<and> (\<forall>v \<in> set dir. mag_le 1 v))"

lemma st_set_context_ok:
  assumes "st_inv D d" "ctx_bounded c" "ctx_dim D c"
  shows "st_inv D (st_set_context c d) \<and> st_ctx (st_set_context c d) = c \<and> st_next (st_set_context c d) = st_next d"
proof (cases "sx_incumbent_x c")
  case None
  then show ?thesis using assms(1) by (simp add: st_set_context_def update_direction_def st_inv_def)
next
  case (Some cur)
  have cur: "length cur = D" "\<forall>v \<in> set cur. mag_le 864 v" using assms(2,3) Some by (simp_all add: ctx_bounded_def ctx_dim_def)
  show ?thesis
  proof (cases "st_prev_incumbent d")
    case None
    then show ?thesis using assms(1) cur Some by (simp add: st_set_context_def update_direction_def st_inv_def)
  next
    case (Some prev)
    then have prev: "length prev = D" "\<forall>v \<in> set prev. mag_le 864 v" using assms(1) by (simp_all add: st_inv_def)
    have "length dir = D \<and> (\<forall>v \<in> set dir. mag_le 1 v)" if "improvement_dir cur prev = Some dir" for dir
      using improvement_dir_ok[OF that] cur prev by simp
    then show ?thesis using assms(1) cur prev Some \<open>sx_incumbent_x c = Some cur\<close>
      by (auto simp: st_set_context_def update_direction_def st_inv_def split: option.split)
  qed
qed

lemma st_point_ok:
  assumes ln: "ln_1p_bounded X" and inv: "st_inv D d" and c: "ctx_bounded (st_ctx d)" "ctx_dim D (st_ctx d)"
  shows "\<exists>x d'. st_point X D (search_step (st_ctx d)) ratios d = Inr (x, d') \<and> length x = D \<and> (\<forall>v \<in> set x. mag_le 1006 v)
    \<and> st_inv D d' \<and> st_ctx d' = st_ctx d \<and> st_next d' = st_next d
    \<and> st_improvement_direction d' = st_improvement_direction d"
proof -
  note step = search_step_mag[OF c(1)]
  have D: "0 < D" "D < 2 ^ 63" using c by (auto simp: ctx_dim_def ctx_bounded_def)
  obtain u r1 where u: "next_f64 (st_rng d) = (u, r1)" by (metis surj_pair)
  note h = propose_halton_ok[OF ln step D(2), of "st_halton_index d"]
  show ?thesis
  proof (cases "sx_incumbent_x (st_ctx d)")
    case None
    with h inv show ?thesis by (simp add: st_point_def u Let_def st_inv_def)
  next
    case (Some inc)
    then have inc: "length inc = D" "\<forall>v \<in> set inc. mag_le 864 v" "inc \<noteq> []"
      using c D by (auto simp: ctx_dim_def ctx_bounded_def)
    obtain x r where co: "propose_coordinate inc (search_step (st_ctx d)) r1 = Inr (x, r)" "length x = D" "\<forall>v \<in> set x. mag_le 1006 v"
      using propose_coordinate_ok[OF inc(2) step inc(3), of r1] inc(1) by auto
    have di: "\<exists>x r. propose_directional inc dir (search_step (st_ctx d)) r1 = Inr (x, r) \<and> length x = D \<and> (\<forall>v \<in> set x. mag_le 1006 v)"
      if "st_improvement_direction d = Some dir" for dir
      using propose_directional_ok[OF inc(2) _ _ step inc(3), of dir r1] that inv inc(1) by (simp add: st_inv_def)
    show ?thesis
    proof (cases "st_improvement_direction d")
      case None
      with Some h co inv show ?thesis by (simp add: st_point_def u Let_def st_inv_def)
    next
      case (Some dir)
      obtain y r' where "propose_directional inc dir (search_step (st_ctx d)) r1 = Inr (y, r')" "length y = D" "\<forall>v \<in> set y. mag_le 1006 v"
        using di[OF Some] by blast
      with Some \<open>sx_incumbent_x (st_ctx d) = Some inc\<close> h co inv show ?thesis by (simp add: st_point_def u Let_def st_inv_def)
    qed
  qed
qed

lemma st_propose_loop_ok:
  assumes ln: "ln_1p_bounded X" and inv: "st_inv D d" and c: "ctx_bounded (st_ctx d)" "ctx_dim D (st_ctx d)"
  shows "\<exists>raw d'. st_propose_loop X iter D (search_step (st_ctx d)) ratios n d = Inr (raw, d') \<and> length raw = n
    \<and> st_inv D d' \<and> st_ctx d' = st_ctx d \<and> st_next d' = st_next d + of_nat n
    \<and> map rc_id raw = map (\<lambda>j. cand_id_of iter (st_next d + of_nat j)) [0..<n]
    \<and> (\<forall>rc \<in> set raw. length (rc_x rc) = D \<and> (\<forall>v \<in> set (rc_x rc). mag_le 1006 v))"
  using inv c
proof (induction n arbitrary: d)
  case (Suc n)
  obtain x d1 where x: "st_point X D (search_step (st_ctx d)) ratios d = Inr (x, d1)" "length x = D" "\<forall>v \<in> set x. mag_le 1006 v"
    "st_inv D d1" "st_ctx d1 = st_ctx d" "st_next d1 = st_next d" using st_point_ok[OF ln Suc.prems] by blast
  let ?d = "d1\<lparr>st_next := st_next d1 + 1\<rparr>"
  have "st_inv D ?d" "st_ctx ?d = st_ctx d" "st_next ?d = st_next d + 1" using x by (simp_all add: st_inv_def)
  then obtain raw d' where l: "st_propose_loop X iter D (search_step (st_ctx d)) ratios n ?d = Inr (raw, d')" "length raw = n" "st_inv D d'"
    "st_ctx d' = st_ctx d" "st_next d' = st_next d + 1 + of_nat n"
    "map rc_id raw = map (\<lambda>j. cand_id_of iter (st_next d + 1 + of_nat j)) [0..<n]"
    "\<forall>rc \<in> set raw. length (rc_x rc) = D \<and> (\<forall>v \<in> set (rc_x rc). mag_le 1006 v)"
    using Suc.IH[of ?d] Suc.prems by auto
  have "map (\<lambda>j. cand_id_of iter (st_next d + of_nat j)) [0..<Suc n] =
    cand_id_of iter (st_next d) # map (\<lambda>j. cand_id_of iter (st_next d + 1 + of_nat j)) [0..<n]"
    by (simp add: upt_conv_Cons map_Suc_upt[symmetric] add.assoc del: upt_Suc)
  then show ?case using x l by (simp add: add.assoc del: upt_Suc)
qed simp

lemma st_propose_ok:
  assumes "ln_1p_bounded X" "st_inv D d" "ctx_bounded c" "ctx_dim D c"
  shows "\<exists>raw d'. st_propose X iter n (st_set_context c d) = Inr (raw, d') \<and> length raw = n
    \<and> st_inv D d' \<and> st_ctx d' = c \<and> st_next d' = st_next d + of_nat n
    \<and> map rc_id raw = map (\<lambda>j. cand_id_of iter (st_next d + of_nat j)) [0..<n]
    \<and> (\<forall>rc \<in> set raw. length (rc_x rc) = D \<and> (\<forall>v \<in> set (rc_x rc). mag_le 1006 v))"
proof -
  note sc = st_set_context_ok[OF assms(2-4)]
  then have c: "st_inv D (st_set_context c d)" "ctx_bounded (st_ctx (st_set_context c d))" "ctx_dim D (st_ctx (st_set_context c d))"
    using assms(3,4) by simp_all
  have "max (sx_dim c) 1 = D" using assms(4) by (simp add: ctx_dim_def)
  then show ?thesis using st_propose_loop_ok[OF assms(1) c] sc by (simp add: st_propose_def Let_def)
qed

interpretation stratified_s: search_policy X "stratified_ops X" st_inv for X
proof
  show "st_inv D (so_reset (stratified_ops X) e s)" for D e s
    by (simp add: stratified_ops_def st_reset_def st_inv_def)
  show "\<exists>raw s'. so_propose (stratified_ops X) iter n (so_set_context (stratified_ops X) c s) = Inr (raw, s') \<and> length raw = n
      \<and> st_inv D s' \<and> (\<forall>rc \<in> set raw. cand_usable (stratified_ops X) s' D rc)"
    if "ln_1p_bounded X" "ctx_bounded c" "ctx_dim D c" "iter < 2 ^ 64" "st_inv D s" for D c iter n s
  proof -
    note h = that
    obtain raw d' where d: "st_propose X iter n (st_set_context c s) = Inr (raw, d')" "length raw = n" "st_inv D d'" "st_ctx d' = c"
      "\<forall>rc \<in> set raw. length (rc_x rc) = D \<and> (\<forall>v \<in> set (rc_x rc). mag_le 1006 v)"
      using st_propose_ok[OF h(1,5,2,3), of iter n] by auto
    then show ?thesis using search_score_num[OF h(2), of _ 1006] mag_le_finite
      by (fastforce simp: stratified_ops_def cand_usable_def st_score_def)
  qed
qed

subsection \<open>A whole run of the policy\<close>

text \<open>The calls the engine makes after a reset: a context, then the proposals of an iteration under a budget.\<close>

fun st_run :: "extern \<Rightarrow> (search_ctx \<times> nat \<times> nat) list \<Rightarrow> stratified_search \<Rightarrow> (raw_cand list list \<times> stratified_search) res" where
  "st_run X [] d = Inr ([], d)"
| "st_run X ((c, iter, n) # calls) d = res_bind (st_propose X iter n (st_set_context c d)) (\<lambda>(raw, d1).
     res_bind (st_run X calls d1) (\<lambda>(raws, d2). Inr (raw # raws, d2)))"

definition call_met :: "nat \<Rightarrow> search_ctx \<times> nat \<times> nat \<Rightarrow> raw_cand list \<Rightarrow> bool" where
  "call_met D call raw \<longleftrightarrow> length raw = snd (snd call)
     \<and> (\<forall>rc \<in> set raw. length (rc_x rc) = D \<and> (\<forall>v \<in> set (rc_x rc). is_finite v))"

lemma st_run_ok:
  assumes "ln_1p_bounded X" "st_inv D d" "\<forall>call \<in> set calls. ctx_bounded (fst call) \<and> ctx_dim D (fst call)"
  shows "\<exists>raws d'. st_run X calls d = Inr (raws, d') \<and> list_all2 (call_met D) calls raws
    \<and> st_next d' = st_next d + of_nat (sum_list (map (\<lambda>call. snd (snd call)) calls)) \<and> st_inv D d'"
  using assms(2,3)
proof (induction calls arbitrary: d)
  case (Cons call calls)
  obtain c iter n where call: "call = (c, iter, n)" by (metis surj_pair)
  obtain raw d1 where p: "st_propose X iter n (st_set_context c d) = Inr (raw, d1)" "length raw = n" "st_inv D d1"
    "st_next d1 = st_next d + of_nat n" "\<forall>rc \<in> set raw. length (rc_x rc) = D \<and> (\<forall>v \<in> set (rc_x rc). mag_le 1006 v)"
    using st_propose_ok[OF assms(1) Cons.prems(1), of c iter n] Cons.prems(2) call by auto
  then have "call_met D call raw" using mag_le_finite[of 1006] by (auto simp: call_met_def call)
  moreover obtain raws d2 where "st_run X calls d1 = Inr (raws, d2)" "list_all2 (call_met D) calls raws"
    "st_next d2 = st_next d1 + of_nat (sum_list (map (\<lambda>call. snd (snd call)) calls))" "st_inv D d2"
    using Cons.IH[OF p(3)] Cons.prems(2) by auto
  ultimately show ?case using p by (simp add: call add.assoc)
qed simp

text \<open>
  C20: \<open>StratifiedSearch\<close> never panics. After a reset, whatever contexts of one dimension it is given and whatever the budgets,
  every call returns as many candidates as its budget allows, each a finite point of that dimension (so that the checked
  conversion and the projection onto the mesh succeed), and the counter of the ids advances by one for each.
\<close>

theorem stratified_run_safe:
  assumes "ln_1p_bounded X" "\<forall>call \<in> set calls. ctx_bounded (fst call) \<and> ctx_dim D (fst call)"
  shows "\<exists>raws d'. st_run X calls (st_reset e d) = Inr (raws, d') \<and> list_all2 (call_met D) calls raws
    \<and> st_next d' = of_nat (sum_list (map (\<lambda>call. snd (snd call)) calls))"
proof -
  have "st_inv D (st_reset e d)" "st_next (st_reset e d) = 0" by (simp_all add: st_reset_def st_inv_def)
  with st_run_ok[OF assms(1) this(1) assms(2)] show ?thesis by auto
qed

text \<open>Two calls in dimension 2: first without an incumbent, then at the point (1, 1).\<close>

definition calls_demo :: "(search_ctx \<times> nat \<times> nat) list" where
  "calls_demo = [(\<lparr>sx_dim = 2, sx_incumbent_x = None, sx_mesh_steps = [1, 1]\<rparr>, 0, 4),
     (\<lparr>sx_dim = 2, sx_incumbent_x = Some [1, 1], sx_mesh_steps = [1, 1]\<rparr>, 1, 3)]"

theorem stratified_run_safe_witness:
  "\<forall>e d. \<exists>raws d'. st_run extern0 calls_demo (st_reset e d) = Inr (raws, d')
    \<and> list_all2 (call_met 2) calls_demo raws \<and> st_next d' = 7"
proof (intro allI)
  fix e d
  have "ln_1p_bounded extern0" by (simp add: ln_1p_bounded_def extern0_def)
  moreover have "\<forall>call \<in> set calls_demo. ctx_bounded (fst call) \<and> ctx_dim 2 (fst call)"
    by (simp add: calls_demo_def ctx_bounded_def ctx_dim_def)
  ultimately have "\<exists>raws d'. st_run extern0 calls_demo (st_reset e d) = Inr (raws, d')
    \<and> list_all2 (call_met 2) calls_demo raws \<and> st_next d' = of_nat (sum_list (map (\<lambda>call. snd (snd call)) calls_demo))"
    by (rule stratified_run_safe)
  then show "\<exists>raws d'. st_run extern0 calls_demo (st_reset e d) = Inr (raws, d')
    \<and> list_all2 (call_met 2) calls_demo raws \<and> st_next d' = 7" by (simp add: calls_demo_def)
qed

end
