(* ===== verification/Engine_Props.thy ===== *)
theory Engine_Props
  imports Engine_Reach Step_Props Stratified
begin

text \<open>
  What the engine guarantees, over whole runs: every run ends, an accepted configuration runs to completion without a
  panic, the reported incumbent is a TRUTH evaluation of its point and the caches are left fit for the next run, the
  revision keys of the decision cache identify the policy, statistics count every outcome, and the tuned chunk stays in
  its range.
\<close>

subsection \<open>Runs end\<close>

lemma run_ok:
  assumes "executor_contract X run" "caches_fit X threads so cfg e workers ev eg"
  shows "\<exists>r. run_with_evaluator X threads so run cfg e workers ev eg = Some r \<and> (\<forall>out eg'. r = Inr (out, eg') \<longrightarrow>
    (\<exists>rn rs rs'. engine_init X threads so cfg e workers ev eg = Inr (rn, rs) \<and> run_inv X (run_exec_ctx rn rs) rn rs'
      \<and> out = engine_output_of rs' \<and> eg' = rs_engine rs'))"
proof (cases "engine_init X threads so cfg e workers ev eg")
  case (Inr p)
  then obtain rn rs where i: "engine_init X threads so cfg e workers ev eg = Inr (rn, rs)" by (cases p) auto
  then have "caches_sound X (run_exec_ctx rn rs) (eg_caches eg)" using assms(2) by (simp add: caches_fit_def)
  note inv = engine_init_inv[OF i this]
  obtain r where r: "iterations X so run rn [0..<ec_max_iters cfg] rs = Some r"
    "\<forall>rs'. r = Inr rs' \<longrightarrow> run_inv X (run_exec_ctx rn rs) rn rs'"
    using executor_contract.iterations_ok[OF assms(1) conjunct2[OF inv] conjunct1[OF inv]] by blast
  then show ?thesis using i by (cases r) (auto simp: run_with_evaluator_def)
qed (simp add: run_with_evaluator_def)

text \<open>
  C2: every run ends. For any configuration, black box and search policy (panicking ones included) and any executor that
  returns one outcome per item, \<open>run_with_evaluator\<close> returns a result or panics; it never loops: each pass of the inner
  loop injects the poll points, at most once per iteration, or moves every dispatched candidate further up the ladder.
\<close>

theorem run_ends:
  assumes "executor_contract X run" "caches_fit X threads so cfg e workers ev eg"
  shows "\<exists>r. run_with_evaluator X threads so run cfg e workers ev eg = Some r"
  using run_ok[OF assms] by blast

lemma caches_empty_fit: "eg_caches eg = caches_empty \<Longrightarrow> caches_fit X threads so cfg e workers ev eg"
  by (simp add: caches_fit_def caches_empty_sound split: sum.split prod.split)

lemma inline_contract: "executor_contract X (inline_runner X)"
  by (rule inline.executor_contract_axioms)

definition toy_engine :: "default_search engine" where
  "toy_engine = engine_default default_search_default"

lemma toy_engine_fit: "caches_fit X threads so cfg e workers ev toy_engine"
  by (rule caches_empty_fit) (simp add: toy_engine_def engine_default_def)

theorem run_ends_witness:
  "\<exists>r. run_with_evaluator extern0 True (default_search_ops extern0) (inline_runner extern0)
     (preset_base_args\<lparr>ec_max_steps_per_iter := None, ec_max_iters := 1000\<rparr>) env_demo 1 const_evaluator toy_engine = Some r"
  by (rule run_ends[OF inline_contract toy_engine_fit])

subsection \<open>Accepted configurations run to completion\<close>

lemma accepted_run_ok:
  assumes "engine_cfg_new p = Inr cfg" "cfg_in_range cfg ev" "evaluator_total ev" "objective_safe ev"
    and "extern_ok X" "ln_1p_bounded X" "search_policy X so sinv" "reliable_executor X run"
    and "da_modulus (eg_audit eg) \<noteq> 0" "caches_fit X threads so cfg e workers ev eg"
  shows "\<exists>out eg'. run_with_evaluator X threads so run cfg e workers ev eg = Some (Inr (out, eg'))"
proof -
  have v: "cfg_valid cfg" "ec_mesh_base_steps cfg = None"
    using assms(1) by (auto simp: engine_cfg_new_def cfg_valid_iff[symmetric] Let_def cfg_valid_def split: if_splits)
  obtain rn rs where i: "engine_init X threads so cfg e workers ev eg = Inr (rn, rs)"
    "consts_ok (max (resolved_dim cfg ev) 1) rn" "safe_inv (sinv (max (resolved_dim cfg ev) 1)) (ec_num_constraints cfg) (max (resolved_dim cfg ev) 1) rs"
    using engine_init_total[OF v assms(2-4,9), where Q = "sinv (max (resolved_dim cfg ev) 1)"] search_policy.reset_ok[OF assms(7)] by blast
  have "caches_sound X (run_exec_ctx rn rs) (eg_caches eg)" using assms(10) i(1) by (simp add: caches_fit_def)
  then have inv: "run_inv X (run_exec_ctx rn rs) rn rs" using engine_init_inv[OF i(1)] by blast
  have "\<forall>k \<in> set [0..<ec_max_iters cfg]. k < 2 ^ 64" using assms(2) by (auto simp: cfg_in_range_def)
  then obtain rs' where "iterations X so run rn [0..<ec_max_iters cfg] rs = Some (Inr rs')"
    using iterations_total[OF assms(7,8,5,6) inv i(3,2)] by blast
  with i(1) show ?thesis by (simp add: run_with_evaluator_def)
qed

text \<open>
  C1: no run of an accepted configuration panics. With a configuration accepted by \<open>EngineConfig::new\<close>, a black box that
  does not panic and has an objective, and a search policy and an executor that keep their contracts, the run returns its
  output: every \<open>unwrap\<close>, \<open>expect\<close>, \<open>assert\<close>, index, clamp and remainder on the way succeeds. The base step must be at
  most \<open>2 ^ 800\<close>, as a larger one overflows the search radius.
\<close>

theorem accepted_run_succeeds:
  assumes "engine_cfg_new p = Inr cfg" "cfg_in_range cfg ev" "evaluator_total ev" "0 < ev_num_objectives ev"
    and "extern_ok X" "ln_1p_bounded X" "search_policy X so sinv" "reliable_executor X run"
    and "da_modulus (eg_audit eg) \<noteq> 0" "caches_fit X threads so cfg e workers ev eg"
  shows "\<exists>out eg'. run_with_evaluator X threads so run cfg e workers ev eg = Some (Inr (out, eg'))"
  by (rule accepted_run_ok[OF assms(1-3) objective_safeI[OF assms(4)] assms(5-10)])

text \<open>In particular with the stratified search in place of the default one.\<close>

corollary stratified_runs_succeed:
  assumes "engine_cfg_new p = Inr cfg" "cfg_in_range cfg ev" "evaluator_total ev" "0 < ev_num_objectives ev"
    and "extern_ok X" "ln_1p_bounded X" "reliable_executor X run"
    and "da_modulus (eg_audit eg) \<noteq> 0" "caches_fit X threads (stratified_ops X) cfg e workers ev eg"
  shows "\<exists>out eg'. run_with_evaluator X threads (stratified_ops X) run cfg e workers ev eg = Some (Inr (out, eg'))"
  by (rule accepted_run_ok[OF assms(1-3) objective_safeI[OF assms(4)] assms(5,6) stratified_s.search_policy_axioms assms(7-9)])

lemma extern0_ln_1p: "ln_1p_bounded extern0"
  by (simp add: ln_1p_bounded_def extern0_def)

lemma toy_ok: "evaluator_total (toy_evaluator X m d)" "ev_num_objectives (toy_evaluator X m d) = 1"
  by (rule toy_total) (simp add: toy_evaluator_def erased_def toy_typed_def)

lemma preset_in_range:
  assumes "preset_config p = Inr cfg"
  shows "cfg_in_range cfg (toy_evaluator X m 4)"
proof -
  have "ec_mesh_base_step cfg = 1 \<and> ec_mesh_mul_init cfg = 4 \<and> ec_search_dim cfg = None \<and> ec_max_iters cfg \<le> 6
    \<and> length (ec_tau_levels cfg) \<le> 3 \<and> length (ec_smc_levels cfg) \<le> 2"
    using assms by (cases p) (auto simp: preset_base_ok legacy_baseline_def balanced_def conservative_def throughput_def
        preset_base_args_def)
  moreover have "(1 :: f64) \<le> f_of_int (2 ^ 800)"
    using fkey_of_pow[of 800] by (simp add: less_eq_f64_def is_nan_def f_of_int_def rnd_def) (simp add: fkey_def one_f64_def INF_MAG_def)
  ultimately show ?thesis
    by (simp add: cfg_in_range_def i64_ok_def I64_MIN_def I64_MAX_def resolved_dim_def toy_evaluator_def erased_def toy_typed_def)
qed

lemma preset_demo:
  obtains cfg where "preset_config p = Inr cfg" "engine_cfg_new cfg = Inr cfg" "cfg_in_range cfg (toy_evaluator extern0 (ec_num_constraints cfg) 4)"
    "ec_search_dim cfg = None" "cfg_valid cfg" "ec_mesh_base_steps cfg = None"
proof -
  obtain cfg where cfg: "preset_config p = Inr cfg" "cfg_valid cfg" "ec_mesh_base_steps cfg = None" using preset_ok by blast
  have new: "engine_cfg_new cfg = Inr cfg" using cfg(2,3) by (simp add: engine_cfg_new_def cfg_valid_iff)
  have "ec_search_dim cfg = None"
    using cfg(1) by (cases p) (auto simp: preset_base_ok legacy_baseline_def balanced_def conservative_def throughput_def preset_base_args_def)
  with cfg new preset_in_range[OF cfg(1)] show thesis by (intro that)
qed

lemma toy_engine_audit: "da_modulus (eg_audit toy_engine) \<noteq> 0"
  by (simp add: toy_engine_def engine_default_def default_audit_default_def)

theorem accepted_run_succeeds_witness:
  "\<forall>p. \<exists>cfg out eg'. preset_config p = Inr cfg
     \<and> engine_run extern0 True (default_search_ops extern0) (inline_runner extern0) cfg env_demo 1 toy_engine = Some (Inr (out, eg'))"
proof
  fix p
  obtain cfg where cfg: "preset_config p = Inr cfg" "engine_cfg_new cfg = Inr cfg"
    "cfg_in_range cfg (toy_evaluator extern0 (ec_num_constraints cfg) 4)" "ec_search_dim cfg = None"
    by (rule preset_demo)
  have "0 < ev_num_objectives (toy_evaluator extern0 (ec_num_constraints cfg) 4)" by (simp add: toy_ok)
  from accepted_run_succeeds[OF cfg(2,3) toy_ok(1) this extern0_ok extern0_ln_1p default_s.search_policy_axioms
      inline.reliable_executor_axioms toy_engine_audit toy_engine_fit]
  show "\<exists>cfg out eg'. preset_config p = Inr cfg
     \<and> engine_run extern0 True (default_search_ops extern0) (inline_runner extern0) cfg env_demo 1 toy_engine = Some (Inr (out, eg'))"
    using cfg(1,4) by (auto simp: engine_run_def)
qed

subsection \<open>What a run reports\<close>

text \<open>A reported point and value: a TRUTH evaluation whose constraint means are all within \<open>h\<close>.\<close>

definition reported_truth :: "extern \<Rightarrow> exec_ctx \<Rightarrow> phi \<Rightarrow> f64 \<Rightarrow> xmesh option \<Rightarrow> f64 list option \<Rightarrow> bool" where
  "reported_truth X ctx p h xb fb \<longleftrightarrow> (case (xb, fb) of
     (None, None) \<Rightarrow> True
   | (Some x, Some f) \<Rightarrow> (\<exists>est. ref_eval X ctx x p = Inr (Some est) \<and> f = f_hat est \<and> list_all (\<lambda>c. c \<le> h) (c_hat est))
   | _ \<Rightarrow> False)"

lemma ref_eval_finite: "ref_eval X ctx x p = Inr (Some est) \<Longrightarrow> c \<in> set (c_hat est) \<Longrightarrow> is_finite c"
  by (auto simp: ref_eval_def est_ok_def split: option.splits dest!: compute_estimates_ok)

lemma truth_reported: "truth_of X ctx p h xb fb \<Longrightarrow> reported_truth X ctx p h xb fb"
proof -
  have "list_all (\<lambda>c. c \<le> h) (c_hat est)" if "ref_eval X ctx x p = Inr (Some est)" "truth_violation (c_hat est) \<le> h" for x est
    unfolding list_all_iff using truth_violation_ge ref_eval_finite[OF that(1)] f_le_trans[OF _ that(2)] by blast
  then show "truth_of X ctx p h xb fb \<Longrightarrow> reported_truth X ctx p h xb fb"
    unfolding truth_of_def reported_truth_def by (auto split: option.splits)
qed

text \<open>
  C3: what a run reports is true. The reported value is the evaluation of the reported point by the black box at the last
  step of the ladder, whatever was cached, cut or pruned on the way, every constraint mean of it is within the initial
  barrier (with \<open>accept_h0\<close> zero the point is feasible), and the engine's caches agree with the black box, so that the
  engine may run again with the same configuration.
\<close>

theorem run_output_correct:
  assumes "executor_contract X run" "caches_fit X threads so cfg e workers ev eg"
    and "run_with_evaluator X threads so run cfg e workers ev eg = Some (Inr (out, eg'))"
  shows "\<exists>rn rs. engine_init X threads so cfg e workers ev eg = Inr (rn, rs)
    \<and> reported_truth X (run_exec_ctx rn rs) (last (rn_ladder rn)) (bs_h (barrier_new (accept_cfg_of cfg))) (eo_x_best out) (eo_f_best out)
    \<and> caches_fit X threads so cfg e workers ev eg'"
proof -
  obtain rn rs rs' where i: "engine_init X threads so cfg e workers ev eg = Inr (rn, rs)" and inv: "run_inv X (run_exec_ctx rn rs) rn rs'"
    and o: "out = engine_output_of rs'" "eg' = rs_engine rs'" using run_ok[OF assms(1,2)] assms(3) by auto
  have acc: "rn_accept_cfg rn = accept_cfg_of cfg" using i by (rule engine_initE) (simp add: init_consts_def)
  have "truth_of X (run_exec_ctx rn rs) (last (rn_ladder rn)) (start_barrier rn) (rs_x_best rs') (rs_f_best rs')"
    using inv by (simp add: run_inv_def incumbent_ok_def)
  then have "reported_truth X (run_exec_ctx rn rs) (last (rn_ladder rn)) (bs_h (barrier_new (accept_cfg_of cfg))) (eo_x_best out) (eo_f_best out)"
    using truth_reported by (auto simp: start_barrier_def acc o engine_output_of_def)
  moreover have "caches_fit X threads so cfg e workers ev eg'"
  proof (cases "engine_init X threads so cfg e workers ev eg'")
    case (Inr q)
    obtain rn' rs'' where q: "q = (rn', rs'')" by (cases q)
    have "run_exec_ctx rn' rs'' = run_exec_ctx rn rs" using engine_init_again[OF i] Inr q by simp
    then show ?thesis using inv Inr by (simp add: caches_fit_def q run_inv_def o(2))
  qed (simp add: caches_fit_def)
  ultimately show ?thesis using i by blast
qed

theorem run_output_correct_witness:
  "\<exists>cfg out eg' rn rs. engine_run extern0 True (default_search_ops extern0) (inline_runner extern0) cfg env_demo 1 toy_engine = Some (Inr (out, eg'))
     \<and> ec_accept_h0 cfg = 0
     \<and> reported_truth extern0 (run_exec_ctx rn (rs :: default_search run_state)) (last (rn_ladder rn)) 0 (eo_x_best out) (eo_f_best out)"
proof -
  obtain cfg where cfg: "preset_config Balanced = Inr cfg" "engine_cfg_new cfg = Inr cfg"
    "cfg_in_range cfg (toy_evaluator extern0 (ec_num_constraints cfg) 4)" "ec_search_dim cfg = None"
    by (rule preset_demo)
  have obj: "0 < ev_num_objectives (toy_evaluator extern0 (ec_num_constraints cfg) 4)" by (simp add: toy_ok)
  obtain out eg' where run: "run_with_evaluator extern0 True (default_search_ops extern0) (inline_runner extern0) cfg env_demo 1
      (toy_evaluator extern0 (ec_num_constraints cfg) 4) toy_engine = Some (Inr (out, eg'))"
    using accepted_run_ok[OF cfg(2,3) toy_ok(1) objective_safeI[OF obj] extern0_ok extern0_ln_1p default_s.search_policy_axioms
      inline.reliable_executor_axioms toy_engine_audit toy_engine_fit] by blast
  have h: "ec_accept_h0 cfg = 0" "ec_accept_h_min cfg = 0"
    using cfg(1) by (auto simp: preset_base_ok balanced_def preset_base_args_def)
  then have "bs_h (barrier_new (accept_cfg_of cfg)) = 0"
    by (simp add: barrier_new_def accept_cfg_of_def f_max_def f64_ord_defs Let_def)
  with run_output_correct[OF inline_contract toy_engine_fit run] obtain rn :: run_consts and rs :: "default_search run_state" where
    "reported_truth extern0 (run_exec_ctx rn rs) (last (rn_ladder rn)) 0 (eo_x_best out) (eo_f_best out)" by metis
  with h(1) run show ?thesis
    by (intro exI[of _ cfg] exI[of _ out] exI[of _ eg'] exI[of _ rn] exI[of _ rs]) (simp add: engine_run_def cfg(4))
qed

subsection \<open>Policy revisions\<close>

lemma engine_init_policy:
  assumes "engine_init X threads so cfg e workers ev eg = Inr (rn, rs)" "ec_calibrator_delta_min cfg \<le> ec_calibrator_delta_max cfg"
  shows "policy_inv (ec_num_constraints cfg) rs \<and> rs_policy_rev rs = 0 \<and> eg_caches (rs_engine rs) = eg_caches eg"
  using assms(1)
proof (cases rule: engine_initE)
  case (1 dk ladder geo)
  then obtain eg1 where rs: "rs = init_state X cfg ladder geo eg1" and eg1: "eg_calibrator eg1 = dk" "eg_caches eg1 = eg_caches eg" by blast
  have dk: "dk_inv (ec_num_constraints cfg) dk"
    using dk_start_ok[of "calib_cfg_of cfg" "ec_num_constraints cfg"] assms(2) 1(1)
    by (auto simp: dk_configure_fresh calib_cfg_of_def)
  have rev: "cs_policy_rev (dk_state dk) = 0"
    using 1(1) by (auto simp: dk_configure_def dk_apply_cfg_def dk_init_def calib_state_init_def Let_def res_bind_Inr)
  obtain a d dd where u: "update_assignment X (length ladder) (dk_state dk) (eg_dids eg1) = ((a, d), dd)" by (metis surj_pair)
  have "di_assignment dd = a" using dids_p.stored[of X "length ladder" "dk_state dk" "eg_dids eg1"] by (simp add: u)
  then show ?thesis using dk rev eg1 by (simp add: policy_inv_def rs init_state_def u)
qed

lemma reach_policy:
  assumes "engine_init X threads so cfg e workers ev eg = Inr (rn, rs0)" "ec_calibrator_delta_min cfg \<le> ec_calibrator_delta_max cfg"
    and "engine_reach X so run rn rs0 rs"
  shows "policy_inv (ec_num_constraints cfg) rs"
  using assms(3)
proof (rule engine_reach_inv[where P = "policy_inv (ec_num_constraints cfg)"])
  show "policy_inv (ec_num_constraints cfg) rs0" using engine_init_policy[OF assms(1,2)] by simp
qed (use batch_policy in \<open>blast, simp add: policy_inv_def batch_frame_def\<close>)

text \<open>
  C4: the revision in the decision keys identifies the policy. At every batch of a run, either the revision stays and with
  it the slacks, the bias bounds and the assignment, or it grows by one or two; so a decision found in the cache under
  the current revision of the run was taken with the policy in force.
\<close>

theorem policy_revision_sound:
  assumes "engine_init X threads so cfg e workers ev eg = Inr (rn, rs0)" "ec_calibrator_delta_min cfg \<le> ec_calibrator_delta_max cfg"
    and "engine_reach X so run rn rs0 rs" "dispatch rn ids rs = (work, rs1)"
    and "run_batch_step X run rn (run_thresholds rs) work rs1 = Inr rs2"
  shows "rs_policy_rev rs2 = rs_policy_rev rs \<and> same_policy rs rs2
    \<or> rs_policy_rev rs2 = rs_policy_rev rs + 1 \<or> rs_policy_rev rs2 = rs_policy_rev rs + 2"
proof -
  have fr: "batch_frame rs rs1" using batch_frame_dispatch[OF assms(4)] .
  have "policy_inv (ec_num_constraints cfg) rs1"
    using reach_policy[OF assms(1-3)] fr by (simp add: policy_inv_def batch_frame_def)
  from batch_policy[OF this assms(5)] fr show ?thesis by (simp add: batch_frame_def same_policy_def)
qed

text \<open>A first batch of the balanced preset.\<close>

lemma demo_batch:
  obtains cfg rn rs0 rs work rs1 rs2 where "preset_config Balanced = Inr cfg"
    "engine_init extern0 True (default_search_ops extern0) cfg env_demo 1 (toy_evaluator extern0 (ec_num_constraints cfg) 4) toy_engine
       = Inr (rn, rs0)"
    "ec_calibrator_delta_min cfg \<le> ec_calibrator_delta_max cfg"
    "engine_reach extern0 (default_search_ops extern0) (inline_runner extern0) rn rs0 rs"
    "dispatch rn [0] rs = (work, rs1)"
    "run_batch_step extern0 (inline_runner extern0) rn (run_thresholds rs) work rs1 = Inr rs2"
proof -
  obtain cfg where cfg: "preset_config Balanced = Inr cfg" "engine_cfg_new cfg = Inr cfg"
    "cfg_in_range cfg (toy_evaluator extern0 (ec_num_constraints cfg) 4)" "cfg_valid cfg" "ec_mesh_base_steps cfg = None"
    by (rule preset_demo)
  let ?ev = "toy_evaluator extern0 (ec_num_constraints cfg) 4" and ?so = "default_search_ops extern0"
  let ?D = "max (resolved_dim cfg ?ev) 1" and ?m = "ec_num_constraints cfg"
  have obj: "0 < ev_num_objectives ?ev" by (simp add: toy_ok)
  obtain rn and rs0 :: "default_search run_state" where i: "engine_init extern0 True ?so cfg env_demo 1 ?ev toy_engine = Inr (rn, rs0)"
    "consts_ok ?D rn" "safe_inv (\<lambda>_. True) ?m ?D rs0"
    using engine_init_total[OF cfg(4,5,3) toy_ok(1) objective_safeI[OF obj] toy_engine_audit, where Q = "\<lambda>_. True"] by blast
  let ?ctx = "run_exec_ctx rn rs0"
  have "caches_sound extern0 ?ctx (eg_caches toy_engine)" using toy_engine_fit i(1) unfolding caches_fit_def by (metis case_prod_conv sum.case(2))
  note inv = engine_init_inv[OF i(1) this]
  have i0: "run_inv extern0 ?ctx rn (start_iteration rn rs0)" by (rule run_inv_cong[OF conjunct2[OF inv]]) (simp_all add: start_iteration_def)
  have s0: "safe_inv (\<lambda>_. True) ?m ?D (start_iteration rn rs0)" by (rule safe_inv_cong[OF i(3)]) (simp_all add: start_iteration_def)
  obtain rs' where p: "propose_step extern0 ?so rn 0 (start_iteration rn rs0) = Inr rs'" "safe_inv (\<lambda>_. True) ?m ?D rs'"
    using default_s.propose_step_total[OF extern0_ok extern0_ln_1p s0 i(2), of 0 ?ctx] i0 by (auto simp: run_inv_def)
  define rs where "rs = start_steps rn rs'"
  have reach: "engine_reach extern0 ?so (inline_runner extern0) rn rs0 rs" unfolding rs_def by (rule er_propose[OF er_init p(1)])
  have "run_inv extern0 ?ctx rn rs'" by (rule propose_step_inv[OF p(1) i0 conjunct1[OF inv]])
  then have ri: "run_inv extern0 ?ctx rn rs" unfolding rs_def by (rule run_inv_cong) (simp_all add: start_steps_def)
  have si: "safe_inv (\<lambda>_. True) ?m ?D rs" unfolding rs_def by (rule safe_inv_cong[OF p(2)]) (simp_all add: start_steps_def)
  obtain work rs1 where d: "dispatch rn [0] rs = (work, rs1)" by (metis surj_pair)
  show thesis
  proof (rule dispatch_ready[OF ri d])
    fix cs assume e: "rs1 = rs\<lparr>rs_cands := cs\<rparr>" and r: "store_ok (length (rn_ladder rn)) rs1" "distinct (map wi_cand_id work)" "\<forall>wi \<in> set work. item_ok rn rs1 wi"
      "run_exec_ctx rn rs1 = ?ctx" "caches_sound extern0 ?ctx (eg_caches (rs_engine rs1))" "incumbent_ok extern0 ?ctx rn rs1"
    have "\<forall>c \<in> set (rs_cands rs1). cand_dom ?D c"
      using dispatch_safe[OF d, of ?D "length (rn_ladder rn)"] si ri by (simp add: safe_inv_def run_inv_def)
    then have "safe_inv (\<lambda>_. True) ?m ?D rs1" using si by (simp add: safe_inv_def e)
    then obtain rs2 where "run_batch_step extern0 (inline_runner extern0) rn (run_thresholds rs) work rs1 = Inr rs2"
      using inline.batch_step_total[OF r(1-6) _ i(2), of "\<lambda>_. True" ?m "run_thresholds rs"] by blast
    moreover have "ec_calibrator_delta_min cfg \<le> ec_calibrator_delta_max cfg" using cfg(4) by (simp add: cfg_valid_def)
    ultimately show thesis using that cfg(1) i(1) reach d by blast
  qed
qed

theorem policy_revision_sound_witness:
  "\<exists>rn (rs :: default_search run_state) work rs1 rs2. dispatch rn [0] rs = (work, rs1)
     \<and> run_batch_step extern0 (inline_runner extern0) rn (run_thresholds rs) work rs1 = Inr rs2
     \<and> (rs_policy_rev rs2 = rs_policy_rev rs \<and> same_policy rs rs2
        \<or> rs_policy_rev rs2 = rs_policy_rev rs + 1 \<or> rs_policy_rev rs2 = rs_policy_rev rs + 2)"
proof (rule demo_batch)
  fix cfg rn rs0 work and rs rs1 rs2 :: "default_search run_state"
  assume d: "preset_config Balanced = Inr cfg"
    "engine_init extern0 True (default_search_ops extern0) cfg env_demo 1 (toy_evaluator extern0 (ec_num_constraints cfg) 4) toy_engine
       = Inr (rn, rs0)" "ec_calibrator_delta_min cfg \<le> ec_calibrator_delta_max cfg"
    "engine_reach extern0 (default_search_ops extern0) (inline_runner extern0) rn rs0 rs"
    "dispatch rn [0] rs = (work, rs1)" "run_batch_step extern0 (inline_runner extern0) rn (run_thresholds rs) work rs1 = Inr rs2"
  from policy_revision_sound[OF d(2-6)] d(5,6) show ?thesis by blast
qed

text \<open>
  Every run starts at revision zero, whatever the engine cached before: decisions of an earlier run with another
  configuration are found under the same keys.
\<close>

theorem revisions_restart:
  assumes "engine_init X threads so cfg e workers ev eg = Inr (rn, rs)" "ec_calibrator_delta_min cfg \<le> ec_calibrator_delta_max cfg"
  shows "rs_policy_rev rs = 0 \<and> eg_caches (rs_engine rs) = eg_caches eg"
  using engine_init_policy[OF assms] by simp

subsection \<open>Statistics and the chunk\<close>

text \<open>
  C21: the statistics are exact. A batch run inline adds exactly one to the counters for every dispatched item (a hit, a
  computation or a rejected evaluation; the cheap rejections are counted apart), and takes as many steps off the budget of
  the iteration.
\<close>

theorem batch_stats_exact:
  assumes "caches_fit X threads so cfg e workers ev eg" "engine_init X threads so cfg e workers ev eg = Inr (rn, rs0)"
    and "engine_reach X so (inline_runner X) rn rs0 rs" "dispatch rn ids rs = (work, rs1)"
    and "run_batch_step X (inline_runner X) rn th work rs1 = Inr rs2"
  shows "stats_total (rs_stats rs2) = stats_total (rs_stats rs) + length work \<and> rs_steps_left rs2 = rs_steps_left rs - length work"
proof -
  have "caches_sound X (run_exec_ctx rn rs0) (eg_caches eg)" using assms(1,2) by (simp add: caches_fit_def)
  from engine_init_inv[OF assms(2) this] have "run_inv X (run_exec_ctx rn rs0) rn rs"
    using executor_contract.reach_run_inv[OF inline_contract assms(3)] by blast
  from inline_batch_stats[OF this assms(4,5)] show ?thesis .
qed

theorem batch_stats_exact_witness:
  "\<exists>rn (rs :: default_search run_state) work rs1 rs2. dispatch rn [0] rs = (work, rs1)
     \<and> run_batch_step extern0 (inline_runner extern0) rn (run_thresholds rs) work rs1 = Inr rs2
     \<and> stats_total (rs_stats rs2) = stats_total (rs_stats rs) + length work"
proof (rule demo_batch)
  fix cfg rn rs0 work and rs rs1 rs2 :: "default_search run_state"
  assume d: "preset_config Balanced = Inr cfg"
    "engine_init extern0 True (default_search_ops extern0) cfg env_demo 1 (toy_evaluator extern0 (ec_num_constraints cfg) 4) toy_engine
       = Inr (rn, rs0)" "ec_calibrator_delta_min cfg \<le> ec_calibrator_delta_max cfg"
    "engine_reach extern0 (default_search_ops extern0) (inline_runner extern0) rn rs0 rs"
    "dispatch rn [0] rs = (work, rs1)" "run_batch_step extern0 (inline_runner extern0) rn (run_thresholds rs) work rs1 = Inr rs2"
  from batch_stats_exact[OF toy_engine_fit d(2,4-6)] d(5,6) show ?thesis by blast
qed

text \<open>
  Whatever the executor measures, the chunk the engine hands to it at any time of a run is at most the configured maximum
  and at least the configured minimum (or the maximum, when that is smaller), and never zero.
\<close>

theorem chunk_in_range:
  assumes "engine_init X threads so cfg e workers ev eg = Inr (rn, rs0)" "engine_reach X so run rn rs0 rs"
  shows "case set_executor rn rs of Inline \<Rightarrow> True
    | Pooled w ps \<Rightarrow> min (max (ec_executor_chunk_min cfg) 1) (max (ec_executor_chunk_max cfg) 1) \<le> xp_chunk_base ps
        \<and> xp_chunk_base ps \<le> max (ec_executor_chunk_max cfg) 1 \<and> 0 < xp_chunk_base ps"
proof -
  have cfg: "rn_cfg rn = cfg" using assms(1) by (rule engine_initE) (simp add: init_consts_def)
  have init: "chunk_ok (rn_cfg rn) (rs_chunk_base rs0)"
    unfolding cfg using assms(1) by (rule engine_initE) (auto simp: init_state_fields clamp_chunk_ok)
  have "chunk_ok (rn_cfg rn) (rs_chunk_base rs)"
    using assms(2)
  proof (rule engine_reach_inv[where P = "\<lambda>rs. chunk_ok (rn_cfg rn) (rs_chunk_base rs)"])
    show "chunk_ok (rn_cfg rn) (rs_chunk_base rs0)" by (rule init)
  qed (use batch_chunk in \<open>blast, simp add: batch_frame_def\<close>)
  then show ?thesis
    by (cases "eg_executor (rs_engine rs)") (auto simp: set_executor_def chunk_ok_def cfg)
qed

lemma init_executor:
  assumes "engine_init X threads so cfg e workers ev eg = Inr (rn, rs)"
  shows "eg_executor (rs_engine rs) =
     adaptive_configure_params \<lparr>xp_chunk_base = clamp_chunk cfg (ec_executor_chunk_base cfg), xp_spin_limit = ec_executor_spin_limit cfg\<rparr>
       (adaptive_configure threads workers (eg_executor eg))"
proof -
  obtain tau smc where lv: "resolve_ladder_levels cfg (resolved_dim cfg ev) = (tau, smc)" by (metis surj_pair)
  from assms obtain eg1 ladder geo where c: "configure_engine threads so cfg e workers eg = Inr eg1" and rs: "rs = init_state X cfg ladder geo eg1"
    by (auto simp: engine_init_def res_bind_Inr Let_def lv split: if_splits)
  have "eg_executor (rs_engine rs) = eg_executor eg1" by (simp add: rs init_state_def split: prod.split)
  then show ?thesis using c by (auto simp: configure_engine_def res_bind_Inr Let_def)
qed

theorem chunk_in_range_witness:
  "\<exists>cfg rn (rs :: default_search run_state) ps. preset_config Balanced = Inr cfg
     \<and> engine_init extern0 True (default_search_ops extern0) cfg env_demo 4 (toy_evaluator extern0 (ec_num_constraints cfg) 4) toy_engine
         = Inr (rn, rs)
     \<and> set_executor rn rs = Pooled 4 ps \<and> xp_chunk_base ps \<le> 256 \<and> 0 < xp_chunk_base ps"
proof -
  obtain cfg where cfg: "preset_config Balanced = Inr cfg" "engine_cfg_new cfg = Inr cfg"
    "cfg_in_range cfg (toy_evaluator extern0 (ec_num_constraints cfg) 4)" "cfg_valid cfg" "ec_mesh_base_steps cfg = None"
    by (rule preset_demo)
  have "0 < ev_num_objectives (toy_evaluator extern0 (ec_num_constraints cfg) 4)" by (simp add: toy_ok)
  then obtain rn and rs :: "default_search run_state" where
    i: "engine_init extern0 True (default_search_ops extern0) cfg env_demo 4 (toy_evaluator extern0 (ec_num_constraints cfg) 4) toy_engine
       = Inr (rn, rs)" using engine_init_total[OF cfg(4,5,3) toy_ok(1) objective_safeI toy_engine_audit, where Q = "\<lambda>_. True"] by blast
  have "eg_executor toy_engine = Inline" by (simp add: toy_engine_def engine_default_def)
  then obtain ps where ps: "set_executor rn rs = Pooled 4 ps"
    by (simp add: set_executor_def init_executor[OF i] pool_new_def)
  have "ec_executor_chunk_max cfg = 256" using cfg(1) by (auto simp: preset_base_ok balanced_def preset_base_args_def)
  with chunk_in_range[OF i er_init[of _ _ "inline_runner extern0"]] ps have "xp_chunk_base ps \<le> 256 \<and> 0 < xp_chunk_base ps" by simp
  with cfg(1) i ps show ?thesis by blast
qed

end
