(* ===== verification/Blocking.thy ===== *)
theory Blocking
  imports Engine_Props
begin

text \<open>
  The engine the bindings create runs its batches through \<open>AdaptiveExecutor\<close>: on the calling thread for at most one worker or
  without threads, on the worker pool otherwise, and a batch on the pool may never return. The definitions of the engine take
  an executor whose batches return; here a batch may also hang, and then the run does. The lemmas say when the two agree, and
  that a run that hangs at its first batch never returns.
\<close>

subsection \<open>Batches that may not return\<close>

text \<open>\<open>None\<close>: the call of \<open>run_batch\<close> never returns.\<close>

type_synonym batch_runner = "adaptive \<Rightarrow> exec_ctx \<Rightarrow> work_item list \<Rightarrow> caches \<Rightarrow> (work_outcome list \<times> caches) res option"

text \<open>
  \<open>AdaptiveExecutor::run_batch\<close>. What a batch does on the pool depends on the schedule (theory \<open>Pool\<close>) and is a parameter;
  the pool answers an empty batch at once.
\<close>

definition adaptive_run_batch :: "extern \<Rightarrow> batch_runner \<Rightarrow> batch_runner" where
  "adaptive_run_batch X pool ad ctx items c = (case ad of Inline \<Rightarrow> Some (run_batch_inline X ctx items c)
     | Pooled _ _ \<Rightarrow> if items = [] then Some (Inr ([], c)) else pool ad ctx items c)"

text \<open>
  A run passes a panic of a batch on unchanged, so a batch that hangs can be followed through the run by marking it with a
  panic: the run hangs when its result is the mark, whichever mark is used.
\<close>

definition hang_as :: "panic \<Rightarrow> batch_runner \<Rightarrow> runner" where
  "hang_as mark br ad ctx items c = (case br ad ctx items c of None \<Rightarrow> Inl mark | Some r \<Rightarrow> r)"

definition blocking_run :: "extern \<Rightarrow> bool \<Rightarrow> 's search_ops \<Rightarrow> batch_runner \<Rightarrow> engine_cfg \<Rightarrow> env \<Rightarrow> nat \<Rightarrow> evaluator \<Rightarrow> 's engine \<Rightarrow>
    (engine_output \<times> 's engine) res option" where
  "blocking_run X threads so br cfg e workers ev eg =
     (case run_with_evaluator X threads so (hang_as Blackbox_panic br) cfg e workers ev eg of
       Some (Inl p) \<Rightarrow> (case run_with_evaluator X threads so (hang_as Assert_failed br) cfg e workers ev eg of
         Some (Inl q) \<Rightarrow> if p = q then Some (Inl p) else None | _ \<Rightarrow> None)
     | r \<Rightarrow> r)"

subsection \<open>Runs with executors that agree\<close>

text \<open>What the steps between the batches leave alone.\<close>

definition calm :: "'s run_state \<Rightarrow> 's run_state \<Rightarrow> bool" where
  "calm rs rs' \<longleftrightarrow> eg_executor (rs_engine rs') = eg_executor (rs_engine rs) \<and> eg_caches (rs_engine rs') = eg_caches (rs_engine rs)
     \<and> eg_scheduler (rs_engine rs') = eg_scheduler (rs_engine rs)"

lemma calm_ingests: "calm rs (fold (\<lambda>q. ingest iter (f q)) ps rs)"
proof -
  obtain ix cs where "fold (\<lambda>q. ingest iter (f q)) ps rs = rs\<lparr>rs_index := ix, rs_cands := cs\<rparr>" using ingests_frame by blast
  then show ?thesis by (simp add: calm_def)
qed

lemma calm_propose: "propose_step X so rn iter (start_iteration rn rs) = Inr rs' \<Longrightarrow> calm rs (start_steps rn rs')"
proof -
  assume "propose_step X so rn iter (start_iteration rn rs) = Inr rs'"
  then obtain sorted s where rs': "rs' = fold (ingest iter) sorted (set_search s (start_iteration rn rs))"
    by (auto simp: propose_step_def res_bind_Inr)
  then have "calm (set_search s (start_iteration rn rs)) rs'" using calm_ingests[of _ iter "\<lambda>q. q" sorted] by simp
  then show ?thesis by (simp add: calm_def start_steps_def set_search_def start_iteration_def)
qed

lemma calm_poll: "calm rs (poll_inject iter center rs)"
proof -
  define f :: "nat \<times> xmesh \<Rightarrow> cand_id \<times> xmesh \<times> f64" where "f = (\<lambda>(d, x). (poll_id iter d, x, f_inf))"
  define pts where "pts = enumerate 0 (generate_points_aniso center (ag_poll_step_units (rs_geo rs)))"
  have "poll_inject iter center rs = (fold (\<lambda>q. ingest iter (f q)) pts rs)\<lparr>rs_poll_generated := True\<rparr>"
    by (simp add: poll_inject_def pts_def f_def case_prod_unfold)
  then show ?thesis using calm_ingests[of rs iter f pts] by (simp add: calm_def)
qed

lemma calm_dispatch: "dispatch rn ids rs = (work, rs') \<Longrightarrow> calm rs rs'"
proof (induction ids arbitrary: rs work)
  case (Cons i ids)
  have sc: "calm (set_cand pos c rs) rs' \<longleftrightarrow> calm rs rs'" for pos c rs by (simp add: calm_def set_cand_def)
  from Cons.prems show ?case
    by (auto simp: Let_def split: option.splits if_splits prod.splits dest!: Cons.IH) (simp_all add: sc)
qed (simp add: calm_def)

lemma complete_all_executor:
  "complete_all X rn th outs rs = Inr (es, rs') \<Longrightarrow> eg_executor (rs_engine rs') = eg_executor (rs_engine rs)"
proof (induction outs arbitrary: rs es)
  case (Cons out outs)
  then obtain e rs1 es1 where one: "complete_one X rn th out rs = Inr (e, rs1)" and rest: "complete_all X rn th outs rs1 = Inr (es1, rs')"
    by (auto simp: res_bind_Inr)
  have "eg_executor (rs_engine rs1) = eg_executor (rs_engine rs)"
    using one by (auto simp: complete_one_def Let_def res_bind_Inr after_job_def accept_job_frame split: option.splits)
  with Cons.IH[OF rest] show ?case by simp
qed simp

lemma batch_executor:
  assumes "run_batch_step X run rn th work rs = Inr rs'"
  shows "eg_executor (rs_engine rs') = set_executor rn rs"
  using assms
proof (cases rule: run_batch_stepE)
  case (1 outs c sorted events rs2 rs3)
  have "eg_executor (rs_engine rs3) = eg_executor (rs_engine rs2)" by (rule batch_boundaryE[OF 1(4)]) simp
  with complete_all_executor[OF 1(3)] 1(5) show ?thesis by simp
qed

lemma bind_agrees: "a = b \<or> a = Inl m \<Longrightarrow> res_bind a f = res_bind b f \<or> res_bind a f = Inl m"
  by auto

text \<open>
  Two executors agree on the variants in \<open>A\<close> up to a mark: a call gives the same, or the mark in the first. \<open>A\<close> is closed
  under the parameters the engine sets.
\<close>

locale agreeing =
  fixes A :: "adaptive set" and mark :: panic and r1 r2 :: runner
  assumes calls: "ad \<in> A \<Longrightarrow> r1 ad ctx items c = r2 ad ctx items c \<or> r1 ad ctx items c = Inl mark"
    and closed: "ad \<in> A \<Longrightarrow> adaptive_configure_params ps ad \<in> A"
begin

lemma set_executor_in: "eg_executor (rs_engine rs) \<in> A \<Longrightarrow> set_executor rn rs \<in> A"
  by (simp add: set_executor_def closed)

lemma reach_executor:
  assumes "engine_reach X so run rn rs0 rs" "eg_executor (rs_engine rs0) \<in> A"
  shows "eg_executor (rs_engine rs) \<in> A"
  using assms
proof induction
  case (er_propose rs iter rs')
  then show ?case using calm_propose[OF er_propose(2)] by (simp add: calm_def)
next
  case (er_poll rs iter center)
  then show ?case using calm_poll[of rs iter center] by (simp add: calm_def)
next
  case (er_idle rs ids rs')
  then show ?case using calm_dispatch[OF er_idle(2)] by (simp add: calm_def)
next
  case (er_batch rs ids work rs1 rs2)
  then have "eg_executor (rs_engine rs1) \<in> A" using calm_dispatch[OF er_batch(2)] by (simp add: calm_def)
  then show ?case using batch_executor[OF er_batch(3)] set_executor_in by simp
qed (simp_all add: end_iteration_def)

lemma batch_agrees:
  assumes "eg_executor (rs_engine rs) \<in> A"
  shows "run_batch_step X r1 rn th work rs = run_batch_step X r2 rn th work rs \<or> run_batch_step X r1 rn th work rs = Inl mark"
  unfolding run_batch_step_def Let_def by (rule bind_agrees, rule calls, rule set_executor_in[OF assms])

lemma body_agrees:
  assumes "eg_executor (rs_engine rs) \<in> A"
  shows "inner_body X r1 rn iter rs = inner_body X r2 rn iter rs \<or> inner_body X r1 rn iter rs = Inl mark"
proof -
  let ?view = "make_ready_view (run_thresholds rs) iter (rs_cands rs)"
  show ?thesis
  proof (cases "sort_scored rv_score rv_id ?view")
    case (Inr sorted)
    let ?picked = "sch_select_next sorted (eg_scheduler (rs_engine rs))"
    obtain work rs1 where d: "dispatch rn (take (min (min (length ?picked) (rn_boundary rn)) (rs_steps_left rs)) ?picked) rs = (work, rs1)"
      by (metis surj_pair)
    have "eg_executor (rs_engine rs1) \<in> A" using calm_dispatch[OF d] assms by (simp add: calm_def)
    from bind_agrees[OF batch_agrees[OF this, of X rn "run_thresholds rs" work], of "\<lambda>rs2. Inr (Next rs2)"] show ?thesis
      by (simp add: inner_body_def Let_def Inr d)
  qed (simp add: inner_body_def Let_def)
qed

lemma loop_agrees:
  assumes "inner_loop X r1 rn iter rs = Some y" "eg_executor (rs_engine rs) \<in> A"
  shows "y = Inl mark \<or> inner_loop X r2 rn iter rs = Some y"
proof -
  have "run = r1 \<longrightarrow> eg_executor (rs_engine rs) \<in> A \<longrightarrow> y = Inl mark \<or> inner_loop X r2 rn iter rs = Some y"
    if "inner_loop X run rn iter rs = Some y" for run
    using that
  proof (induction rule: inner_loop.raw_induct[rotated, consumes 1])
    case (1 il X run rn iter rs y)
    show ?case
    proof (intro impI)
      assume run: "run = r1" and ex: "eg_executor (rs_engine rs) \<in> A"
      consider (out_of_steps) "rs_steps_left rs = 0" | (panic) p where "rs_steps_left rs \<noteq> 0" "inner_body X r1 rn iter rs = Inl p"
        | (flow) fl where "rs_steps_left rs \<noteq> 0" "inner_body X r1 rn iter rs = Inr fl" by (meson sum.exhaust)
      then show "y = Inl mark \<or> inner_loop X r2 rn iter rs = Some y"
      proof cases
        case out_of_steps
        with 1(2) show ?thesis by (simp add: inner_loop.simps)
      next
        case panic
        then have "y = Inl p" using 1(2) run by simp
        moreover have "p = mark \<or> inner_body X r2 rn iter rs = Inl p" using body_agrees[OF ex, of X rn iter] panic(2) by auto
        ultimately show ?thesis using panic(1) by (auto simp: inner_loop.simps[of X r2])
      next
        case flow
        then have b2: "inner_body X r2 rn iter rs = Inr fl" using body_agrees[OF ex, of X rn iter] by auto
        show ?thesis
        proof (cases fl)
          case (Next rs1)
          with 1(2) flow run have il: "il X run rn iter rs1 = Some y" by simp
          have "engine_reach X undefined r1 rn rs rs1" using inner_body_reach[OF flow(2) er_init] Next by simp
          then have "y = Inl mark \<or> inner_loop X r2 rn iter rs1 = Some y" using 1(1)[OF il] run reach_executor[OF _ ex] by blast
          then show ?thesis using flow(1) b2 Next by (subst inner_loop.simps) simp
        next
          case (Stop rs1)
          with 1(2) flow run b2 show ?thesis by (simp add: inner_loop.simps[of X r2])
        qed
      qed
    qed
  qed
  with assms show ?thesis by blast
qed

lemma iteration_agrees:
  assumes "iteration X so r1 rn iter rs = Some y" "eg_executor (rs_engine rs) \<in> A"
  shows "y = Inl mark \<or> iteration X so r2 rn iter rs = Some y"
proof (cases "propose_step X so rn iter (start_iteration rn rs)")
  case (Inr rs1)
  have "eg_executor (rs_engine (start_steps rn rs1)) \<in> A" using calm_propose[OF Inr] assms(2) by (simp add: calm_def)
  with loop_agrees[OF _ this, of X rn iter] assms(1) Inr show ?thesis
    by (fastforce simp: iteration_def split: option.splits sum.splits)
next
  case (Inl p)
  with assms(1) show ?thesis by (auto simp: iteration_def)
qed

lemma iterations_agree:
  "iterations X so r1 rn is rs = Some y \<Longrightarrow> eg_executor (rs_engine rs) \<in> A \<Longrightarrow>
   y = Inl mark \<or> iterations X so r2 rn is rs = Some y"
proof (induction "is" arbitrary: rs)
  case (Cons i "is")
  from Cons.prems(1) obtain z where z: "iteration X so r1 rn i rs = Some z" by (cases "iteration X so r1 rn i rs") auto
  show ?case
  proof (cases z)
    case (Inl p)
    with iteration_agrees[OF z Cons.prems(2)] Cons.prems(1) z show ?thesis by auto
  next
    case (Inr rs1)
    have "eg_executor (rs_engine rs1) \<in> A"
      by (rule reach_executor[OF iteration_reach[OF z[unfolded Inr] er_init] Cons.prems(2)])
    from Cons.IH[OF _ this] iteration_agrees[OF z Cons.prems(2)] Cons.prems(1) z Inr show ?thesis by auto
  qed
qed simp

lemma run_agrees:
  assumes "run_with_evaluator X threads so r1 cfg e workers ev eg = Some y"
    and "\<And>rn rs. engine_init X threads so cfg e workers ev eg = Inr (rn, rs) \<Longrightarrow> eg_executor (rs_engine rs) \<in> A"
  shows "y = Inl mark \<or> run_with_evaluator X threads so r2 cfg e workers ev eg = Some y"
proof (cases "engine_init X threads so cfg e workers ev eg")
  case (Inr t)
  obtain rn rs where t: "t = (rn, rs)" by (cases t)
  note i = iterations_agree[OF _ assms(2)[OF Inr[unfolded t]], of X so rn "[0..<ec_max_iters cfg]"]
  show ?thesis using assms(1) i by (fastforce simp: run_with_evaluator_def Inr t split: option.splits sum.splits)
qed (use assms(1) in \<open>simp add: run_with_evaluator_def\<close>)

end

interpretation hang_agrees: agreeing UNIV mark "hang_as mark br" "hang_as other br" for mark other br
  by unfold_locales (auto simp: hang_as_def split: option.split)

interpretation inline_agrees: agreeing "{Inline}" mark "inline_runner X" "hang_as other (adaptive_run_batch X pool)" for mark other X pool
  by unfold_locales (auto simp: hang_as_def adaptive_run_batch_def inline_runner_def)

subsection \<open>Blocking runs\<close>

text \<open>What a blocking run returns is what the run returns with any executor that completes the batches that return.\<close>

lemma blocking_run_returned:
  assumes "blocking_run X threads so br cfg e workers ev eg = Some y"
    and "\<And>ad ctx items c r. br ad ctx items c = Some r \<Longrightarrow> run ad ctx items c = r"
  shows "run_with_evaluator X threads so run cfg e workers ev eg = Some y"
proof -
  have ag: "agreeing UNIV mark (hang_as mark br) run" for mark
    using assms(2) by unfold_locales (auto simp: hang_as_def split: option.split)
  let ?r = "\<lambda>m. run_with_evaluator X threads so (hang_as m br) cfg e workers ev eg"
  have "?r Blackbox_panic = Some y" "y = Inl Blackbox_panic \<longrightarrow> ?r Assert_failed = Some y"
    using assms(1) by (auto simp: blocking_run_def split: option.splits sum.splits if_splits)
  then show ?thesis
    using agreeing.run_agrees[OF ag, of X threads so Blackbox_panic cfg e workers ev eg y]
      agreeing.run_agrees[OF ag, of X threads so Assert_failed cfg e workers ev eg y] by auto
qed

lemma blocking_run_hangs:
  "(\<And>m. run_with_evaluator X threads so (hang_as m br) cfg e workers ev eg = Some (Inl m)) \<Longrightarrow>
   blocking_run X threads so br cfg e workers ev eg = None"
  by (simp add: blocking_run_def)

text \<open>With one worker, or without threads, the pool never runs: the run is that of the inline executor.\<close>

lemma blocking_run_inline:
  assumes "\<not> (threads \<and> 1 < workers)"
    and "run_with_evaluator X threads so (inline_runner X) cfg e workers ev eg = Some y"
  shows "blocking_run X threads so (adaptive_run_batch X pool) cfg e workers ev eg = Some y"
proof -
  have inl: "eg_executor (rs_engine rs) \<in> {Inline}" if "engine_init X threads so cfg e workers ev eg = Inr (rn, rs)" for rn rs
    using assms(1) adaptive_configure_workers(1)[of threads workers "eg_executor eg"] by (simp add: init_executor[OF that])
  have "y = Inl mark \<or> run_with_evaluator X threads so (hang_as other (adaptive_run_batch X pool)) cfg e workers ev eg = Some y"
    for mark other by (rule inline_agrees.run_agrees[OF assms(2)]) (rule inl)
  from this[of Blackbox_panic] this[of Assert_failed]
  have "run_with_evaluator X threads so (hang_as other (adaptive_run_batch X pool)) cfg e workers ev eg = Some y" for other by auto
  then show ?thesis by (cases y) (simp_all add: blocking_run_def)
qed

text \<open>
  What the pool returns when it returns: never a panic (the workers catch them), and the outcomes and caches of a run of the
  pool's step relation.
\<close>

definition pool_answers :: "extern \<Rightarrow> batch_runner \<Rightarrow> bool" where
  "pool_answers X pool \<longleftrightarrow> (\<forall>ad ctx items c r. pool ad ctx items c = Some r \<longrightarrow> (\<exists>outs c'. r = Inr (outs, c') \<and>
     (\<exists>W ps sp s0 s. pool_init W c items s0 \<and> pool_reach X ctx ps items sp s0 s \<and> pl_main s = M_returned outs \<and> pl_caches s = c')))"

text \<open>The executor that runs on the calling thread the batches the pool would not return.\<close>

definition completed :: "extern \<Rightarrow> batch_runner \<Rightarrow> runner" where
  "completed X pool ad ctx items c = (case adaptive_run_batch X pool ad ctx items c of None \<Rightarrow> run_batch_inline X ctx items c | Some r \<Rightarrow> r)"

lemma pool_answers_good:
  assumes "pool_answers X pool" "pool ad ctx items c = Some r" "caches_sound X ctx c" "\<forall>wi \<in> set items. wi_env_rev wi = cx_env_rev ctx"
  obtains outs c' where "r = Inr (outs, c')" "map wo_item outs = items" "\<forall>out \<in> set outs. outcome_good X ctx out" "caches_sound X ctx c'"
proof -
  from assms(1,2) obtain outs c' W ps sp s0 s where p: "r = Inr (outs, c')" "pool_init W c items s0"
    "pool_reach X ctx ps items sp s0 s" "pl_main s = M_returned outs" "pl_caches s = c'" unfolding pool_answers_def by metis
  have "pool_inv X ctx items s" by (rule reach_inv[OF p(3,2) assms(3,4)])
  then show thesis using that[OF p(1)] p(4,5) by (auto simp: pool_inv_def pool_core_def)
qed

lemma completed_cases:
  obtains "completed X pool ad ctx items c = inline_runner X ad ctx items c"
  | "completed X pool ad ctx items c = Inr ([], c)" "items = []"
  | r where "completed X pool ad ctx items c = r" "pool ad ctx items c = Some r"
proof (cases ad)
  case Inline
  then have "completed X pool ad ctx items c = inline_runner X ad ctx items c"
    by (simp add: completed_def adaptive_run_batch_def inline_runner_def)
  then show thesis by (rule that(1))
next
  case (Pooled n ps)
  show thesis
  proof (cases "items = []")
    case True
    with Pooled show thesis by (intro that(2)) (simp_all add: completed_def adaptive_run_batch_def)
  next
    case False
    show thesis
    proof (cases "pool ad ctx items c")
      case None
      with Pooled False show thesis by (intro that(1)) (simp add: completed_def adaptive_run_batch_def inline_runner_def)
    next
      case (Some r)
      with Pooled False show thesis by (intro that(3)[of r]) (simp_all add: completed_def adaptive_run_batch_def)
    qed
  qed
qed

lemma completed_reliable:
  assumes "pool_answers X pool"
  shows "reliable_executor X (completed X pool)"
proof
  fix ad ctx and items :: "work_item list" and c
  assume cs: "caches_sound X ctx c" and rev: "\<forall>wi \<in> set items. wi_env_rev wi = cx_env_rev ctx"
  show "mset (map wo_item outs) = mset items \<and> (\<forall>out \<in> set outs. outcome_agrees X ctx out) \<and> caches_sound X ctx c'"
    if "completed X pool ad ctx items c = Inr (outs, c')" for outs c'
  proof (cases rule: completed_cases[of X pool ad ctx items c])
    case 1
    with inline.run_ok[OF cs rev] that show ?thesis by simp
  next
    case 2
    with cs that show ?thesis by simp
  next
    case (3 r)
    obtain outs1 c1 where r: "r = Inr (outs1, c1)" "map wo_item outs1 = items" "\<forall>out \<in> set outs1. outcome_good X ctx out" "caches_sound X ctx c1"
      by (rule pool_answers_good[OF assms 3(2) cs rev])
    with 3(1) that have "outs1 = outs" "c1 = c'" by simp_all
    with r(2-4) outcome_good_agrees show ?thesis by metis
  qed
  assume total: "evaluator_total (cx_evaluator ctx)"
  show "\<exists>outs c'. completed X pool ad ctx items c = Inr (outs, c') \<and> (\<forall>out \<in> set outs. outcome_matches X ctx out)"
  proof (cases rule: completed_cases[of X pool ad ctx items c])
    case 1
    with inline.run_total[OF total cs rev, of ad] show ?thesis by simp
  next
    case (3 r)
    obtain outs c' where "r = Inr (outs, c')" "\<forall>out \<in> set outs. outcome_good X ctx out"
      by (rule pool_answers_good[OF assms 3(2) cs rev])
    moreover have "outcome_matches X ctx out" if "outcome_good X ctx out" for out
      using that ref_eval_total[OF total] unfolding outcome_good_def by (metis Inl_Inr_False)
    ultimately show ?thesis using 3(1) by blast
  qed simp
qed

lemma completed_agrees: "adaptive_run_batch X pool ad ctx items c = Some r \<Longrightarrow> completed X pool ad ctx items c = r"
  by (simp add: completed_def)

lemma no_iterations:
  assumes "ec_max_iters cfg = 0"
  shows "blocking_run X threads so br cfg e workers ev eg = run_with_evaluator X threads so run cfg e workers ev eg"
  using assms by (auto simp: blocking_run_def run_with_evaluator_def split: sum.split)

subsection \<open>The first batch of a run\<close>

definition untouched :: "'s run_state \<Rightarrow> bool" where
  "untouched rs \<longleftrightarrow> (\<forall>c \<in> set (rs_cands rs). cd_status c = Ready \<and> cd_next_phi_idx c = 0)"

lemma ingests_untouched:
  "untouched rs \<Longrightarrow> untouched (fold (ingest iter) ps rs) \<and> length (rs_cands rs) \<le> length (rs_cands (fold (ingest iter) ps rs))"
proof (induction ps arbitrary: rs)
  case (Cons q ps)
  have "untouched (ingest iter q rs)" "length (rs_cands rs) \<le> length (rs_cands (ingest iter q rs))"
    using Cons.prems by (auto simp: untouched_def ingest_def new_cand_def split: prod.splits)
  with Cons.IH[OF this(1)] show ?case by simp
qed simp

lemma first_proposal:
  assumes "propose_step X so rn iter rs = Inr rs'" "rs_cands rs = []" "rs_index rs = Map.empty"
    and n: "\<And>raw s. so_propose so iter (ec_candidates_per_iter (rn_cfg rn)) s = Inr raw \<Longrightarrow> fst raw \<noteq> []"
  shows "untouched rs' \<and> rs_cands rs' \<noteq> []"
proof -
  from assms(1) obtain ctx raw s scored sorted where
    raw: "so_propose so iter (ec_candidates_per_iter (rn_cfg rn)) (so_set_context so ctx (eg_search (rs_engine rs))) = Inr (raw, s)"
    and sc: "res_map (score_raw X so (rs_geo rs) (rs_f_best rs) s) raw = Inr scored"
    and so: "sort_scored (\<lambda>p. snd (snd p)) fst scored = Inr sorted"
    and rs': "rs' = fold (ingest iter) sorted (set_search s rs)"
    by (auto simp: propose_step_def res_bind_Inr)
  have "raw \<noteq> []" using n[OF raw] by simp
  then obtain rc raws where "raw = rc # raws" by (cases raw) auto
  then have "scored \<noteq> []" using sc by (auto simp: res_bind_Inr split: sum.splits)
  moreover have "set sorted = set scored" using so by (auto simp: sort_scored_def split: if_splits)
  ultimately obtain q qs where q: "sorted = q # qs" by (cases sorted) auto
  have "untouched (ingest iter q (set_search s rs))" "rs_cands (ingest iter q (set_search s rs)) \<noteq> []"
    using assms(2,3) by (cases q; simp add: ingest_def set_search_def untouched_def new_cand_def)+
  with ingests_untouched[OF this(1), of iter qs] show ?thesis by (auto simp: rs' q)
qed

lemma mesh_point_real:
  assumes "extern_ok X" "geo_ok D geo" "pt_ok D x"
  shows "mesh_to_real_aniso X x (ag_base_steps geo) \<noteq> None"
proof -
  have "is_finite (f_of_int u * bs)" if "(u, bs) \<in> set (zip x (ag_base_steps geo))" for u bs
  proof -
    have "mag_le (63 + 800) (f_of_int u * bs)"
      using assms(2,3) set_zip_leftD[OF that] set_zip_rightD[OF that]
      by (intro mag_le_times mag_le_of_int) (auto simp: geo_ok_def pt_ok_def i64_ok_def I64_MIN_def I64_MAX_def)
    then show ?thesis by (rule mag_le_finite) simp
  qed
  then show ?thesis by (auto simp: mesh_to_real_aniso_def xreal_new_ok[OF assms(1)])
qed

text \<open>The first pass of the inner loop runs a batch, of items whose points can be evaluated.\<close>

lemma first_batch:
  assumes X: "extern_ok X" and inv: "run_inv X ctx rn rs" and safe: "safe_inv Q m D rs" and ok: "consts_ok D rn" "iter < 2 ^ 64"
    and c: "untouched rs" "rs_cands rs \<noteq> []" and steps: "rs_steps_left rs \<noteq> 0" "0 < sch_workers (eg_scheduler (rs_engine rs))" "0 < rn_boundary rn"
    and hang: "\<And>items. items \<noteq> [] \<Longrightarrow> \<forall>wi \<in> set items. mesh_to_real_aniso X (wi_x wi) (cx_base_steps ctx) \<noteq> None \<Longrightarrow>
      run (set_executor rn rs) ctx items (eg_caches (rs_engine rs)) = Inl mark"
  shows "inner_body X run rn iter rs = Inl mark"
proof -
  let ?view = "make_ready_view (run_thresholds rs) iter (rs_cands rs)"
  have st: "store_ok (length (rn_ladder rn)) rs" using inv by (simp add: run_inv_def)
  have view: "?view = map (ready_entry (run_thresholds rs) iter) (rs_cands rs)"
    using c(1) by (simp add: make_ready_view_def untouched_def cong: filter_cong)
  have "\<forall>v \<in> set ?view. \<not> is_nan (rv_score v)" using ready_view_num[OF safe st _ ok(2)] ok(1) by (auto simp: consts_ok_def)
  then obtain sorted where srt: "sort_scored rv_score rv_id ?view = Inr sorted" "set sorted = set ?view" using sort_scored_total by metis
  then have "sorted \<noteq> []" using c(2) view by auto
  then obtain v vs where v: "sorted = v # vs" by (cases sorted) auto
  obtain b where b: "sch_batch_size (eg_scheduler (rs_engine rs)) = Suc b"
    using steps(2) by (cases "sch_batch_size (eg_scheduler (rs_engine rs))") (auto simp: sch_batch_size_def)
  let ?picked = "sch_select_next sorted (eg_scheduler (rs_engine rs))"
  have picked: "?picked = rv_id v # map rv_id (take b vs)" by (simp add: sch_select_next_def b v)
  obtain k where k: "min (min (length ?picked) (rn_boundary rn)) (rs_steps_left rs) = Suc k"
    using steps picked by (cases "min (min (length ?picked) (rn_boundary rn)) (rs_steps_left rs)") auto
  obtain work rs1 where d: "dispatch rn (take (Suc k) ?picked) rs = (work, rs1)" by (metis surj_pair)
  have "v \<in> set ?view" using srt(2) v by auto
  then obtain cd where cd: "cd \<in> set (rs_cands rs)" "rv_id v = cd_id cd" by (auto simp: view ready_entry_def)
  then obtain pos where pos: "pos < length (rs_cands rs)" "rs_cands rs ! pos = cd" by (auto simp: in_set_conv_nth)
  have "rs_index rs (rv_id v) = Some pos" using store_index[OF st pos(1)] pos(2) cd(2) by simp
  moreover have "cd_status cd = Ready" "cd_next_phi_idx cd < length (rn_ladder rn)"
    using c(1) cd(1) ok(1) by (auto simp: untouched_def consts_ok_def)
  ultimately have ne: "work \<noteq> []" using d pos(2) by (auto simp: picked Let_def split: prod.splits)
  note dd = dispatch_ok[OF d st]
  obtain cs where rs1: "rs1 = rs\<lparr>rs_cands := cs\<rparr>" using dd by blast
  have dom: "\<forall>c \<in> set (rs_cands rs1). cand_dom D c" using dispatch_safe[OF d _ st] safe by (simp add: safe_inv_def)
  have ctx: "run_exec_ctx rn rs1 = ctx" "cx_base_steps ctx = ag_base_steps (rs_geo rs)"
    using inv by (auto simp: rs1 run_inv_def run_exec_ctx_def)
  have "mesh_to_real_aniso X (wi_x wi) (cx_base_steps ctx) \<noteq> None" if "wi \<in> set work" for wi
  proof -
    have "item_ok rn rs1 wi" "store_ok (length (rn_ladder rn)) rs1" using dd that by blast+
    then obtain q where "q < length (rs_cands rs1)" "cd_x (rs_cands rs1 ! q) = wi_x wi"
      unfolding item_ok_def by (meson store_pos)
    then have "pt_ok D (wi_x wi)" using dom nth_mem unfolding cand_dom_def by metis
    then show ?thesis using mesh_point_real[OF X] safe by (auto simp: ctx(2) safe_inv_def)
  qed
  then have "run (set_executor rn rs) ctx work (eg_caches (rs_engine rs)) = Inl mark" using hang[OF ne] by blast
  then have "run_batch_step X run rn (run_thresholds rs) work rs1 = Inl mark"
    by (simp add: run_batch_step_def Let_def ctx(1)[unfolded rs1] rs1 set_executor_def)
  then show ?thesis using c(2) srt(1) d ne k picked by (simp add: inner_body_def Let_def view)
qed

end
