(* ===== verification/Bindings.thy ===== *)
theory Bindings
  imports Blocking
begin

text \<open>
  What the language bindings share: the preset names they accept, the engine they create (\<open>Engine::<DefaultBundle>\<close>), the
  view of a point that a foreign evaluator gets, and what the engine promises a binding: a run of a preset on a fresh
  engine returns, and reports as many finite objectives as the evaluator declares. An evaluator that declares none is the case
  the bindings get wrong; the last section says what happens to it.
\<close>

subsection \<open>Presets and engines\<close>

definition preset_of_name :: "string \<Rightarrow> preset option" where
  "preset_of_name s = (if s = ''legacy_baseline'' then Some Legacy_baseline else if s = ''balanced'' then Some Balanced
     else if s = ''conservative'' then Some Conservative else if s = ''throughput'' then Some Throughput else None)"

lemma preset_of_name_inverse: "preset_of_name s = Some p \<longleftrightarrow> s = preset_name p"
  by (cases p) (auto simp: preset_of_name_def)

type_synonym default_engine = "default_search engine"

definition new_engine :: default_engine where
  "new_engine = engine_default default_search_default"

abbreviation default_run :: "extern \<Rightarrow> bool \<Rightarrow> runner \<Rightarrow> engine_cfg \<Rightarrow> env \<Rightarrow> nat \<Rightarrow> evaluator \<Rightarrow> default_engine \<Rightarrow>
    (engine_output \<times> default_engine) res option" where
  "default_run X threads run \<equiv> run_with_evaluator X threads (default_search_ops X) run"

text \<open>
  A run of that engine, with the executor it has: batches on the calling thread or, with threads and more than one worker, on
  the pool, where they may hang.
\<close>

abbreviation host_run :: "extern \<Rightarrow> bool \<Rightarrow> batch_runner \<Rightarrow> engine_cfg \<Rightarrow> env \<Rightarrow> nat \<Rightarrow> evaluator \<Rightarrow> default_engine \<Rightarrow>
    (engine_output \<times> default_engine) res option" where
  "host_run X threads pool \<equiv> blocking_run X threads (default_search_ops X) (adaptive_run_batch X pool)"

text \<open>\<open>Engine::run\<close> of that engine: the same with the built-in evaluator.\<close>

definition host_engine_run :: "extern \<Rightarrow> bool \<Rightarrow> batch_runner \<Rightarrow> engine_cfg \<Rightarrow> env \<Rightarrow> nat \<Rightarrow> default_engine \<Rightarrow>
    (engine_output \<times> default_engine) res option" where
  "host_engine_run X threads pool cfg e workers = host_run X threads pool cfg e workers
     (toy_evaluator X (ec_num_constraints cfg) (case ec_search_dim cfg of Some d \<Rightarrow> d | None \<Rightarrow> 4))"

text \<open>\<open>XReal::as_f64_slice\<close>: a point as plain numbers.\<close>

definition as_f64_slice :: "xreal \<Rightarrow> f64 list" where
  "as_f64_slice x = map (\<lambda>v. v) x"

lemma as_f64_slice_id [simp]: "as_f64_slice x = x"
  by (simp add: as_f64_slice_def)

subsection \<open>Runs of presets\<close>

lemma new_engine_ok: "da_modulus (eg_audit new_engine) \<noteq> 0" "caches_fit X threads so cfg e workers ev new_engine"
  by (simp_all add: new_engine_def engine_default_def default_audit_default_def caches_empty_fit)

lemma ds_propose_loop_length: "ds_propose_loop X iter n d = Inr (raw, d') \<Longrightarrow> length raw = n"
  by (induction n arbitrary: d raw d') (auto simp: res_bind_Inr)

lemma preset_range:
  assumes "preset_config p = Inr cfg" "n < 2 ^ 64" "\<And>d. ev_search_dim ev = Some d \<Longrightarrow> d < 2 ^ 63"
  shows "cfg_in_range (cfg\<lparr>ec_max_iters := n\<rparr>) ev"
proof -
  have "ec_mesh_base_step cfg = 1 \<and> ec_mesh_mul_init cfg = 4 \<and> ec_search_dim cfg = None
    \<and> length (ec_tau_levels cfg) \<le> 3 \<and> length (ec_smc_levels cfg) \<le> 2"
    using assms(1) by (cases p) (auto simp: preset_base_ok legacy_baseline_def balanced_def conservative_def
        throughput_def preset_base_args_def)
  moreover have "(1 :: f64) \<le> f_of_int (2 ^ 800)"
    using fkey_of_pow[of 800] by (simp add: less_eq_f64_def is_nan_def f_of_int_def rnd_def) (simp add: fkey_def one_f64_def INF_MAG_def)
  ultimately show ?thesis using assms(2,3)
    by (simp add: cfg_in_range_def i64_ok_def I64_MIN_def I64_MAX_def resolved_dim_def split: option.split)
qed

lemma preset_accepted:
  assumes "preset_config p = Inr cfg"
  shows "engine_cfg_new (cfg\<lparr>ec_max_iters := n\<rparr>) = Inr (cfg\<lparr>ec_max_iters := n\<rparr>)"
proof -
  have "cfg_valid cfg" "ec_mesh_base_steps cfg = None" using preset_ok[of p] assms by auto
  then have "cfg_valid (cfg\<lparr>ec_max_iters := n\<rparr>)" "ec_mesh_base_steps (cfg\<lparr>ec_max_iters := n\<rparr>) = None"
    by (simp_all add: cfg_valid_def)
  then show ?thesis by (simp add: engine_cfg_new_def cfg_valid_iff)
qed

lemma preset_max_iters: "preset_config p = Inr cfg \<Longrightarrow> ec_max_iters cfg < 2 ^ 64"
  by (cases p) (auto simp: preset_base_ok legacy_baseline_def balanced_def conservative_def throughput_def preset_base_args_def)

subsection \<open>What a run reports to a binding\<close>

definition output_shape :: "nat \<Rightarrow> engine_output \<Rightarrow> bool" where
  "output_shape n out \<longleftrightarrow> (eo_x_best out = None \<longleftrightarrow> eo_f_best out = None) \<and> (\<forall>f. eo_f_best out = Some f \<longrightarrow> length f = n \<and> list_all is_finite f)"

lemma truth_shape:
  assumes "truth_of X ctx p h xb fb"
  shows "(xb = None \<longleftrightarrow> fb = None) \<and> (\<forall>f. fb = Some f \<longrightarrow> length f = ev_num_objectives (cx_evaluator ctx) \<and> list_all is_finite f)"
  using assms by (auto simp: truth_of_def ref_eval_def est_ok_def list_all_iff split: option.splits dest!: compute_estimates_ok)

lemma init_evaluator:
  assumes "engine_init X threads so cfg e workers ev eg = Inr (rn, rs)"
  shows "cx_evaluator (run_exec_ctx rn rs) = ev" "rn_cfg rn = cfg"
  using assms by (auto elim!: engine_initE simp: run_exec_ctx_def init_consts_def)

lemma run_shape:
  assumes "executor_contract X run" "caches_fit X threads so cfg e workers ev eg"
    and "run_with_evaluator X threads so run cfg e workers ev eg = Some (Inr (out, eg'))"
  shows "output_shape (ev_num_objectives ev) out"
proof -
  obtain rn rs rs' where i: "engine_init X threads so cfg e workers ev eg = Inr (rn, rs)"
    and inv: "run_inv X (run_exec_ctx rn rs) rn rs'" and o: "out = engine_output_of rs'" "eg' = rs_engine rs'"
    using run_ok[OF assms(1,2)] assms(3) by auto
  have "truth_of X (run_exec_ctx rn rs) (last (rn_ladder rn)) (start_barrier rn) (rs_x_best rs') (rs_f_best rs')"
    using inv by (simp add: run_inv_def incumbent_ok_def)
  from truth_shape[OF this] show ?thesis by (simp add: output_shape_def o(1) engine_output_of_def init_evaluator[OF i])
qed

lemma init_fresh:
  assumes "engine_init X threads so cfg e workers ev new_engine = Inr (rn, rs)"
  shows "rs_cands rs = []" "rs_index rs = Map.empty" "eg_caches (rs_engine rs) = caches_empty"
    "0 < sch_workers (eg_scheduler (rs_engine rs))" "rn_cfg rn = cfg" "0 < rn_boundary rn"
    "run_inv X (run_exec_ctx rn rs) rn rs"
proof -
  have cch: "eg_caches new_engine = caches_empty" by (simp add: new_engine_def engine_default_def)
  from assms show "rs_cands rs = []" "rs_index rs = Map.empty" "eg_caches (rs_engine rs) = caches_empty"
    "0 < sch_workers (eg_scheduler (rs_engine rs))" "rn_cfg rn = cfg" "0 < rn_boundary rn"
    by (auto elim!: engine_initE simp: init_state_fields cch sch_configure_def init_consts_def)
  show "run_inv X (run_exec_ctx rn rs) rn rs" using engine_init_inv[OF assms] caches_empty_sound cch by simp
qed

lemma init_pooled:
  assumes "engine_init X threads so cfg e workers ev eg = Inr (rn, rs)" "threads" "1 < workers" "calm rs rs'"
  obtains k ps where "set_executor rn rs' = Pooled k ps"
proof -
  have "eg_executor (rs_engine rs) \<noteq> Inline"
    using assms(2,3) adaptive_configure_workers(1)[of threads workers]
    by (cases "adaptive_configure threads workers (eg_executor eg)") (auto simp: init_executor[OF assms(1)])
  then have "set_executor rn rs' \<noteq> Inline" using assms(4) by (cases "eg_executor (rs_engine rs)") (simp_all add: set_executor_def calm_def)
  then show thesis using that by (cases "set_executor rn rs'") auto
qed

text \<open>An evaluator supplied by a host language: the adapters of the bindings, when the host keeps its side.\<close>

locale host_evaluator =
  fixes ev :: evaluator
  assumes total: "evaluator_total ev"
begin

lemma fresh_run:
  assumes "preset_config p = Inr cfg" "n < 2 ^ 64" "\<And>d. ev_search_dim ev = Some d \<Longrightarrow> d < 2 ^ 63"
    and "objective_safe ev" "extern_ok X" "ln_1p_bounded X" "reliable_executor X run"
  shows "\<exists>out eg'. default_run X threads run (cfg\<lparr>ec_max_iters := n\<rparr>) e workers ev new_engine = Some (Inr (out, eg'))
    \<and> output_shape (ev_num_objectives ev) out"
proof -
  note r = preset_range[OF assms(1,2,3)]
  obtain out eg' where run: "default_run X threads run (cfg\<lparr>ec_max_iters := n\<rparr>) e workers ev new_engine = Some (Inr (out, eg'))"
    using accepted_run_ok[OF preset_accepted[OF assms(1)] r total assms(4-6) default_s.search_policy_axioms assms(7) new_engine_ok] by blast
  moreover have "executor_contract X run" using assms(7) by (simp add: reliable_executor_def)
  ultimately show ?thesis using run_shape new_engine_ok(2) by blast
qed

lemma fresh_preset_run:
  assumes "preset_config p = Inr cfg" "\<And>d. ev_search_dim ev = Some d \<Longrightarrow> d < 2 ^ 63"
    and "objective_safe ev" "extern_ok X" "ln_1p_bounded X" "reliable_executor X run"
  shows "\<exists>out eg'. default_run X threads run cfg e workers ev new_engine = Some (Inr (out, eg'))
    \<and> output_shape (ev_num_objectives ev) out"
  using fresh_run[OF assms(1) preset_max_iters[OF assms(1)] assms(2-6)] by simp

text \<open>With the executor the code chooses, a run on the calling thread returns, and so does a run of no iterations.\<close>

lemma fresh_host_run:
  assumes "preset_config p = Inr cfg" "n < 2 ^ 64" "\<And>d. ev_search_dim ev = Some d \<Longrightarrow> d < 2 ^ 63"
    and "objective_safe ev" "extern_ok X" "ln_1p_bounded X" "\<not> (threads \<and> 1 < workers) \<or> n = 0"
  shows "\<exists>out eg'. host_run X threads pool (cfg\<lparr>ec_max_iters := n\<rparr>) e workers ev new_engine = Some (Inr (out, eg'))
    \<and> output_shape (ev_num_objectives ev) out"
proof -
  obtain out eg' where run: "default_run X threads (inline_runner X) (cfg\<lparr>ec_max_iters := n\<rparr>) e workers ev new_engine = Some (Inr (out, eg'))"
    "output_shape (ev_num_objectives ev) out" using fresh_run[OF assms(1-6) inline.reliable_executor_axioms] by blast
  have "host_run X threads pool (cfg\<lparr>ec_max_iters := n\<rparr>) e workers ev new_engine = Some (Inr (out, eg'))"
  proof (cases "n = 0")
    case True
    then have "ec_max_iters (cfg\<lparr>ec_max_iters := n\<rparr>) = 0" by simp
    from no_iterations[OF this, where run = "inline_runner X"] run(1) show ?thesis by metis
  next
    case False
    with assms(7) run(1) show ?thesis by (intro blocking_run_inline) auto
  qed
  with run(2) show ?thesis by blast
qed

lemma fresh_host_preset_run:
  assumes "preset_config p = Inr cfg" "\<And>d. ev_search_dim ev = Some d \<Longrightarrow> d < 2 ^ 63"
    and "objective_safe ev" "extern_ok X" "ln_1p_bounded X" "\<not> (threads \<and> 1 < workers)"
  shows "\<exists>out eg'. host_run X threads pool cfg e workers ev new_engine = Some (Inr (out, eg'))
    \<and> output_shape (ev_num_objectives ev) out"
  using fresh_host_run[OF assms(1) preset_max_iters[OF assms(1)] assms(2-5) disjI1[OF assms(6)]] by simp

text \<open>On any number of workers a run either hangs in the pool or returns.\<close>

lemma fresh_host_outcome:
  assumes "preset_config p = Inr cfg" "\<And>d. ev_search_dim ev = Some d \<Longrightarrow> d < 2 ^ 63"
    and "objective_safe ev" "extern_ok X" "ln_1p_bounded X" "pool_answers X pool"
  shows "host_run X threads pool cfg e workers ev new_engine = None
    \<or> (\<exists>out eg'. host_run X threads pool cfg e workers ev new_engine = Some (Inr (out, eg')) \<and> output_shape (ev_num_objectives ev) out)"
proof (cases "host_run X threads pool cfg e workers ev new_engine")
  case (Some y)
  have "default_run X threads (completed X pool) cfg e workers ev new_engine = Some y"
    by (rule blocking_run_returned[OF Some]) (rule completed_agrees)
  with fresh_preset_run[OF assms(1-5) completed_reliable[OF assms(6)], of threads e workers] Some show ?thesis by auto
qed simp

text \<open>A pool whose first batch hangs makes every run with an iteration hang.\<close>

lemma fresh_host_hangs:
  assumes cfg: "preset_config p = Inr cfg" "n < 2 ^ 64" "\<And>d. ev_search_dim ev = Some d \<Longrightarrow> d < 2 ^ 63"
    and safe: "objective_safe ev" and X: "extern_ok X" "ln_1p_bounded X" and w: "threads" "1 < workers" "0 < n"
    and hang: "\<And>ad ctx items. items \<noteq> [] \<Longrightarrow> \<forall>wi \<in> set items. mesh_to_real_aniso X (wi_x wi) (cx_base_steps ctx) \<noteq> None \<Longrightarrow>
      pool ad ctx items caches_empty = None"
  shows "host_run X threads pool (cfg\<lparr>ec_max_iters := n\<rparr>) e workers ev new_engine = None"
proof (rule blocking_run_hangs)
  fix mark :: panic
  let ?cfg = "cfg\<lparr>ec_max_iters := n\<rparr>" and ?so = "default_search_ops X" and ?run = "hang_as mark (adaptive_run_batch X pool)"
  have v: "cfg_valid ?cfg" "ec_mesh_base_steps ?cfg = None" using preset_ok[of p] cfg(1) by (auto simp: cfg_valid_def)
  have small: "0 < ec_candidates_per_iter cfg" "ec_max_steps_per_iter cfg \<noteq> Some 0"
    using cfg(1) by (cases p; auto simp: preset_base_ok legacy_baseline_def balanced_def conservative_def throughput_def preset_base_args_def)+
  define D where "D = max (resolved_dim ?cfg ev) 1"
  have "\<exists>rn rs. engine_init X threads ?so ?cfg e workers ev new_engine = Inr (rn, rs) \<and> consts_ok D rn
      \<and> safe_inv (\<lambda>_. True) (ec_num_constraints ?cfg) D rs"
    unfolding D_def by (rule engine_init_total[OF v preset_range[OF cfg] total safe new_engine_ok(1)]) simp_all
  then obtain rn rs where i: "engine_init X threads ?so ?cfg e workers ev new_engine = Inr (rn, rs)" "consts_ok D rn"
    "safe_inv (\<lambda>_. True) (ec_num_constraints ?cfg) D rs" by blast
  note rs_new = init_fresh[OF i(1)]
  let ?ctx = "run_exec_ctx rn rs"
  have i0: "run_inv X ?ctx rn (start_iteration rn rs)" by (rule run_inv_cong[OF rs_new(7)]) (simp_all add: start_iteration_def)
  have s0: "safe_inv (\<lambda>_. True) (ec_num_constraints ?cfg) D (start_iteration rn rs)"
    by (rule safe_inv_cong[OF i(3)]) (simp_all add: start_iteration_def)
  have inc: "incumbent_ok X ?ctx rn (start_iteration rn rs)" "run_exec_ctx rn (start_iteration rn rs) = ?ctx"
    using i0 by (simp_all add: run_inv_def)
  obtain rs1 where pr: "propose_step X ?so rn 0 (start_iteration rn rs) = Inr rs1" "safe_inv (\<lambda>_. True) (ec_num_constraints ?cfg) D rs1"
    using search_policy.propose_step_total[OF default_s.search_policy_axioms X s0 i(2) _ inc, of 0] by auto
  let ?rs = "start_steps rn rs1"
  have "rn_ladder rn \<noteq> []" using i(2) by (simp add: consts_ok_def)
  then have "run_inv X ?ctx rn rs1" by (rule propose_step_inv[OF pr(1) i0])
  then have inv1: "run_inv X ?ctx rn ?rs" by (rule run_inv_cong) (simp_all add: start_steps_def)
  have s1: "safe_inv (\<lambda>_. True) (ec_num_constraints ?cfg) D ?rs" by (rule safe_inv_cong[OF pr(2)]) (simp_all add: start_steps_def)
  have "untouched rs1 \<and> rs_cands rs1 \<noteq> []"
    by (rule first_proposal[OF pr(1)]) (use rs_new small in
      \<open>auto simp: start_iteration_def default_search_ops_def ds_propose_def dest!: ds_propose_loop_length\<close>)
  then have fresh: "untouched ?rs" "rs_cands ?rs \<noteq> []" by (simp_all add: untouched_def start_steps_def)
  have cm: "calm rs ?rs" by (rule calm_propose[OF pr(1)])
  obtain k ps where ex: "set_executor rn ?rs = Pooled k ps" by (rule init_pooled[OF i(1) w(1,2) cm])
  have "inner_body X ?run rn 0 ?rs = Inl mark"
  proof (rule first_batch[OF X(1) inv1 s1 i(2) _ fresh])
    show "rs_steps_left ?rs \<noteq> 0"
      using small(2) rs_new(5) by (auto simp: start_steps_def USIZE_MAX_def split: option.split)
    show "0 < sch_workers (eg_scheduler (rs_engine ?rs))" using cm rs_new(4) by (simp add: calm_def)
    show "?run (set_executor rn ?rs) ?ctx items (eg_caches (rs_engine ?rs)) = Inl mark"
      if "items \<noteq> []" "\<forall>wi \<in> set items. mesh_to_real_aniso X (wi_x wi) (cx_base_steps ?ctx) \<noteq> None" for items
      using hang[OF that] cm rs_new(3) that(1) by (simp add: hang_as_def adaptive_run_batch_def ex calm_def)
  qed (use rs_new(6) in simp_all)
  moreover have "rs_steps_left ?rs \<noteq> 0"
    using small(2) rs_new(5) by (auto simp: start_steps_def USIZE_MAX_def split: option.split)
  ultimately have "iteration X ?so ?run rn 0 rs = Some (Inl mark)" by (simp add: iteration_def pr(1) inner_loop.simps)
  moreover have "[0..<ec_max_iters ?cfg] = 0 # [1..<n]" using w(3) by (simp add: upt_conv_Cons)
  ultimately show "default_run X threads ?run ?cfg e workers ev new_engine = Some (Inl mark)"
    by (simp add: run_with_evaluator_def i(1) del: upt_Suc)
qed

end

interpretation toy_host: host_evaluator "toy_evaluator X m d" for X m d
  by unfold_locales (rule toy_total)

subsection \<open>Evaluators that declare no objective\<close>

text \<open>With an incumbent without objectives the next proposal indexes its first objective.\<close>

lemma no_objective_panics:
  assumes "rs_f_best rs = Some []" "0 < ec_candidates_per_iter (rn_cfg rn)"
  shows "iteration X (default_search_ops X) run rn k rs \<noteq> Some (Inr rs')"
proof
  assume "iteration X (default_search_ops X) run rn k rs = Some (Inr rs')"
  then obtain rs1 where "propose_step X (default_search_ops X) rn k (start_iteration rn rs) = Inr rs1"
    by (auto simp: iteration_def split: sum.splits)
  then obtain raw s scored where raw: "so_propose (default_search_ops X) k (ec_candidates_per_iter (rn_cfg rn)) s = Inr raw"
    and sc: "res_map (score_raw X (default_search_ops X) (rs_geo rs) (Some []) (snd raw)) (fst raw) = Inr scored"
    using assms(1) by (auto simp: propose_step_def res_bind_Inr start_iteration_def)
  have "length (fst raw) = ec_candidates_per_iter (rn_cfg rn)"
    using raw ds_propose_loop_length[of X k _ s "fst raw" "snd raw"] by (simp add: default_search_ops_def ds_propose_def)
  with assms(2) obtain rc rest where "fst raw = rc # rest" by (cases "fst raw") auto
  with sc show False by (auto simp: score_raw_def score_hint_def res_bind_Inr split: sum.splits)
qed

lemma iterations_append:
  "iterations X so run rn (is @ js) rs = (case iterations X so run rn is rs of None \<Rightarrow> None
     | Some (Inl p) \<Rightarrow> Some (Inl p) | Some (Inr rs') \<Rightarrow> iterations X so run rn js rs')"
  by (induction "is" arbitrary: rs) (auto split: option.splits sum.splits)

text \<open>
  A run with such an evaluator returns no objective value, and returns at all only if it has found nothing before its last
  iteration.
\<close>

lemma no_objective_run:
  assumes "executor_contract X run" "caches_fit X threads (default_search_ops X) cfg e workers ev eg"
    and "default_run X threads run cfg e workers ev eg = Some (Inr (out, eg'))"
    and zero: "ev_num_objectives ev = 0" "0 < ec_candidates_per_iter cfg"
    and init: "engine_init X threads (default_search_ops X) cfg e workers ev eg = Inr (rn, rs)"
    and k: "k < ec_max_iters cfg" "iterations X (default_search_ops X) run rn [0..<k] rs = Some (Inr rs1)"
  shows "rs_f_best rs1 = None"
proof (rule ccontr)
  assume ne: "rs_f_best rs1 \<noteq> None"
  have "caches_sound X (run_exec_ctx rn rs) (eg_caches eg)" using assms(2) init by (simp add: caches_fit_def)
  note inv = engine_init_inv[OF init this]
  have "run_inv X (run_exec_ctx rn rs) rn rs1"
    using executor_contract.iterations_ok[OF assms(1) conjunct2[OF inv] conjunct1[OF inv], of "default_search_ops X" "[0..<k]"] k(2) by auto
  then have "truth_of X (run_exec_ctx rn rs) (last (rn_ladder rn)) (start_barrier rn) (rs_x_best rs1) (rs_f_best rs1)"
    by (simp add: run_inv_def incumbent_ok_def)
  from truth_shape[OF this] ne have f: "rs_f_best rs1 = Some []" by (auto simp: init_evaluator[OF init] zero)
  have split: "[0..<ec_max_iters cfg] = [0..<k] @ k # [Suc k..<ec_max_iters cfg]"
    using k(1) upt_add_eq_append[of 0 k "ec_max_iters cfg - k"] by (simp add: upt_conv_Cons)
  obtain rs2 where "iterations X (default_search_ops X) run rn [0..<ec_max_iters cfg] rs = Some (Inr rs2)"
    using assms(3) init by (auto simp: run_with_evaluator_def split: option.splits sum.splits)
  then obtain rs3 where "iteration X (default_search_ops X) run rn k rs1 = Some (Inr rs3)"
    unfolding split iterations_append using k(2) by (auto split: option.splits sum.splits)
  moreover have "0 < ec_candidates_per_iter (rn_cfg rn)" using zero(2) by (simp add: init_evaluator[OF init])
  ultimately show False using no_objective_panics[OF f] by blast
qed

end
