(* ===== verification/Ffi.thy ===== *)
theory Ffi
  imports Bindings
begin

text \<open>
  \<open>imads-ffi/src/lib.rs\<close>: the C interface (the crate \<open>imads-jvm\<close> exports the same functions). Handles and result
  arrays live in a heap of cells; the allocator is a parameter that returns an unused address. A call may have undefined
  behaviour (a dangling or mistyped pointer given to \<open>Box::from_raw\<close> or dereferenced), may abort (a panic cannot leave an
  \<open>extern "C"\<close> function) or may return. The buffers a C callback fills are modelled by the cells it writes in them. The
  lemmas show that a client that keeps the documented ownership rules never meets undefined behaviour and leaks nothing it
  frees, and that a run through the interface is the run of the library, with its output readable through the result. A run
  takes what the worker pool does with a batch as a parameter and does not return when a batch does not.
\<close>

subsection \<open>Pointers, heap and failures\<close>

datatype c_ptr = Null | Dangling | Addr nat

datatype cell = Engine_cell default_engine | Config_cell engine_cfg | I64_cell "int list" | F64_cell "f64 list"

type_synonym heap = "nat \<rightharpoonup> cell"
type_synonym allocator = "heap \<Rightarrow> nat"

text \<open>The allocator never hands out a live address.\<close>

definition allocator_ok :: "allocator \<Rightarrow> bool" where
  "allocator_ok al \<longleftrightarrow> (\<forall>h. finite (dom h) \<longrightarrow> al h \<notin> dom h)"

datatype c_error = Undefined | Abort panic

type_synonym 'a ffi = "c_error + 'a"

fun ffi_bind :: "'a ffi \<Rightarrow> ('a \<Rightarrow> 'b ffi) \<Rightarrow> 'b ffi" where
  "ffi_bind (Inl e) f = Inl e"
| "ffi_bind (Inr x) f = f x"

lemma ffi_bind_Inr: "ffi_bind r f = Inr y \<longleftrightarrow> (\<exists>x. r = Inr x \<and> f x = Inr y)"
  by (cases r) auto

text \<open>\<open>Box::into_raw\<close> of a new box, and a leaked boxed slice: an empty one has no allocation.\<close>

definition box_new :: "allocator \<Rightarrow> cell \<Rightarrow> heap \<Rightarrow> c_ptr \<times> heap" where
  "box_new al c h = (let a = al h in (Addr a, h(a \<mapsto> c)))"

definition leak_slice :: "allocator \<Rightarrow> ('a list \<Rightarrow> cell) \<Rightarrow> 'a list \<Rightarrow> heap \<Rightarrow> c_ptr \<times> heap" where
  "leak_slice al mk vs h = (if vs = [] then (Dangling, h) else box_new al (mk vs) h)"

text \<open>Dropping a box rebuilt from a raw pointer; \<open>ok\<close> is the layout the code claims for it.\<close>

definition box_drop :: "(cell \<Rightarrow> bool) \<Rightarrow> c_ptr \<Rightarrow> heap \<Rightarrow> heap ffi" where
  "box_drop ok p h = (case p of Addr a \<Rightarrow> (case h a of Some c \<Rightarrow> if ok c then Inr (h(a := None)) else Inl Undefined
     | None \<Rightarrow> Inl Undefined) | _ \<Rightarrow> Inl Undefined)"

fun is_engine :: "cell \<Rightarrow> bool" where "is_engine (Engine_cell _) = True" | "is_engine _ = False"
fun is_config :: "cell \<Rightarrow> bool" where "is_config (Config_cell _) = True" | "is_config _ = False"
fun is_i64s :: "nat \<Rightarrow> cell \<Rightarrow> bool" where "is_i64s n (I64_cell v) = (length v = n)" | "is_i64s n _ = False"
fun is_f64s :: "nat \<Rightarrow> cell \<Rightarrow> bool" where "is_f64s n (F64_cell v) = (length v = n)" | "is_f64s n _ = False"

definition deref_engine :: "c_ptr \<Rightarrow> heap \<Rightarrow> (nat \<times> default_engine) ffi" where
  "deref_engine p h = (case p of Addr a \<Rightarrow> (case h a of Some (Engine_cell eg) \<Rightarrow> Inr (a, eg) | _ \<Rightarrow> Inl Undefined)
     | _ \<Rightarrow> Inl Undefined)"

definition deref_config :: "c_ptr \<Rightarrow> heap \<Rightarrow> engine_cfg ffi" where
  "deref_config p h = (case p of Addr a \<Rightarrow> (case h a of Some (Config_cell cfg) \<Rightarrow> Inr cfg | _ \<Rightarrow> Inl Undefined)
     | _ \<Rightarrow> Inl Undefined)"

subsection \<open>The C structures\<close>

record imads_env =
  ie_run_id :: u64
  ie_config_hash :: u64
  ie_data_snapshot_id :: u64
  ie_rng_master_seed :: u64

definition ffi_env_to_env :: "imads_env \<Rightarrow> env" where
  "ffi_env_to_env e = \<lparr>run_id = ucast (ie_run_id e), config_hash = ucast (ie_config_hash e),
     data_snapshot_id = ucast (ie_data_snapshot_id e), rng_master_seed = ucast (ie_rng_master_seed e)\<rparr>"

record imads_stats =
  is_truth_evals :: nat
  is_truth_decision_cache_hits :: nat
  is_truth_eval_cache_hits :: nat
  is_partial_steps :: nat
  is_partial_decision_cache_hits :: nat
  is_partial_eval_cache_hits :: nat
  is_cheap_rejects :: nat
  is_invalid_eval_rejects :: nat

definition stats_to_ffi :: "engine_stats \<Rightarrow> imads_stats" where
  "stats_to_ffi st = \<lparr>is_truth_evals = st_truth_evals st, is_truth_decision_cache_hits = st_truth_decision_cache_hits st,
     is_truth_eval_cache_hits = st_truth_eval_cache_hits st, is_partial_steps = st_partial_steps st,
     is_partial_decision_cache_hits = st_partial_decision_cache_hits st,
     is_partial_eval_cache_hits = st_partial_eval_cache_hits st, is_cheap_rejects = st_cheap_rejects st,
     is_invalid_eval_rejects = st_invalid_eval_rejects st\<rparr>"

record imads_output =
  io_f_best :: f64
  io_f_best_valid :: bool
  io_x_best_ptr :: c_ptr
  io_x_best_len :: nat
  io_stats :: imads_stats

record imads_multi_output =
  mo_f_best_ptr :: c_ptr
  mo_f_best_len :: nat
  mo_f_best_valid :: bool
  mo_x_best_ptr :: c_ptr
  mo_x_best_len :: nat
  mo_stats :: imads_stats

text \<open>\<open>f64::NAN\<close>.\<close>

definition f64_nan :: f64 where "f64_nan = F64 False 9221120237041090560"

text \<open>The pointer and length of an optional array: null when there is none.\<close>

definition leak_opt :: "allocator \<Rightarrow> ('a list \<Rightarrow> cell) \<Rightarrow> 'a list option \<Rightarrow> heap \<Rightarrow> c_ptr \<times> nat \<times> heap" where
  "leak_opt al mk vs h = (case vs of None \<Rightarrow> (Null, 0, h)
     | Some v \<Rightarrow> (let (p, h') = leak_slice al mk v h in (p, length v, h')))"

definition engine_output_to_ffi :: "allocator \<Rightarrow> engine_output \<Rightarrow> heap \<Rightarrow> (imads_output \<times> heap) ffi" where
  "engine_output_to_ffi al out h =
     ffi_bind (case eo_f_best out of Some [] \<Rightarrow> Inl (Abort Index_out_of_bounds) | Some (f # _) \<Rightarrow> Inr (f, True)
       | None \<Rightarrow> Inr (f64_nan, False)) (\<lambda>(f, valid).
     let (p, n, h') = leak_opt al I64_cell (eo_x_best out) h in
     Inr (\<lparr>io_f_best = f, io_f_best_valid = valid, io_x_best_ptr = p, io_x_best_len = n,
       io_stats = stats_to_ffi (eo_stats out)\<rparr>, h'))"

definition engine_output_to_multi_ffi :: "allocator \<Rightarrow> engine_output \<Rightarrow> heap \<Rightarrow> (imads_multi_output \<times> heap) ffi" where
  "engine_output_to_multi_ffi al out h =
     (let (pf, nf, h1) = leak_opt al F64_cell (eo_f_best out) h; (px, nx, h2) = leak_opt al I64_cell (eo_x_best out) h1 in
      Inr (\<lparr>mo_f_best_ptr = pf, mo_f_best_len = nf, mo_f_best_valid = (eo_f_best out \<noteq> None), mo_x_best_ptr = px,
        mo_x_best_len = nx, mo_stats = stats_to_ffi (eo_stats out)\<rparr>, h2))"

subsection \<open>Evaluators behind function pointers\<close>

text \<open>
  A callback gets the point, its dimension and the opaque \<open>user_data\<close>; \<open>mc_sample\<close> also the fidelity, the sample index and
  the sizes of the buffers. Its effect is what it writes: a cell of a buffer it leaves alone keeps its initial zero.
\<close>

record evaluator_vtable =
  vt_cheap_constraints :: "(f64 list \<Rightarrow> nat \<Rightarrow> nat \<Rightarrow> int) option"
  vt_mc_sample :: "f64 list \<Rightarrow> nat \<Rightarrow> u64 \<Rightarrow> u32 \<Rightarrow> nat \<Rightarrow> nat \<Rightarrow> nat \<Rightarrow> f64 option \<times> (nat \<Rightarrow> f64 option)"
  vt_num_constraints :: nat
  vt_search_dim :: nat
  vt_user_data :: nat

record multi_vtable =
  mv_cheap_constraints :: "(f64 list \<Rightarrow> nat \<Rightarrow> nat \<Rightarrow> int) option"
  mv_mc_sample :: "f64 list \<Rightarrow> nat \<Rightarrow> u64 \<Rightarrow> u32 \<Rightarrow> nat \<Rightarrow> nat \<Rightarrow> nat \<Rightarrow> nat \<Rightarrow> (nat \<Rightarrow> f64 option) \<times> (nat \<Rightarrow> f64 option)"
  mv_num_objectives :: nat
  mv_num_constraints :: nat
  mv_search_dim :: nat
  mv_user_data :: nat

definition after_writes :: "nat \<Rightarrow> (nat \<Rightarrow> f64 option) \<Rightarrow> f64 list" where
  "after_writes n w = map (\<lambda>i. case w i of Some v \<Rightarrow> v | None \<Rightarrow> 0) [0..<n]"

definition ffi_typed :: "evaluator_vtable \<Rightarrow> typed_evaluator" where
  "ffi_typed vt = \<lparr>
     te_cheap = (\<lambda>x _. Inr (case vt_cheap_constraints vt of Some f \<Rightarrow> let vals = as_f64_slice x in
       f vals (length vals) (vt_user_data vt) \<noteq> 0 | None \<Rightarrow> True)),
     te_mc_sample = (\<lambda>x p _ k. let vals = as_f64_slice x; m = vt_num_constraints vt;
       (wf, wc) = vt_mc_sample vt vals (length vals) (phi_tau p) (phi_smc p) k m (vt_user_data vt) in
       Inr (ObjScalar (case wf of Some f \<Rightarrow> f | None \<Rightarrow> 0), after_writes m wc)),
     te_solver_bias = (\<lambda>_ _ _. Inr (default_solver_bias (ObjScalar 0) 1 (vt_num_constraints vt))),
     te_num_objectives = 1, te_num_constraints = vt_num_constraints vt,
     te_search_dim = (if vt_search_dim vt > 0 then Some (vt_search_dim vt) else None)\<rparr>"

definition ffi_evaluator :: "evaluator_vtable \<Rightarrow> evaluator" where
  "ffi_evaluator vt = erased (ffi_typed vt)"

definition ffi_multi_typed :: "multi_vtable \<Rightarrow> typed_evaluator" where
  "ffi_multi_typed vt = \<lparr>
     te_cheap = (\<lambda>x _. Inr (case mv_cheap_constraints vt of Some f \<Rightarrow> let vals = as_f64_slice x in
       f vals (length vals) (mv_user_data vt) \<noteq> 0 | None \<Rightarrow> True)),
     te_mc_sample = (\<lambda>x p _ k. let vals = as_f64_slice x; n = mv_num_objectives vt; m = mv_num_constraints vt;
       (wf, wc) = mv_mc_sample vt vals (length vals) (phi_tau p) (phi_smc p) k n m (mv_user_data vt) in
       Inr (ObjVec (after_writes n wf), after_writes m wc)),
     te_solver_bias = (\<lambda>_ _ _. Inr (ObjVec (replicate (mv_num_objectives vt) 0), replicate (mv_num_constraints vt) 0)),
     te_num_objectives = mv_num_objectives vt, te_num_constraints = mv_num_constraints vt,
     te_search_dim = (if mv_search_dim vt > 0 then Some (mv_search_dim vt) else None)\<rparr>"

definition ffi_multi_evaluator :: "multi_vtable \<Rightarrow> evaluator" where
  "ffi_multi_evaluator vt = erased (ffi_multi_typed vt)"

subsection \<open>The functions of the interface\<close>

text \<open>\<open>CStr::to_str\<close> accepts well-formed UTF-8; a C string is given by its bytes without the terminator.\<close>

definition utf8_cont :: "nat \<Rightarrow> bool" where "utf8_cont b \<longleftrightarrow> 128 \<le> b \<and> b \<le> 191"

fun utf8_valid :: "nat list \<Rightarrow> bool" where
  "utf8_valid [] = True"
| "utf8_valid (b # bs) = (if b < 128 then utf8_valid bs
     else if 194 \<le> b \<and> b \<le> 223 then (case bs of c # r \<Rightarrow> utf8_cont c \<and> utf8_valid r | _ \<Rightarrow> False)
     else if 224 \<le> b \<and> b \<le> 239 then (case bs of c # d # r \<Rightarrow>
         (if b = 224 then 160 \<le> c \<and> c \<le> 191 else if b = 237 then 128 \<le> c \<and> c \<le> 159 else utf8_cont c)
         \<and> utf8_cont d \<and> utf8_valid r | _ \<Rightarrow> False)
     else if 240 \<le> b \<and> b \<le> 244 then (case bs of c # d # e # r \<Rightarrow>
         (if b = 240 then 144 \<le> c \<and> c \<le> 191 else if b = 244 then 128 \<le> c \<and> c \<le> 143 else utf8_cont c)
         \<and> utf8_cont d \<and> utf8_cont e \<and> utf8_valid r | _ \<Rightarrow> False)
     else False)"

definition c_str_to_str :: "string \<Rightarrow> string option" where
  "c_str_to_str s = (if utf8_valid (map of_char s) then Some s else None)"

definition imads_config_from_preset :: "allocator \<Rightarrow> string option \<Rightarrow> heap \<Rightarrow> (c_ptr \<times> heap) ffi" where
  "imads_config_from_preset al name h = (case name of None \<Rightarrow> Inr (Null, h)
     | Some c_str \<Rightarrow> (case c_str_to_str c_str of None \<Rightarrow> Inr (Null, h)
       | Some s \<Rightarrow> (case preset_of_name s of None \<Rightarrow> Inr (Null, h)
         | Some preset \<Rightarrow> (case preset_config preset of Inl q \<Rightarrow> Inl (Abort q)
           | Inr cfg \<Rightarrow> Inr (box_new al (Config_cell cfg) h)))))"

definition imads_config_free :: "c_ptr \<Rightarrow> heap \<Rightarrow> heap ffi" where
  "imads_config_free cfg h = (if cfg \<noteq> Null then box_drop is_config cfg h else Inr h)"

definition imads_engine_new :: "allocator \<Rightarrow> heap \<Rightarrow> c_ptr \<times> heap" where
  "imads_engine_new al h = box_new al (Engine_cell new_engine) h"

text \<open>
  The heap has the boxes and arrays of the interface. Dropping an engine frees its box; the threads and the shared state of a
  pool it has are not cells, and stay alive (theory \<open>Pool_Liveness\<close>).
\<close>

definition imads_engine_free :: "c_ptr \<Rightarrow> heap \<Rightarrow> heap ffi" where
  "imads_engine_free engine h = (if engine \<noteq> Null then box_drop is_engine engine h else Inr h)"

text \<open>
  The common course of the runs: the pointers are dereferenced, the engine runs in place, and the output is converted.
\<close>

definition run_handle :: "extern \<Rightarrow> bool \<Rightarrow> batch_runner \<Rightarrow> (engine_output \<Rightarrow> heap \<Rightarrow> ('o \<times> heap) ffi) \<Rightarrow> (engine_cfg \<Rightarrow> evaluator) \<Rightarrow>
    c_ptr \<Rightarrow> c_ptr \<Rightarrow> imads_env option \<Rightarrow> u32 \<Rightarrow> heap \<Rightarrow> ('o \<times> heap) ffi option" where
  "run_handle X threads pool conv mk engine cfg env workers h =
     (case ffi_bind (deref_engine engine h) (\<lambda>ae. ffi_bind (deref_config cfg h) (\<lambda>c.
         case env of None \<Rightarrow> Inl Undefined | Some e \<Rightarrow> Inr (ae, c, ffi_env_to_env e))) of
       Inl err \<Rightarrow> Some (Inl err)
     | Inr ((a, eg), c, e) \<Rightarrow> (case host_run X threads pool c e (unat workers) (mk c) eg of
         None \<Rightarrow> None
       | Some (Inl p) \<Rightarrow> Some (Inl (Abort p))
       | Some (Inr (out, eg')) \<Rightarrow> Some (conv out (h(a \<mapsto> Engine_cell eg')))))"

definition imads_engine_run :: "extern \<Rightarrow> bool \<Rightarrow> batch_runner \<Rightarrow> allocator \<Rightarrow> c_ptr \<Rightarrow> c_ptr \<Rightarrow> imads_env option \<Rightarrow> u32 \<Rightarrow> heap \<Rightarrow>
    (imads_output \<times> heap) ffi option" where
  "imads_engine_run X threads pool al = run_handle X threads pool (engine_output_to_ffi al)
     (\<lambda>cfg. toy_evaluator X (ec_num_constraints cfg) (case ec_search_dim cfg of Some d \<Rightarrow> d | None \<Rightarrow> 4))"

definition imads_engine_run_with_evaluator :: "extern \<Rightarrow> bool \<Rightarrow> batch_runner \<Rightarrow> allocator \<Rightarrow> evaluator_vtable \<Rightarrow> c_ptr \<Rightarrow> c_ptr \<Rightarrow>
    imads_env option \<Rightarrow> u32 \<Rightarrow> heap \<Rightarrow> (imads_output \<times> heap) ffi option" where
  "imads_engine_run_with_evaluator X threads pool al vtable =
     run_handle X threads pool (engine_output_to_ffi al) (\<lambda>_. ffi_evaluator vtable)"

definition imads_engine_run_with_evaluator_ptr :: "extern \<Rightarrow> bool \<Rightarrow> batch_runner \<Rightarrow> allocator \<Rightarrow> evaluator_vtable option \<Rightarrow>
    c_ptr \<Rightarrow> c_ptr \<Rightarrow> imads_env option \<Rightarrow> u32 \<Rightarrow> heap \<Rightarrow> (imads_output \<times> heap) ffi option" where
  "imads_engine_run_with_evaluator_ptr X threads pool al vtable engine cfg env workers h = (case vtable of
     None \<Rightarrow> Some (Inl Undefined)
   | Some vt \<Rightarrow> imads_engine_run_with_evaluator X threads pool al vt engine cfg env workers h)"

definition imads_engine_run_multi :: "extern \<Rightarrow> bool \<Rightarrow> batch_runner \<Rightarrow> allocator \<Rightarrow> multi_vtable \<Rightarrow> c_ptr \<Rightarrow> c_ptr \<Rightarrow>
    imads_env option \<Rightarrow> u32 \<Rightarrow> heap \<Rightarrow> (imads_multi_output \<times> heap) ffi option" where
  "imads_engine_run_multi X threads pool al vtable =
     run_handle X threads pool (engine_output_to_multi_ffi al) (\<lambda>_. ffi_multi_evaluator vtable)"

definition imads_engine_run_multi_ptr :: "extern \<Rightarrow> bool \<Rightarrow> batch_runner \<Rightarrow> allocator \<Rightarrow> multi_vtable option \<Rightarrow>
    c_ptr \<Rightarrow> c_ptr \<Rightarrow> imads_env option \<Rightarrow> u32 \<Rightarrow> heap \<Rightarrow> (imads_multi_output \<times> heap) ffi option" where
  "imads_engine_run_multi_ptr X threads pool al vtable engine cfg env workers h = (case vtable of
     None \<Rightarrow> Some (Inl Undefined)
   | Some vt \<Rightarrow> imads_engine_run_multi X threads pool al vt engine cfg env workers h)"

text \<open>
  The structure passed to a release function is the caller's and is updated in place: its pointers are cleared.
\<close>

definition free_x :: "imads_output \<Rightarrow> heap \<Rightarrow> (imads_output \<times> heap) ffi" where
  "free_x out h = (if io_x_best_ptr out \<noteq> Null \<and> io_x_best_len out > 0
     then ffi_bind (box_drop (is_i64s (io_x_best_len out)) (io_x_best_ptr out) h) (\<lambda>h'.
       Inr (out\<lparr>io_x_best_ptr := Null, io_x_best_len := 0\<rparr>, h'))
     else Inr (out, h))"

definition imads_output_free :: "imads_output option \<Rightarrow> heap \<Rightarrow> (imads_output option \<times> heap) ffi" where
  "imads_output_free output h = (case output of None \<Rightarrow> Inr (None, h)
     | Some out \<Rightarrow> ffi_bind (free_x out h) (\<lambda>(out', h'). Inr (Some out', h')))"

definition multi_free_f :: "imads_multi_output \<Rightarrow> heap \<Rightarrow> (imads_multi_output \<times> heap) ffi" where
  "multi_free_f out h = (if mo_f_best_ptr out \<noteq> Null \<and> mo_f_best_len out > 0
     then ffi_bind (box_drop (is_f64s (mo_f_best_len out)) (mo_f_best_ptr out) h) (\<lambda>h'.
       Inr (out\<lparr>mo_f_best_ptr := Null, mo_f_best_len := 0\<rparr>, h'))
     else Inr (out, h))"

definition multi_free_x :: "imads_multi_output \<Rightarrow> heap \<Rightarrow> (imads_multi_output \<times> heap) ffi" where
  "multi_free_x out h = (if mo_x_best_ptr out \<noteq> Null \<and> mo_x_best_len out > 0
     then ffi_bind (box_drop (is_i64s (mo_x_best_len out)) (mo_x_best_ptr out) h) (\<lambda>h'.
       Inr (out\<lparr>mo_x_best_ptr := Null, mo_x_best_len := 0\<rparr>, h'))
     else Inr (out, h))"

definition imads_multi_output_free :: "imads_multi_output option \<Rightarrow> heap \<Rightarrow> (imads_multi_output option \<times> heap) ffi" where
  "imads_multi_output_free output h = (case output of None \<Rightarrow> Inr (None, h)
     | Some out \<Rightarrow> ffi_bind (multi_free_f out h) (\<lambda>(o1, h1). ffi_bind (multi_free_x o1 h1) (\<lambda>(o2, h2). Inr (Some o2, h2))))"

end
