(* ===== verification/Ffi_Session.thy ===== *)
theory Ffi_Session
  imports Ffi
begin

text \<open>
  Clients of the C interface. A session is the heap with what the client holds (handles and output structures, by index); a
  client is obedient when it passes live handles of the right kind, or null to a release function, as the documentation of
  each function asks. The invariant says that the heap is exactly what the client holds. From it: no obedient call has
  undefined behaviour, whatever the callbacks compute, and a client that has released everything leaves an empty heap.
\<close>

subsection \<open>Sessions\<close>

datatype held = Held_config c_ptr | Held_engine c_ptr | Held_output imads_output | Held_multi imads_multi_output | Released

record session =
  ss_heap :: heap
  ss_held :: "held list"

text \<open>Handles and structures are named by their index; \<open>None\<close> is a null argument.\<close>

datatype c_call =
    Config_from_preset "string option"
  | Config_free "nat option"
  | Engine_new
  | Engine_free "nat option"
  | Run nat nat imads_env u32
  | Run_with_evaluator nat nat imads_env u32 evaluator_vtable
  | Run_with_evaluator_ptr nat nat imads_env u32 evaluator_vtable
  | Run_multi nat nat imads_env u32 multi_vtable
  | Run_multi_ptr nat nat imads_env u32 multi_vtable
  | Output_free "nat option"
  | Multi_output_free "nat option"

definition held_at :: "session \<Rightarrow> nat \<Rightarrow> held" where
  "held_at s i = (if i < length (ss_held s) then ss_held s ! i else Released)"

fun held_ptr :: "held \<Rightarrow> c_ptr" where
  "held_ptr (Held_config p) = p" | "held_ptr (Held_engine p) = p" | "held_ptr _ = Null"

definition hold :: "('a \<Rightarrow> held) \<Rightarrow> session \<Rightarrow> 'a \<times> heap \<Rightarrow> session" where
  "hold mk s r = \<lparr>ss_heap = snd r, ss_held = ss_held s @ [mk (fst r)]\<rparr>"

text \<open>The release functions on what is held; the call with null is made on no element.\<close>

definition release_config :: "held \<Rightarrow> heap \<Rightarrow> (held \<times> heap) ffi" where
  "release_config x h = ffi_bind (imads_config_free (held_ptr x) h) (\<lambda>h'. Inr (Released, h'))"

definition release_engine :: "held \<Rightarrow> heap \<Rightarrow> (held \<times> heap) ffi" where
  "release_engine x h = ffi_bind (imads_engine_free (held_ptr x) h) (\<lambda>h'. Inr (Released, h'))"

definition release_output :: "held \<Rightarrow> heap \<Rightarrow> (held \<times> heap) ffi" where
  "release_output x h = ffi_bind (imads_output_free (case x of Held_output out \<Rightarrow> Some out | _ \<Rightarrow> None) h)
     (\<lambda>(out, h'). Inr (case out of Some o' \<Rightarrow> Held_output o' | None \<Rightarrow> x, h'))"

definition release_multi :: "held \<Rightarrow> heap \<Rightarrow> (held \<times> heap) ffi" where
  "release_multi x h = ffi_bind (imads_multi_output_free (case x of Held_multi out \<Rightarrow> Some out | _ \<Rightarrow> None) h)
     (\<lambda>(out, h'). Inr (case out of Some o' \<Rightarrow> Held_multi o' | None \<Rightarrow> x, h'))"

definition release_at :: "(held \<Rightarrow> heap \<Rightarrow> (held \<times> heap) ffi) \<Rightarrow> nat option \<Rightarrow> session \<Rightarrow> session ffi" where
  "release_at rel i s = (case i of
     None \<Rightarrow> ffi_bind (rel Released (ss_heap s)) (\<lambda>(_, h'). Inr (s\<lparr>ss_heap := h'\<rparr>))
   | Some i \<Rightarrow> ffi_bind (rel (held_at s i) (ss_heap s)) (\<lambda>(x', h'). Inr \<lparr>ss_heap = h', ss_held = (ss_held s)[i := x']\<rparr>))"

definition hold_result :: "('a \<Rightarrow> held) \<Rightarrow> session \<Rightarrow> ('a \<times> heap) ffi option \<Rightarrow> session ffi option" where
  "hold_result mk s r = (case r of None \<Rightarrow> None | Some q \<Rightarrow> Some (ffi_bind q (\<lambda>p. Inr (hold mk s p))))"

fun perform :: "extern \<Rightarrow> bool \<Rightarrow> batch_runner \<Rightarrow> allocator \<Rightarrow> c_call \<Rightarrow> session \<Rightarrow> session ffi option" where
  "perform X threads pool al (Config_from_preset name) s = hold_result (\<lambda>p. if p = Null then Released else Held_config p) s
     (Some (imads_config_from_preset al name (ss_heap s)))"
| "perform X threads pool al (Config_free i) s = Some (release_at release_config i s)"
| "perform X threads pool al Engine_new s = Some (Inr (hold Held_engine s (imads_engine_new al (ss_heap s))))"
| "perform X threads pool al (Engine_free i) s = Some (release_at release_engine i s)"
| "perform X threads pool al (Run eng cfg e w) s = hold_result Held_output s (imads_engine_run X threads pool al
     (held_ptr (held_at s eng)) (held_ptr (held_at s cfg)) (Some e) w (ss_heap s))"
| "perform X threads pool al (Run_with_evaluator eng cfg e w vt) s = hold_result Held_output s
     (imads_engine_run_with_evaluator X threads pool al vt (held_ptr (held_at s eng)) (held_ptr (held_at s cfg)) (Some e) w (ss_heap s))"
| "perform X threads pool al (Run_with_evaluator_ptr eng cfg e w vt) s = hold_result Held_output s
     (imads_engine_run_with_evaluator_ptr X threads pool al (Some vt) (held_ptr (held_at s eng)) (held_ptr (held_at s cfg)) (Some e) w (ss_heap s))"
| "perform X threads pool al (Run_multi eng cfg e w vt) s = hold_result Held_multi s
     (imads_engine_run_multi X threads pool al vt (held_ptr (held_at s eng)) (held_ptr (held_at s cfg)) (Some e) w (ss_heap s))"
| "perform X threads pool al (Run_multi_ptr eng cfg e w vt) s = hold_result Held_multi s
     (imads_engine_run_multi_ptr X threads pool al (Some vt) (held_ptr (held_at s eng)) (held_ptr (held_at s cfg)) (Some e) w (ss_heap s))"
| "perform X threads pool al (Output_free i) s = Some (release_at release_output i s)"
| "perform X threads pool al (Multi_output_free i) s = Some (release_at release_multi i s)"

fun is_held_config where "is_held_config (Held_config _) = True" | "is_held_config _ = False"
fun is_held_engine where "is_held_engine (Held_engine _) = True" | "is_held_engine _ = False"
fun is_held_output where "is_held_output (Held_output _) = True" | "is_held_output _ = False"
fun is_held_multi where "is_held_multi (Held_multi _) = True" | "is_held_multi _ = False"

definition null_or :: "(held \<Rightarrow> bool) \<Rightarrow> session \<Rightarrow> nat option \<Rightarrow> bool" where
  "null_or kind s i \<longleftrightarrow> (case i of None \<Rightarrow> True | Some i \<Rightarrow> kind (held_at s i))"

text \<open>
  What the documentation asks of the caller. Releasing the same output structure again is allowed: its pointers are null.
\<close>

fun obedient :: "c_call \<Rightarrow> session \<Rightarrow> bool" where
  "obedient (Config_free i) s = null_or is_held_config s i"
| "obedient (Engine_free i) s = null_or is_held_engine s i"
| "obedient (Run eng cfg _ _) s = (is_held_engine (held_at s eng) \<and> is_held_config (held_at s cfg))"
| "obedient (Run_with_evaluator eng cfg _ _ _) s = (is_held_engine (held_at s eng) \<and> is_held_config (held_at s cfg))"
| "obedient (Run_with_evaluator_ptr eng cfg _ _ _) s = (is_held_engine (held_at s eng) \<and> is_held_config (held_at s cfg))"
| "obedient (Run_multi eng cfg _ _ _) s = (is_held_engine (held_at s eng) \<and> is_held_config (held_at s cfg))"
| "obedient (Run_multi_ptr eng cfg _ _ _) s = (is_held_engine (held_at s eng) \<and> is_held_config (held_at s cfg))"
| "obedient (Output_free i) s = null_or is_held_output s i"
| "obedient (Multi_output_free i) s = null_or is_held_multi s i"
| "obedient _ s = True"

inductive session_reach :: "extern \<Rightarrow> bool \<Rightarrow> batch_runner \<Rightarrow> allocator \<Rightarrow> session \<Rightarrow> bool"
  for X threads pool al where
  start: "session_reach X threads pool al \<lparr>ss_heap = Map.empty, ss_held = []\<rparr>"
| call: "session_reach X threads pool al s \<Longrightarrow> obedient c s \<Longrightarrow> perform X threads pool al c s = Some (Inr s') \<Longrightarrow>
    session_reach X threads pool al s'"

subsection \<open>Ownership\<close>

fun ptr_addrs :: "c_ptr \<Rightarrow> nat list" where "ptr_addrs (Addr a) = [a]" | "ptr_addrs _ = []"

fun held_addrs :: "held \<Rightarrow> nat list" where
  "held_addrs (Held_config p) = ptr_addrs p"
| "held_addrs (Held_engine p) = ptr_addrs p"
| "held_addrs (Held_output out) = ptr_addrs (io_x_best_ptr out)"
| "held_addrs (Held_multi out) = ptr_addrs (mo_f_best_ptr out) @ ptr_addrs (mo_x_best_ptr out)"
| "held_addrs Released = []"

definition box_ok :: "(cell \<Rightarrow> bool) \<Rightarrow> heap \<Rightarrow> c_ptr \<Rightarrow> bool" where
  "box_ok is h p \<longleftrightarrow> (\<exists>a c. p = Addr a \<and> h a = Some c \<and> is c)"

definition slice_ok :: "(nat \<Rightarrow> cell \<Rightarrow> bool) \<Rightarrow> heap \<Rightarrow> c_ptr \<Rightarrow> nat \<Rightarrow> bool" where
  "slice_ok is h p n \<longleftrightarrow> (if n = 0 then ptr_addrs p = [] else box_ok (is n) h p)"

fun held_ok :: "heap \<Rightarrow> held \<Rightarrow> bool" where
  "held_ok h (Held_config p) = box_ok is_config h p"
| "held_ok h (Held_engine p) = box_ok is_engine h p"
| "held_ok h (Held_output out) = slice_ok is_i64s h (io_x_best_ptr out) (io_x_best_len out)"
| "held_ok h (Held_multi out) \<longleftrightarrow> slice_ok is_f64s h (mo_f_best_ptr out) (mo_f_best_len out)
     \<and> slice_ok is_i64s h (mo_x_best_ptr out) (mo_x_best_len out)"
| "held_ok h Released = True"

definition owned :: "session \<Rightarrow> nat list" where
  "owned s = concat (map held_addrs (ss_held s))"

definition session_ok :: "session \<Rightarrow> bool" where
  "session_ok s \<longleftrightarrow> finite (dom (ss_heap s)) \<and> distinct (owned s) \<and> set (owned s) = dom (ss_heap s)
     \<and> (\<forall>x \<in> set (ss_held s). held_ok (ss_heap s) x)"

lemma held_ok_cong: "held_ok h x \<Longrightarrow> (\<And>a. a \<in> set (held_addrs x) \<Longrightarrow> h' a = h a) \<Longrightarrow> held_ok h' x"
  by (cases x) (auto simp: box_ok_def slice_ok_def split: if_splits)

lemma box_ok_upd: "box_ok is h p \<Longrightarrow> h a = Some c \<Longrightarrow> (is c \<Longrightarrow> is c') \<Longrightarrow> box_ok is (h(a \<mapsto> c')) p"
  unfolding box_ok_def by (metis fun_upd_apply option.inject)

lemma held_ok_engine: "held_ok h x \<Longrightarrow> h a = Some (Engine_cell eg) \<Longrightarrow> held_ok (h(a \<mapsto> Engine_cell eg')) x"
  by (cases x) (auto simp: slice_ok_def intro!: box_ok_upd split: if_splits)

text \<open>The heap \<open>h'\<close> is \<open>h\<close> with new cells at the addresses \<open>xs\<close>.\<close>

definition extends :: "heap \<Rightarrow> nat list \<Rightarrow> heap \<Rightarrow> bool" where
  "extends h xs h' \<longleftrightarrow> distinct xs \<and> set xs \<inter> dom h = {} \<and> dom h' = dom h \<union> set xs \<and> (\<forall>a \<in> dom h. h' a = h a)"

lemma extends_trans: "extends h xs h1 \<Longrightarrow> extends h1 ys h2 \<Longrightarrow> extends h (xs @ ys) h2"
  by (fastforce simp: extends_def)

lemma session_ok_hold:
  assumes "session_ok s" "extends (ss_heap s) (held_addrs x) h'" "held_ok h' x"
  shows "session_ok \<lparr>ss_heap = h', ss_held = ss_held s @ [x]\<rparr>"
proof -
  have own: "set (owned s) = dom (ss_heap s)" and old: "\<And>y. y \<in> set (ss_held s) \<Longrightarrow> held_ok (ss_heap s) y"
    using assms(1) by (simp_all add: session_ok_def)
  have "held_ok h' y" if "y \<in> set (ss_held s)" for y
  proof (rule held_ok_cong[OF old[OF that]])
    fix a assume "a \<in> set (held_addrs y)"
    then have "a \<in> dom (ss_heap s)" using that own by (auto simp: owned_def)
    then show "h' a = ss_heap s a" using assms(2) by (simp add: extends_def)
  qed
  moreover have "finite (dom h')" using assms(1,2) by (simp add: session_ok_def extends_def)
  ultimately show ?thesis using assms by (auto simp: session_ok_def extends_def owned_def)
qed

lemma session_ok_release:
  assumes "session_ok s" "i < length (ss_held s)" "held_addrs x' = []" "\<And>h. held_ok h x'"
  shows "session_ok \<lparr>ss_heap = ss_heap s |` (- set (held_addrs (ss_held s ! i))), ss_held = (ss_held s)[i := x']\<rparr>"
proof -
  define xs x ys where "xs = take i (ss_held s)" and "x = ss_held s ! i" and "ys = drop (Suc i) (ss_held s)"
  have hs: "ss_held s = xs @ x # ys" "(ss_held s)[i := x'] = xs @ x' # ys"
    using assms(2) by (simp_all add: xs_def x_def ys_def id_take_nth_drop[symmetric] upd_conv_take_nth_drop)
  let ?h = "ss_heap s |` (- set (held_addrs x))"
  have d: "distinct (owned s)" and own: "set (owned s) = dom (ss_heap s)" and fin: "finite (dom (ss_heap s))"
    and old: "\<And>y. y \<in> set (ss_held s) \<Longrightarrow> held_ok (ss_heap s) y" using assms(1) by (simp_all add: session_ok_def)
  have rest: "set (held_addrs y) \<inter> set (held_addrs x) = {}" if "y \<in> set (xs @ ys)" for y
    using d that by (auto simp: owned_def hs(1))
  have "held_ok ?h y" if "y \<in> set (xs @ ys)" for y
    by (rule held_ok_cong[OF old]) (use that rest[OF that] in \<open>auto simp: hs(1) restrict_map_def\<close>)
  moreover have "set (owned \<lparr>ss_heap = ?h, ss_held = xs @ x' # ys\<rparr>) = dom ?h"
    using own d assms(3) by (auto simp: owned_def hs(1))
  ultimately show ?thesis unfolding hs(2) x_def[symmetric]
    using d fin assms(3,4) by (auto simp: session_ok_def owned_def hs(1))
qed

subsection \<open>Allocating and releasing\<close>

lemma box_new_extends:
  assumes "allocator_ok al" "finite (dom h)" "box_new al c h = (p, h')"
  shows "extends h (ptr_addrs p) h'" "is c \<Longrightarrow> box_ok is h' p" "p \<noteq> Null"
proof -
  have "al h \<notin> dom h" using assms(1,2) by (simp add: allocator_ok_def)
  then show "extends h (ptr_addrs p) h'" "is c \<Longrightarrow> box_ok is h' p" "p \<noteq> Null"
    using assms(3) by (auto simp: box_new_def extends_def box_ok_def Let_def)
qed

lemma leak_opt_extends:
  assumes "allocator_ok al" "finite (dom h)" "leak_opt al mk vs h = (p, n, h')" "\<And>v. is (length v) (mk v)"
  shows "extends h (ptr_addrs p) h'" "slice_ok is h' p n"
proof -
  consider "vs = None \<or> vs = Some []" | v where "vs = Some v" "v \<noteq> []" by (cases vs) auto
  then have "extends h (ptr_addrs p) h' \<and> slice_ok is h' p n"
  proof cases
    case 1
    then show ?thesis using assms(3) by (auto simp: leak_opt_def leak_slice_def extends_def slice_ok_def)
  next
    case 2
    then have "box_new al (mk v) h = (p, h')" "n = length v"
      using assms(3) by (auto simp: leak_opt_def leak_slice_def split: prod.splits)
    note b = box_new_extends[OF assms(1,2) this(1)]
    show ?thesis using b(1) b(2)[of "is n"] assms(4)[of v] 2 \<open>n = length v\<close> by (simp add: slice_ok_def)
  qed
  then show "extends h (ptr_addrs p) h'" "slice_ok is h' p n" by simp_all
qed

lemma restrict_UNIV [simp]: "m |` UNIV = m"
  by (simp add: restrict_map_def fun_eq_iff)

lemma box_drop_ok: "box_ok is h p \<Longrightarrow> box_drop is p h = Inr (h |` (- set (ptr_addrs p)))"
  by (auto simp: box_ok_def box_drop_def restrict_map_def fun_eq_iff)

lemma box_ok_not_null: "box_ok is h p \<Longrightarrow> p \<noteq> Null"
  by (auto simp: box_ok_def)

lemma slice_drop_ok:
  "slice_ok is h p n \<Longrightarrow> p \<noteq> Null \<and> n > 0 \<Longrightarrow> box_drop (is n) p h = Inr (h |` (- set (ptr_addrs p)))"
  "slice_ok is h p n \<Longrightarrow> \<not> (p \<noteq> Null \<and> n > 0) \<Longrightarrow> ptr_addrs p = [] \<and> n = 0"
  using box_ok_not_null by (auto simp: slice_ok_def box_drop_ok split: if_splits)

lemma slice_ok_cong: "slice_ok is h p n \<Longrightarrow> (\<And>a. a \<in> set (ptr_addrs p) \<Longrightarrow> h' a = h a) \<Longrightarrow> slice_ok is h' p n"
  by (auto simp: slice_ok_def box_ok_def split: if_splits)

lemma slice_ok_empty: "ptr_addrs p = [] \<Longrightarrow> slice_ok is h p 0"
  by (simp add: slice_ok_def)

lemma release_config_ok:
  "is_held_config x \<Longrightarrow> held_ok h x \<Longrightarrow> release_config x h = Inr (Released, h |` (- set (held_addrs x)))"
  by (cases x) (simp_all add: release_config_def imads_config_free_def box_drop_ok box_ok_not_null)

lemma release_engine_ok:
  "is_held_engine x \<Longrightarrow> held_ok h x \<Longrightarrow> release_engine x h = Inr (Released, h |` (- set (held_addrs x)))"
  by (cases x) (simp_all add: release_engine_def imads_engine_free_def box_drop_ok box_ok_not_null)

lemma free_x_ok:
  assumes "slice_ok is_i64s h (io_x_best_ptr out) (io_x_best_len out)"
  shows "\<exists>out'. free_x out h = Inr (out', h |` (- set (ptr_addrs (io_x_best_ptr out)))) \<and> ptr_addrs (io_x_best_ptr out') = [] \<and> io_x_best_len out' = 0"
  using slice_drop_ok[OF assms] by (simp add: free_x_def)

lemma multi_free_f_ok:
  assumes "slice_ok is_f64s h (mo_f_best_ptr out) (mo_f_best_len out)"
  shows "\<exists>out'. multi_free_f out h = Inr (out', h |` (- set (ptr_addrs (mo_f_best_ptr out)))) \<and> ptr_addrs (mo_f_best_ptr out') = []
    \<and> mo_f_best_len out' = 0 \<and> mo_x_best_ptr out' = mo_x_best_ptr out \<and> mo_x_best_len out' = mo_x_best_len out"
  using slice_drop_ok[OF assms] by (simp add: multi_free_f_def)

lemma multi_free_x_ok:
  assumes "slice_ok is_i64s h (mo_x_best_ptr out) (mo_x_best_len out)"
  shows "\<exists>out'. multi_free_x out h = Inr (out', h |` (- set (ptr_addrs (mo_x_best_ptr out)))) \<and> ptr_addrs (mo_x_best_ptr out') = []
    \<and> mo_x_best_len out' = 0 \<and> mo_f_best_ptr out' = mo_f_best_ptr out \<and> mo_f_best_len out' = mo_f_best_len out"
  using slice_drop_ok[OF assms] by (simp add: multi_free_x_def)

text \<open>
  The contract of a release function: it gives back exactly what the element owns, and leaves an element that owns nothing.
\<close>

locale releasing =
  fixes rel :: "held \<Rightarrow> heap \<Rightarrow> (held \<times> heap) ffi" and kind :: "held \<Rightarrow> bool"
  assumes rel_null: "rel Released h = Inr (x0, h0) \<Longrightarrow> h0 = h" "rel Released h \<noteq> Inl err"
    and rel_kind: "kind x \<Longrightarrow> held_ok h x \<Longrightarrow> distinct (held_addrs x) \<Longrightarrow>
      \<exists>x'. rel x h = Inr (x', h |` (- set (held_addrs x))) \<and> held_addrs x' = [] \<and> (\<forall>h. held_ok h x')"
    and kind_released: "\<not> kind Released"
begin

lemma release_session:
  assumes "session_ok s" "null_or kind s i"
  shows "\<exists>s'. release_at rel i s = Inr s' \<and> session_ok s'"
proof (cases i)
  case None
  obtain x0 where "rel Released (ss_heap s) = Inr (x0, ss_heap s)" using rel_null by (metis sum.exhaust surj_pair)
  with None assms(1) show ?thesis by (simp add: release_at_def)
next
  case (Some j)
  then have j: "j < length (ss_held s)" "kind (ss_held s ! j)"
    using assms(2) kind_released by (auto simp: null_or_def held_at_def split: if_splits)
  have "distinct (held_addrs (ss_held s ! j))" "held_ok (ss_heap s) (ss_held s ! j)"
    using assms(1) j(1) by (auto simp: session_ok_def owned_def distinct_concat_iff)
  then obtain x' where "rel (ss_held s ! j) (ss_heap s) = Inr (x', ss_heap s |` (- set (held_addrs (ss_held s ! j))))"
    "held_addrs x' = []" "\<And>h. held_ok h x'" using rel_kind[OF j(2)] by blast
  with session_ok_release[OF assms(1) j(1), of x'] j(1) show ?thesis by (simp add: release_at_def Some held_at_def)
qed

end

interpretation config_rel: releasing release_config is_held_config
  by unfold_locales (auto simp: release_config_ok, simp_all add: release_config_def imads_config_free_def)

interpretation engine_rel: releasing release_engine is_held_engine
  by unfold_locales (auto simp: release_engine_ok, simp_all add: release_engine_def imads_engine_free_def)

interpretation output_rel: releasing release_output is_held_output
proof
  fix x h assume "is_held_output x" "held_ok h x" "distinct (held_addrs x)"
  then obtain out where x: "x = Held_output out" "slice_ok is_i64s h (io_x_best_ptr out) (io_x_best_len out)" by (cases x) auto
  from free_x_ok[OF x(2)] obtain out' where
    "free_x out h = Inr (out', h |` (- set (held_addrs x)))" "ptr_addrs (io_x_best_ptr out') = []" "io_x_best_len out' = 0"
    by (auto simp: x(1))
  then show "\<exists>x'. release_output x h = Inr (x', h |` (- set (held_addrs x))) \<and> held_addrs x' = [] \<and> (\<forall>h. held_ok h x')"
    by (intro exI[of _ "Held_output out'"]) (simp add: x(1) release_output_def imads_output_free_def slice_ok_empty)
qed (simp_all add: release_output_def imads_output_free_def)

interpretation multi_rel: releasing release_multi is_held_multi
proof
  fix x h assume "is_held_multi x" "held_ok h x" and d: "distinct (held_addrs x)"
  then obtain out where x: "x = Held_multi out" "slice_ok is_f64s h (mo_f_best_ptr out) (mo_f_best_len out)"
    "slice_ok is_i64s h (mo_x_best_ptr out) (mo_x_best_len out)" by (cases x) auto
  let ?h1 = "h |` (- set (ptr_addrs (mo_f_best_ptr out)))"
  from multi_free_f_ok[OF x(2)] obtain o1 where o1: "multi_free_f out h = Inr (o1, ?h1)" "ptr_addrs (mo_f_best_ptr o1) = []"
    "mo_f_best_len o1 = 0" "mo_x_best_ptr o1 = mo_x_best_ptr out" "mo_x_best_len o1 = mo_x_best_len out" by blast
  have "slice_ok is_i64s ?h1 (mo_x_best_ptr o1) (mo_x_best_len o1)"
    unfolding o1(4,5) by (rule slice_ok_cong[OF x(3)]) (use d in \<open>auto simp: x(1) restrict_map_def\<close>)
  from multi_free_x_ok[OF this] obtain o2 where o2: "multi_free_x o1 ?h1 = Inr (o2, ?h1 |` (- set (ptr_addrs (mo_x_best_ptr out))))"
    "ptr_addrs (mo_x_best_ptr o2) = []" "mo_x_best_len o2 = 0" "mo_f_best_ptr o2 = mo_f_best_ptr o1" "mo_f_best_len o2 = mo_f_best_len o1"
    by (auto simp: o1(4))
  have "?h1 |` (- set (ptr_addrs (mo_x_best_ptr out))) = h |` (- set (held_addrs x))"
    by (simp add: x(1) restrict_restrict Int_def Un_def Compl_eq)
  with o1 o2 show "\<exists>x'. release_multi x h = Inr (x', h |` (- set (held_addrs x))) \<and> held_addrs x' = [] \<and> (\<forall>h. held_ok h x')"
    by (intro exI[of _ "Held_multi o2"]) (simp add: x(1) release_multi_def imads_multi_output_free_def slice_ok_empty)
qed (simp_all add: release_multi_def imads_multi_output_free_def)

subsection \<open>Calls\<close>

definition good_result :: "session ffi \<Rightarrow> bool" where
  "good_result r \<longleftrightarrow> (case r of Inr s \<Rightarrow> session_ok s | Inl e \<Rightarrow> e \<noteq> Undefined)"

text \<open>What a conversion of the engine's output must do: allocate exactly what the result owns.\<close>

definition conv_ok :: "(engine_output \<Rightarrow> heap \<Rightarrow> ('o \<times> heap) ffi) \<Rightarrow> ('o \<Rightarrow> held) \<Rightarrow> bool" where
  "conv_ok conv mk \<longleftrightarrow> (\<forall>out h. finite (dom h) \<longrightarrow> (case conv out h of Inl e \<Rightarrow> e \<noteq> Undefined
     | Inr (r, h') \<Rightarrow> extends h (held_addrs (mk r)) h' \<and> held_ok h' (mk r)))"

lemma conv_output_ok: "allocator_ok al \<Longrightarrow> conv_ok (engine_output_to_ffi al) Held_output"
  unfolding conv_ok_def
proof (intro allI impI)
  fix out :: engine_output and h :: heap assume al: "allocator_ok al" and fin: "finite (dom h)"
  obtain p n h' where l: "leak_opt al I64_cell (eo_x_best out) h = (p, n, h')" by (metis surj_pair)
  note e = leak_opt_extends[OF al fin l, of is_i64s]
  show "case engine_output_to_ffi al out h of Inl e \<Rightarrow> e \<noteq> Undefined
    | Inr (r, h') \<Rightarrow> extends h (held_addrs (Held_output r)) h' \<and> held_ok h' (Held_output r)"
    using e by (auto simp: engine_output_to_ffi_def l split: option.split list.split)
qed

lemma conv_multi_ok: "allocator_ok al \<Longrightarrow> conv_ok (engine_output_to_multi_ffi al) Held_multi"
  unfolding conv_ok_def
proof (intro allI impI)
  fix out :: engine_output and h :: heap assume al: "allocator_ok al" and fin: "finite (dom h)"
  obtain p n h1 where f: "leak_opt al F64_cell (eo_f_best out) h = (p, n, h1)" by (metis surj_pair)
  obtain q k h2 where x: "leak_opt al I64_cell (eo_x_best out) h1 = (q, k, h2)" by (metis surj_pair)
  note e1 = leak_opt_extends[OF al fin f, of is_f64s, simplified]
  have "finite (dom h1)" using e1(1) fin by (simp add: extends_def)
  note e2 = leak_opt_extends[OF al this x, of is_i64s, simplified]
  have "slice_ok is_f64s h2 p n" by (rule slice_ok_cong[OF e1(2)]) (use e1(1) e2(1) in \<open>auto simp: extends_def\<close>)
  then show "case engine_output_to_multi_ffi al out h of Inl e \<Rightarrow> e \<noteq> Undefined
    | Inr (r, h') \<Rightarrow> extends h (held_addrs (Held_multi r)) h' \<and> held_ok h' (Held_multi r)"
    using extends_trans[OF e1(1) e2(1)] e2(2) by (simp add: engine_output_to_multi_ffi_def f x)
qed

lemma deref_held:
  assumes "session_ok s"
  shows "is_held_engine (held_at s i) \<Longrightarrow> \<exists>a eg. deref_engine (held_ptr (held_at s i)) (ss_heap s) = Inr (a, eg) \<and> ss_heap s a = Some (Engine_cell eg)"
    and "is_held_config (held_at s j) \<Longrightarrow> \<exists>cfg. deref_config (held_ptr (held_at s j)) (ss_heap s) = Inr cfg"
proof -
  have ok: "held_at s k \<noteq> Released \<Longrightarrow> held_ok (ss_heap s) (held_at s k)" for k
    using assms by (auto simp: held_at_def session_ok_def split: if_splits)
  show "is_held_engine (held_at s i) \<Longrightarrow> \<exists>a eg. deref_engine (held_ptr (held_at s i)) (ss_heap s) = Inr (a, eg) \<and> ss_heap s a = Some (Engine_cell eg)"
    using ok[of i] by (cases "held_at s i") (auto simp: box_ok_def deref_engine_def elim!: is_engine.elims)
  show "is_held_config (held_at s j) \<Longrightarrow> \<exists>cfg. deref_config (held_ptr (held_at s j)) (ss_heap s) = Inr cfg"
    using ok[of j] by (cases "held_at s j") (auto simp: box_ok_def deref_config_def elim!: is_config.elims)
qed

lemma session_ok_engine:
  assumes "session_ok s" "ss_heap s a = Some (Engine_cell eg)"
  shows "session_ok (s\<lparr>ss_heap := (ss_heap s)(a \<mapsto> Engine_cell eg')\<rparr>)"
  using assms by (auto simp: session_ok_def owned_def insert_absorb domI intro: held_ok_engine)

lemma hold_converted:
  assumes "session_ok s" "conv_ok conv mk" "conv out (ss_heap s) = r"
  shows "good_result (ffi_bind r (\<lambda>p. Inr (hold mk s p)))"
proof -
  have "finite (dom (ss_heap s))" using assms(1) by (simp add: session_ok_def)
  then have c: "case r of Inl e \<Rightarrow> e \<noteq> Undefined | Inr (q, h') \<Rightarrow> extends (ss_heap s) (held_addrs (mk q)) h' \<and> held_ok h' (mk q)"
    using assms(2,3) by (auto simp: conv_ok_def)
  show ?thesis
  proof (cases r)
    case (Inr q)
    with c session_ok_hold[OF assms(1), of "mk (fst q)" "snd q"] show ?thesis by (simp add: good_result_def hold_def split: prod.splits)
  qed (use c in \<open>simp add: good_result_def\<close>)
qed

lemma run_handle_good:
  assumes s: "session_ok s" "is_held_engine (held_at s i)" "is_held_config (held_at s j)" and conv: "conv_ok conv mk"
    and r: "hold_result mk s (run_handle X threads pool conv ev (held_ptr (held_at s i)) (held_ptr (held_at s j)) (Some e) w (ss_heap s)) = Some r"
  shows "good_result r"
proof -
  obtain a eg where a: "deref_engine (held_ptr (held_at s i)) (ss_heap s) = Inr (a, eg)" "ss_heap s a = Some (Engine_cell eg)"
    using deref_held(1)[OF s(1,2)] by blast
  obtain cfg where c: "deref_config (held_ptr (held_at s j)) (ss_heap s) = Inr cfg" using deref_held(2)[OF s(1,3)] by blast
  show ?thesis
  proof (cases "host_run X threads pool cfg (ffi_env_to_env e) (unat w) (ev cfg) eg")
    case None
    then show ?thesis using r by (simp add: run_handle_def hold_result_def a c)
  next
    case (Some q)
    show ?thesis
    proof (cases q)
      case (Inl p)
      then show ?thesis using r Some by (auto simp: run_handle_def hold_result_def a c good_result_def)
    next
      case (Inr t)
      obtain out eg' where t: "t = (out, eg')" by (cases t)
      let ?s = "s\<lparr>ss_heap := (ss_heap s)(a \<mapsto> Engine_cell eg')\<rparr>"
      have "r = ffi_bind (conv out (ss_heap ?s)) (\<lambda>p. Inr (hold mk ?s p))"
        using r Some Inr t by (simp add: run_handle_def hold_result_def a c hold_def)
      then show ?thesis using hold_converted[OF session_ok_engine[OF s(1) a(2)] conv refl] by blast
    qed
  qed
qed

lemma good_release: "\<exists>s'. r = Inr s' \<and> session_ok s' \<Longrightarrow> good_result r"
  by (auto simp: good_result_def)

lemma hold_box:
  assumes "session_ok s" "allocator_ok al" "is c" "\<And>h p. held_ok h (mk p) = box_ok is h p" "\<And>p. held_addrs (mk p) = ptr_addrs p"
  shows "session_ok (hold mk s (box_new al c (ss_heap s)))"
proof -
  have "finite (dom (ss_heap s))" using assms(1) by (simp add: session_ok_def)
  obtain p h' where b: "box_new al c (ss_heap s) = (p, h')" by fastforce
  note n = box_new_extends[OF assms(2) \<open>finite (dom (ss_heap s))\<close> b]
  show ?thesis unfolding b hold_def
    using session_ok_hold[OF assms(1), of "mk p" h'] n(1) n(2)[of "is"] assms(3) by (simp add: assms(4,5))
qed

lemma config_from_preset_good:
  assumes "session_ok s" "allocator_ok al"
  shows "good_result (ffi_bind (imads_config_from_preset al name (ss_heap s)) (\<lambda>p. Inr (hold (\<lambda>p. if p = Null then Released else Held_config p) s p)))"
proof -
  have null: "session_ok (hold (\<lambda>p. if p = Null then Released else Held_config p) s (Null, ss_heap s))"
    using session_ok_hold[OF assms(1), of Released "ss_heap s"] by (simp add: hold_def extends_def)
  have box: "session_ok (hold (\<lambda>p. if p = Null then Released else Held_config p) s (box_new al (Config_cell cfg) (ss_heap s)))" for cfg
    using hold_box[OF assms, of is_config "Config_cell cfg" Held_config] by (simp add: hold_def box_new_def Let_def)
  show ?thesis using null box
    by (auto simp: imads_config_from_preset_def good_result_def split: option.split sum.split)
qed

lemma perform_good:
  assumes s: "session_ok s" and al: "allocator_ok al" and ob: "obedient c s" and r: "perform X threads pool al c s = Some r"
  shows "good_result r"
proof (cases c)
  case (Config_from_preset name)
  then show ?thesis using r config_from_preset_good[OF s al, of name] by (simp add: hold_result_def)
next
  case Engine_new
  then show ?thesis using r hold_box[OF s al, of is_engine "Engine_cell new_engine" Held_engine]
    by (auto simp: imads_engine_new_def good_result_def)
qed (use ob r s in \<open>auto simp: imads_engine_run_def imads_engine_run_with_evaluator_def imads_engine_run_with_evaluator_ptr_def
    imads_engine_run_multi_def imads_engine_run_multi_ptr_def
    intro: run_handle_good[OF s _ _ conv_output_ok[OF al]] run_handle_good[OF s _ _ conv_multi_ok[OF al]]
    good_release config_rel.release_session engine_rel.release_session output_rel.release_session multi_rel.release_session\<close>)

lemma reach_session_ok: "session_reach X threads pool al s \<Longrightarrow> allocator_ok al \<Longrightarrow> session_ok s"
proof (induction rule: session_reach.induct)
  case start
  then show ?case by (simp add: session_ok_def owned_def)
next
  case (call s c s')
  then show ?case using perform_good[of s al c] by (fastforce simp: good_result_def)
qed

text \<open>
  C7: an obedient client of the C interface is safe. Whatever handles it creates, runs and releases in whatever order, and
  whatever its callbacks compute, no call dereferences or frees a pointer that is not a live allocation of the layout the code
  assumes, so nothing is freed twice (releasing one output structure again included); the heap is always exactly what the
  client holds; and when everything has been released the heap is empty: no box or array of the interface leaks. The worker
  threads that an engine with a pool leaves running when it is dropped (\<open>drop_leaks_workers\<close>) are not part of this heap.
\<close>

theorem c_session_safe:
  assumes "allocator_ok al" "session_reach X threads pool al s"
  shows "(obedient c s \<longrightarrow> perform X threads pool al c s \<noteq> Some (Inl Undefined))
    \<and> set (owned s) = dom (ss_heap s) \<and> distinct (owned s)
    \<and> (list_all (\<lambda>x. held_addrs x = []) (ss_held s) \<longrightarrow> ss_heap s = Map.empty)"
proof -
  have ok: "session_ok s" by (rule reach_session_ok[OF assms(2,1)])
  moreover have "ss_heap s = Map.empty" if "list_all (\<lambda>x. held_addrs x = []) (ss_held s)"
    using ok that by (auto simp: session_ok_def owned_def list_all_iff)
  moreover have "perform X threads pool al c s \<noteq> Some (Inl Undefined)" if "obedient c s"
    using perform_good[OF ok assms(1) that, of X threads pool "Inl Undefined"] by (auto simp: good_result_def)
  ultimately show ?thesis by (simp add: session_ok_def)
qed

end
