(* ===== verification/Ffi_Props.thy ===== *)
theory Ffi_Props
  imports Ffi_Session
begin

text \<open>
  What a C client gets: a run through the interface is the run of the library, read back through the output structure, and
  the program of the C guide (configuration, engine, run, three releases) returns and leaves the heap as it found it. The
  preset names, the environment and the adapters of the callbacks are checked on the way.
\<close>

subsection \<open>Reading a result\<close>

text \<open>What a client reads through a pointer and a length; a null pointer is no array.\<close>

definition read_i64s :: "c_ptr \<Rightarrow> nat \<Rightarrow> heap \<Rightarrow> int list option" where
  "read_i64s p n h = (case p of Null \<Rightarrow> None | Dangling \<Rightarrow> Some []
     | Addr a \<Rightarrow> (case h a of Some (I64_cell v) \<Rightarrow> Some (take n v) | _ \<Rightarrow> None))"

definition read_f64s :: "c_ptr \<Rightarrow> nat \<Rightarrow> heap \<Rightarrow> f64 list option" where
  "read_f64s p n h = (case p of Null \<Rightarrow> None | Dangling \<Rightarrow> Some []
     | Addr a \<Rightarrow> (case h a of Some (F64_cell v) \<Rightarrow> Some (take n v) | _ \<Rightarrow> None))"

text \<open>The eight counters, as the client reads them and as the library counts them.\<close>

definition read_stats :: "imads_stats \<Rightarrow> nat list" where
  "read_stats s = [is_truth_evals s, is_truth_decision_cache_hits s, is_truth_eval_cache_hits s, is_partial_steps s,
     is_partial_decision_cache_hits s, is_partial_eval_cache_hits s, is_cheap_rejects s, is_invalid_eval_rejects s]"

definition listed_stats :: "engine_stats \<Rightarrow> nat list" where
  "listed_stats s = [st_truth_evals s, st_truth_decision_cache_hits s, st_truth_eval_cache_hits s, st_partial_steps s,
     st_partial_decision_cache_hits s, st_partial_eval_cache_hits s, st_cheap_rejects s, st_invalid_eval_rejects s]"

text \<open>The environment a client describes: every field keeps its value.\<close>

definition client_env :: "imads_env \<Rightarrow> env" where
  "client_env e = \<lparr>run_id = word_of_int (uint (ie_run_id e)), config_hash = word_of_int (uint (ie_config_hash e)),
     data_snapshot_id = word_of_int (uint (ie_data_snapshot_id e)), rng_master_seed = word_of_int (uint (ie_rng_master_seed e))\<rparr>"

lemma ffi_env: "ffi_env_to_env e = client_env e"
  by (simp only: ffi_env_to_env_def client_env_def ucast_eq)

lemma ffi_stats: "read_stats (stats_to_ffi s) = listed_stats s"
  by (simp add: read_stats_def listed_stats_def stats_to_ffi_def)

definition view_output :: "imads_output \<times> heap \<Rightarrow> f64 option \<times> int list option \<times> nat list" where
  "view_output r = (case r of (out, h) \<Rightarrow> (if io_f_best_valid out then Some (io_f_best out) else None,
     read_i64s (io_x_best_ptr out) (io_x_best_len out) h, read_stats (io_stats out)))"

definition view_multi :: "imads_multi_output \<times> heap \<Rightarrow> f64 list option \<times> int list option \<times> nat list" where
  "view_multi r = (case r of (out, h) \<Rightarrow> (if mo_f_best_valid out then read_f64s (mo_f_best_ptr out) (mo_f_best_len out) h else None,
     read_i64s (mo_x_best_ptr out) (mo_x_best_len out) h, read_stats (mo_stats out)))"

text \<open>
  The abstraction of a call (the values read, and the engine at its address afterwards) and of a run of the library, whose
  output \<open>f\<close> presents to the client.
\<close>

definition c_view :: "('o \<times> heap \<Rightarrow> 'v) \<Rightarrow> nat \<Rightarrow> ('o \<times> heap) ffi option \<Rightarrow> ('v \<times> cell option) ffi option" where
  "c_view view a r = (case r of None \<Rightarrow> None | Some q \<Rightarrow> Some (ffi_bind q (\<lambda>p. Inr (view p, snd p a))))"

definition core_view :: "(engine_output \<Rightarrow> 'v ffi) \<Rightarrow> (engine_output \<times> default_engine) res option \<Rightarrow> ('v \<times> cell option) ffi option" where
  "core_view f r = (case r of None \<Rightarrow> None | Some (Inl p) \<Rightarrow> Some (Inl (Abort p))
     | Some (Inr (out, eg)) \<Rightarrow> Some (ffi_bind (f out) (\<lambda>v. Inr (v, Some (Engine_cell eg)))))"

definition single_output :: "engine_output \<Rightarrow> (f64 option \<times> int list option \<times> nat list) ffi" where
  "single_output out = (case eo_f_best out of Some [] \<Rightarrow> Inl (Abort Index_out_of_bounds)
     | Some (f # _) \<Rightarrow> Inr (Some f, eo_x_best out, listed_stats (eo_stats out))
     | None \<Rightarrow> Inr (None, eo_x_best out, listed_stats (eo_stats out)))"

definition multi_output :: "engine_output \<Rightarrow> (f64 list option \<times> int list option \<times> nat list) ffi" where
  "multi_output out = Inr (eo_f_best out, eo_x_best out, listed_stats (eo_stats out))"

lemma leak_opt_read:
  assumes "leak_opt al I64_cell vs h = (p, n, h')"
  shows "read_i64s p n h' = vs"
  using assms by (auto simp: leak_opt_def leak_slice_def box_new_def read_i64s_def Let_def split: option.splits if_splits)

lemma leak_opt_read_f:
  assumes "leak_opt al F64_cell vs h = (p, n, h')" "\<And>a. a \<in> dom h' \<Longrightarrow> h'' a = h' a"
  shows "read_f64s p n h'' = vs"
  using assms by (auto simp: leak_opt_def leak_slice_def box_new_def read_f64s_def Let_def split: option.splits if_splits)

lemma leak_opt_frame:
  assumes "allocator_ok al" "finite (dom h)" "leak_opt al mk vs h = (p, n, h')" "a \<in> dom h"
  shows "h' a = h a" "finite (dom h')"
  using leak_opt_extends(1)[OF assms(1-3), of "\<lambda>_ _. True"] assms(2,4) by (simp_all add: extends_def)

text \<open>A conversion presents \<open>f\<close> of the output and keeps every cell.\<close>

definition presents :: "(engine_output \<Rightarrow> heap \<Rightarrow> ('o \<times> heap) ffi) \<Rightarrow> ('o \<times> heap \<Rightarrow> 'v) \<Rightarrow> (engine_output \<Rightarrow> 'v ffi) \<Rightarrow> bool" where
  "presents conv view f \<longleftrightarrow> (\<forall>out h a. finite (dom h) \<longrightarrow> a \<in> dom h \<longrightarrow>
     ffi_bind (conv out h) (\<lambda>p. Inr (view p, snd p a)) = ffi_bind (f out) (\<lambda>v. Inr (v, h a)))"

lemma presentsD:
  assumes "presents conv view f" "finite (dom h)" "h a = Some c"
  shows "ffi_bind (conv out h) (\<lambda>p. Inr (view p, snd p a)) = ffi_bind (f out) (\<lambda>v. Inr (v, Some c))"
  using assms by (auto simp: presents_def domI)

lemma presents_single: "allocator_ok al \<Longrightarrow> presents (engine_output_to_ffi al) view_output single_output"
  unfolding presents_def
proof (intro allI impI)
  fix out :: engine_output and h :: heap and a assume h: "allocator_ok al" "finite (dom h)" "a \<in> dom h"
  obtain p n h' where l: "leak_opt al I64_cell (eo_x_best out) h = (p, n, h')" by (metis surj_pair)
  show "ffi_bind (engine_output_to_ffi al out h) (\<lambda>p. Inr (view_output p, snd p a)) = ffi_bind (single_output out) (\<lambda>v. Inr (v, h a))"
    using leak_opt_read[OF l] leak_opt_frame(1)[OF h(1,2) l h(3)]
    by (auto simp: engine_output_to_ffi_def single_output_def l view_output_def ffi_stats split: option.split list.split)
qed

lemma presents_multi: "allocator_ok al \<Longrightarrow> presents (engine_output_to_multi_ffi al) view_multi multi_output"
  unfolding presents_def
proof (intro allI impI)
  fix out :: engine_output and h :: heap and a assume h: "allocator_ok al" "finite (dom h)" "a \<in> dom h"
  obtain p n h1 where f: "leak_opt al F64_cell (eo_f_best out) h = (p, n, h1)" by (metis surj_pair)
  obtain q k h2 where x: "leak_opt al I64_cell (eo_x_best out) h1 = (q, k, h2)" by (metis surj_pair)
  note fr1 = leak_opt_frame[OF h(1,2) f] note fr2 = leak_opt_frame[OF h(1) fr1(2)[OF h(3)] x]
  have "a \<in> dom h1" using fr1(1)[OF h(3)] h(3) by auto
  then have a: "h2 a = h a" using fr1(1)[OF h(3)] fr2(1) by simp
  have "read_f64s p n h2 = eo_f_best out" by (rule leak_opt_read_f[OF f]) (rule fr2(1))
  with a leak_opt_read[OF x]
  show "ffi_bind (engine_output_to_multi_ffi al out h) (\<lambda>p. Inr (view_multi p, snd p a)) = ffi_bind (multi_output out) (\<lambda>v. Inr (v, h a))"
    by (simp add: engine_output_to_multi_ffi_def multi_output_def f x view_multi_def ffi_stats del: fun_upd_apply)
qed

lemma run_handle_refines:
  assumes "presents conv view f" "finite (dom h)" "deref_engine p h = Inr (a, eg)" "deref_config q h = Inr cfg"
  shows "c_view view a (run_handle X threads pool conv ev p q (Some e) w h) =
    core_view f (host_run X threads pool cfg (ffi_env_to_env e) (unat w) (ev cfg) eg)"
proof (cases "host_run X threads pool cfg (ffi_env_to_env e) (unat w) (ev cfg) eg")
  case None
  then show ?thesis using assms(3,4) by (simp add: run_handle_def c_view_def core_view_def)
next
  case (Some r)
  show ?thesis
  proof (cases r)
    case (Inl pn)
    then show ?thesis using assms(3,4) Some by (simp add: run_handle_def c_view_def core_view_def)
  next
    case (Inr t)
    obtain out eg' where t: "t = (out, eg')" by (cases t)
    have "ffi_bind (conv out (h(a \<mapsto> Engine_cell eg'))) (\<lambda>p. Inr (view p, snd p a)) = ffi_bind (f out) (\<lambda>v. Inr (v, Some (Engine_cell eg')))"
      using assms(2) by (intro presentsD[OF assms(1)]) simp_all
    then show ?thesis using assms(3,4) Some Inr t by (simp add: run_handle_def c_view_def core_view_def)
  qed
qed

text \<open>
  C8: the C interface refines the library. For live handles, what a client reads through the output structure, the state of
  the engine behind its handle, aborts and non-termination are those of the library's run with the same configuration,
  environment, workers and evaluator (the built-in one, a single-objective table by value or by pointer, or a
  multi-objective table), on the executor the library chooses, whatever its pool does; a null pointer for the point stands for no point, \<open>f_best_valid\<close> for an objective.
\<close>

theorem c_run_refines_core:
  assumes "allocator_ok al" "finite (dom h)" "deref_engine p h = Inr (a, eg)" "deref_config q h = Inr cfg"
  shows "c_view view_output a (imads_engine_run X threads pool al p q (Some e) w h) =
      core_view single_output (host_engine_run X threads pool cfg (client_env e) (unat w) eg)
    \<and> c_view view_output a (imads_engine_run_with_evaluator_ptr X threads pool al (Some vt) p q (Some e) w h) =
      core_view single_output (host_run X threads pool cfg (client_env e) (unat w) (ffi_evaluator vt) eg)
    \<and> c_view view_multi a (imads_engine_run_multi_ptr X threads pool al (Some mv) p q (Some e) w h) =
      core_view multi_output (host_run X threads pool cfg (client_env e) (unat w) (ffi_multi_evaluator mv) eg)"
  using run_handle_refines[OF presents_single[OF assms(1)] assms(2-4)] run_handle_refines[OF presents_multi[OF assms(1)] assms(2-4)]
  by (simp add: imads_engine_run_def imads_engine_run_with_evaluator_ptr_def imads_engine_run_with_evaluator_def
      imads_engine_run_multi_ptr_def imads_engine_run_multi_def host_engine_run_def ffi_env)

subsection \<open>The adapters of the callbacks\<close>

interpretation ffi_host: host_evaluator "ffi_evaluator vt" for vt
  by unfold_locales (auto simp: evaluator_total_def ffi_evaluator_def erased_def ffi_typed_def Let_def split: prod.split)

interpretation ffi_multi_host: host_evaluator "ffi_multi_evaluator vt" for vt
  by unfold_locales (auto simp: evaluator_total_def ffi_multi_evaluator_def erased_def ffi_multi_typed_def Let_def split: prod.split)

lemma ffi_evaluator_fields [simp]: "ev_num_objectives (ffi_evaluator vt) = 1"
  "ev_search_dim (ffi_evaluator vt) = (if vt_search_dim vt > 0 then Some (vt_search_dim vt) else None)"
  by (simp_all add: ffi_evaluator_def erased_def ffi_typed_def)

subsection \<open>The program of the guide\<close>

fun perform_all :: "extern \<Rightarrow> bool \<Rightarrow> batch_runner \<Rightarrow> allocator \<Rightarrow> c_call list \<Rightarrow> session \<Rightarrow> session ffi option" where
  "perform_all X threads pool al [] s = Some (Inr s)"
| "perform_all X threads pool al (c # cs) s = (case perform X threads pool al c s of None \<Rightarrow> None | Some (Inl e) \<Rightarrow> Some (Inl e)
     | Some (Inr s') \<Rightarrow> perform_all X threads pool al cs s')"

definition empty_session :: session where
  "empty_session = \<lparr>ss_heap = Map.empty, ss_held = []\<rparr>"

definition guide_program :: "preset \<Rightarrow> imads_env \<Rightarrow> u32 \<Rightarrow> evaluator_vtable \<Rightarrow> c_call list" where
  "guide_program p e w vt = [Config_from_preset (Some (preset_name p)), Engine_new, Run_with_evaluator 1 0 e w vt,
     Output_free (Some 2), Engine_free (Some 1), Config_free (Some 0)]"

lemma preset_name_utf8: "c_str_to_str (preset_name p) = Some (preset_name p)"
  by (cases p) (simp_all add: c_str_to_str_def)

lemma open_session:
  assumes "allocator_ok al" "preset_config p = Inr cfg"
  obtains a b where "perform X threads pool al (Config_from_preset (Some (preset_name p))) empty_session =
      Some (Inr \<lparr>ss_heap = [a \<mapsto> Config_cell cfg], ss_held = [Held_config (Addr a)]\<rparr>)"
    "perform X threads pool al Engine_new \<lparr>ss_heap = [a \<mapsto> Config_cell cfg], ss_held = [Held_config (Addr a)]\<rparr> =
      Some (Inr \<lparr>ss_heap = [a \<mapsto> Config_cell cfg, b \<mapsto> Engine_cell new_engine], ss_held = [Held_config (Addr a), Held_engine (Addr b)]\<rparr>)"
    "a \<noteq> b"
proof
  let ?a = "al Map.empty" let ?b = "al [?a \<mapsto> Config_cell cfg]"
  show "?a \<noteq> ?b" using assms(1) by (metis allocator_ok_def dom_fun_upd dom_empty finite.emptyI finite.insertI insertI1 option.distinct(1))
  have "preset_of_name (preset_name p) = Some p" by (simp add: preset_of_name_inverse)
  then show "perform X threads pool al (Config_from_preset (Some (preset_name p))) empty_session =
      Some (Inr \<lparr>ss_heap = [?a \<mapsto> Config_cell cfg], ss_held = [Held_config (Addr ?a)]\<rparr>)"
    by (simp add: hold_result_def empty_session_def imads_config_from_preset_def preset_name_utf8 assms(2) box_new_def hold_def Let_def)
  show "perform X threads pool al Engine_new \<lparr>ss_heap = [?a \<mapsto> Config_cell cfg], ss_held = [Held_config (Addr ?a)]\<rparr> =
      Some (Inr \<lparr>ss_heap = [?a \<mapsto> Config_cell cfg, ?b \<mapsto> Engine_cell new_engine], ss_held = [Held_config (Addr ?a), Held_engine (Addr ?b)]\<rparr>)"
    by (simp add: imads_engine_new_def box_new_def hold_def Let_def)
qed

lemma release_steps:
  assumes "session_ok s" "i < length (ss_held s)"
  shows "is_held_config (ss_held s ! i) \<Longrightarrow> \<exists>s'. perform X threads pool al (Config_free (Some i)) s = Some (Inr s')
      \<and> session_ok s' \<and> ss_held s' = (ss_held s)[i := Released]"
    and "is_held_engine (ss_held s ! i) \<Longrightarrow> \<exists>s'. perform X threads pool al (Engine_free (Some i)) s = Some (Inr s')
      \<and> session_ok s' \<and> ss_held s' = (ss_held s)[i := Released]"
    and "ss_held s ! i = Held_output out \<Longrightarrow> \<exists>s' out'. perform X threads pool al (Output_free (Some i)) s = Some (Inr s')
      \<and> session_ok s' \<and> ss_held s' = (ss_held s)[i := Held_output out'] \<and> ptr_addrs (io_x_best_ptr out') = []
      \<and> io_f_best out' = io_f_best out \<and> io_f_best_valid out' = io_f_best_valid out"
proof -
  have at: "held_at s i = ss_held s ! i" and ok: "held_ok (ss_heap s) (ss_held s ! i)"
    using assms by (simp_all add: held_at_def session_ok_def)
  show "is_held_config (ss_held s ! i) \<Longrightarrow> \<exists>s'. perform X threads pool al (Config_free (Some i)) s = Some (Inr s')
      \<and> session_ok s' \<and> ss_held s' = (ss_held s)[i := Released]"
    using config_rel.release_session[OF assms(1), of "Some i"] release_config_ok[OF _ ok] by (auto simp: null_or_def release_at_def at)
  show "is_held_engine (ss_held s ! i) \<Longrightarrow> \<exists>s'. perform X threads pool al (Engine_free (Some i)) s = Some (Inr s')
      \<and> session_ok s' \<and> ss_held s' = (ss_held s)[i := Released]"
    using engine_rel.release_session[OF assms(1), of "Some i"] release_engine_ok[OF _ ok] by (auto simp: null_or_def release_at_def at)
  assume o: "ss_held s ! i = Held_output out"
  then have sl: "slice_ok is_i64s (ss_heap s) (io_x_best_ptr out) (io_x_best_len out)" using ok by simp
  obtain out' h' where f: "free_x out (ss_heap s) = Inr (out', h')" "ptr_addrs (io_x_best_ptr out') = []"
    using free_x_ok[OF sl] by auto
  then have "io_f_best out' = io_f_best out" "io_f_best_valid out' = io_f_best_valid out"
    by (auto simp: free_x_def ffi_bind_Inr split: if_splits)
  with f output_rel.release_session[OF assms(1), of "Some i"]
  show "\<exists>s' out'. perform X threads pool al (Output_free (Some i)) s = Some (Inr s')
      \<and> session_ok s' \<and> ss_held s' = (ss_held s)[i := Held_output out'] \<and> ptr_addrs (io_x_best_ptr out') = []
      \<and> io_f_best out' = io_f_best out \<and> io_f_best_valid out' = io_f_best_valid out"
    by (auto simp: null_or_def release_at_def at o release_output_def imads_output_free_def)
qed

lemma conv_returns: "eo_f_best out \<noteq> Some [] \<Longrightarrow> \<exists>r. engine_output_to_ffi al out h = Inr r"
  by (auto simp: engine_output_to_ffi_def split: option.split list.split prod.split)

lemma conv_values:
  assumes "engine_output_to_ffi al out h = Inr (o', h')"
  shows "io_f_best_valid o' \<longleftrightarrow> eo_f_best out \<noteq> None"
    "io_f_best o' = (case eo_f_best out of Some f \<Rightarrow> hd f | None \<Rightarrow> f64_nan)"
proof -
  obtain p n h1 where l: "leak_opt al I64_cell (eo_x_best out) h = (p, n, h1)" by (metis surj_pair)
  show "io_f_best_valid o' \<longleftrightarrow> eo_f_best out \<noteq> None"
    "io_f_best o' = (case eo_f_best out of Some f \<Rightarrow> hd f | None \<Rightarrow> f64_nan)"
    using assms by (auto simp: engine_output_to_ffi_def l split: option.splits list.splits)
qed

text \<open>
  The run of the program, on a fresh engine and a preset: it hangs in the pool or returns a sound result.
\<close>

lemma fresh_handle_run:
  assumes "allocator_ok al" "extern_ok X" "ln_1p_bounded X" "threads \<and> 1 < unat w \<longrightarrow> pool_answers X pool" "vt_search_dim vt < 2 ^ 63"
    and "preset_config p = Inr cfg" "s = \<lparr>ss_heap = [a \<mapsto> Config_cell cfg, b \<mapsto> Engine_cell new_engine], ss_held = [Held_config (Addr a), Held_engine (Addr b)]\<rparr>"
    and "a \<noteq> b" "session_ok s"
  shows "threads \<and> 1 < unat w \<and> perform X threads pool al (Run_with_evaluator 1 0 e w vt) s = None
    \<or> (\<exists>s' out. perform X threads pool al (Run_with_evaluator 1 0 e w vt) s = Some (Inr s') \<and> session_ok s'
    \<and> ss_held s' = ss_held s @ [Held_output out] \<and> (if io_f_best_valid out then is_finite (io_f_best out) else is_nan (io_f_best out)))"
proof -
  let ?run = "host_run X threads pool cfg (ffi_env_to_env e) (unat w) (ffi_evaluator vt) new_engine"
  have dim: "d < 2 ^ 63" if "ev_search_dim (ffi_evaluator vt) = Some d" for d
    using that assms(5) by (simp split: if_splits)
  have "threads \<and> 1 < unat w \<and> ?run = None \<or> (\<exists>out eg'. ?run = Some (Inr (out, eg')) \<and> output_shape 1 out)"
  proof (cases "threads \<and> 1 < unat w")
    case True
    with ffi_host.fresh_host_outcome[OF assms(6), of vt X pool threads "ffi_env_to_env e" "unat w", OF dim objective_safeI assms(2,3)] assms(4)
    show ?thesis by auto
  next
    case False
    with ffi_host.fresh_host_preset_run[OF assms(6), of vt, OF dim objective_safeI assms(2,3), where e = "ffi_env_to_env e" and pool = pool]
    show ?thesis by auto
  qed
  then show ?thesis
  proof (elim disjE exE conjE)
    fix out eg' assume run: "?run = Some (Inr (out, eg'))" and shape: "output_shape 1 out"
    let ?h = "(ss_heap s)(b \<mapsto> Engine_cell eg')"
    have ne: "eo_f_best out \<noteq> Some []" using shape by (auto simp: output_shape_def)
    obtain o' h' where o: "engine_output_to_ffi al out ?h = Inr (o', h')"
      using conv_returns[OF ne] by fastforce
    have "is_nan f64_nan" by (simp add: is_nan_def f64_nan_def INF_MAG_def)
    then have v: "if io_f_best_valid o' then is_finite (io_f_best o') else is_nan (io_f_best o')"
      using conv_values[OF o] shape by (cases "eo_f_best out") (auto simp: output_shape_def length_Suc_conv)
    let ?s = "hold Held_output s (o', h')"
    have perf: "perform X threads pool al (Run_with_evaluator 1 0 e w vt) s = Some (Inr ?s)"
      using run o assms(8) by (simp add: assms(7) held_at_def imads_engine_run_with_evaluator_def run_handle_def deref_engine_def
          deref_config_def hold_result_def)
    have "session_ok ?s"
      using perform_good[OF assms(9,1) _ perf] by (simp add: good_result_def assms(7) held_at_def)
    with perf v show ?thesis by (auto simp: hold_def)
  next
    assume "?run = None" "threads" "1 < unat w"
    then show ?thesis using assms(8) by (simp add: assms(7) held_at_def imads_engine_run_with_evaluator_def run_handle_def deref_engine_def
          deref_config_def hold_result_def)
  qed
qed

lemma release_all:
  assumes "session_ok s" "ss_held s = [Held_config (Addr a), Held_engine (Addr b), Held_output out]"
  shows "\<exists>s' out'. perform_all X threads pool al [Output_free (Some 2), Engine_free (Some 1), Config_free (Some 0)] s = Some (Inr s')
    \<and> ss_heap s' = Map.empty \<and> ss_held s' = [Released, Released, Held_output out']
    \<and> io_f_best out' = io_f_best out \<and> io_f_best_valid out' = io_f_best_valid out"
proof -
  obtain s4 o4 where s4: "perform X threads pool al (Output_free (Some 2)) s = Some (Inr s4)" "session_ok s4"
    "ss_held s4 = [Held_config (Addr a), Held_engine (Addr b), Held_output o4]" "ptr_addrs (io_x_best_ptr o4) = []"
    "io_f_best o4 = io_f_best out" "io_f_best_valid o4 = io_f_best_valid out"
    using release_steps(3)[OF assms(1), of 2 out X threads pool al] by (auto simp: assms(2))
  obtain s5 where s5: "perform X threads pool al (Engine_free (Some 1)) s4 = Some (Inr s5)" "session_ok s5"
    "ss_held s5 = [Held_config (Addr a), Released, Held_output o4]"
    using release_steps(2)[OF s4(2), of 1 X threads pool al] by (auto simp: s4(3))
  obtain s6 where s6: "perform X threads pool al (Config_free (Some 0)) s5 = Some (Inr s6)" "session_ok s6"
    "ss_held s6 = [Released, Released, Held_output o4]"
    using release_steps(1)[OF s5(2), of 0 X threads pool al] by (auto simp: s5(3))
  have "dom (ss_heap s6) = {}" using s6(2) by (simp add: session_ok_def owned_def s6(3) s4(4))
  then have "ss_heap s6 = Map.empty" by simp
  moreover have "perform_all X threads pool al [Output_free (Some 2), Engine_free (Some 1), Config_free (Some 0)] s = Some (Inr s6)"
    by (simp only: perform_all.simps s4(1) s5(1) s6(1) option.case sum.case)
  ultimately show ?thesis using s6(3) s4(5,6) by auto
qed

text \<open>
  C9: the program of the C guide, for every preset name, environment, number of workers and table of callbacks, with a search
  dimension a vector can have. With at most one worker, or in a build without threads, it returns; with more workers its run
  may hang in the pool (\<open>completion_wakeup_lost\<close>), but whatever the schedule nothing else goes wrong: when it does return,
  every one of its six calls has returned without abort or undefined behaviour, the result is marked valid exactly when it is
  a finite number and is NaN otherwise, and the heap is empty again. Of the pool it is assumed that a batch that returns does
  so by the pool's step relation.
\<close>

theorem c_program_returns:
  assumes "allocator_ok al" "extern_ok X" "ln_1p_bounded X" "threads \<and> 1 < unat w \<longrightarrow> pool_answers X pool" "vt_search_dim vt < 2 ^ 63"
  shows "case perform_all X threads pool al (guide_program p e w vt) empty_session of
      None \<Rightarrow> threads \<and> 1 < unat w
    | Some r \<Rightarrow> \<exists>s out. r = Inr s \<and> ss_heap s = Map.empty \<and> ss_held s = [Released, Released, Held_output out]
        \<and> (if io_f_best_valid out then is_finite (io_f_best out) else is_nan (io_f_best out))"
proof -
  obtain cfg where cfg: "preset_config p = Inr cfg" using preset_ok by blast
  obtain a b where ab: "perform X threads pool al (Config_from_preset (Some (preset_name p))) empty_session =
      Some (Inr \<lparr>ss_heap = [a \<mapsto> Config_cell cfg], ss_held = [Held_config (Addr a)]\<rparr>)"
    "perform X threads pool al Engine_new \<lparr>ss_heap = [a \<mapsto> Config_cell cfg], ss_held = [Held_config (Addr a)]\<rparr> =
      Some (Inr \<lparr>ss_heap = [a \<mapsto> Config_cell cfg, b \<mapsto> Engine_cell new_engine], ss_held = [Held_config (Addr a), Held_engine (Addr b)]\<rparr>)"
    "a \<noteq> b" by (rule open_session[OF assms(1) cfg])
  define s2 where "s2 = \<lparr>ss_heap = [a \<mapsto> Config_cell cfg, b \<mapsto> Engine_cell new_engine], ss_held = [Held_config (Addr a), Held_engine (Addr b)]\<rparr>"
  have "session_ok s2" using ab(3) by (simp add: session_ok_def owned_def s2_def box_ok_def insert_commute)
  note run = fresh_handle_run[OF assms cfg s2_def ab(3) this, of e]
  have prog: "perform_all X threads pool al (guide_program p e w vt) empty_session =
      (case perform X threads pool al (Run_with_evaluator 1 0 e w vt) s2 of None \<Rightarrow> None | Some (Inl q) \<Rightarrow> Some (Inl q)
       | Some (Inr s3) \<Rightarrow> perform_all X threads pool al [Output_free (Some 2), Engine_free (Some 1), Config_free (Some 0)] s3)"
    by (simp only: guide_program_def perform_all.simps(2)[of _ _ _ _ "Config_from_preset _"] perform_all.simps(2)[of _ _ _ _ Engine_new]
        perform_all.simps(2)[of _ _ _ _ "Run_with_evaluator _ _ _ _ _"] ab(1) ab(2)[folded s2_def] option.case sum.case)
  from run show ?thesis
  proof (elim disjE exE conjE)
    fix s3 o3
    assume s3: "perform X threads pool al (Run_with_evaluator 1 0 e w vt) s2 = Some (Inr s3)" "session_ok s3"
      "ss_held s3 = ss_held s2 @ [Held_output o3]" and v: "if io_f_best_valid o3 then is_finite (io_f_best o3) else is_nan (io_f_best o3)"
    from s3(3) have "ss_held s3 = [Held_config (Addr a), Held_engine (Addr b), Held_output o3]" by (simp add: s2_def)
    then obtain s o4 where s: "perform_all X threads pool al [Output_free (Some 2), Engine_free (Some 1), Config_free (Some 0)] s3 = Some (Inr s)"
      "ss_heap s = Map.empty" "ss_held s = [Released, Released, Held_output o4]"
      "io_f_best o4 = io_f_best o3" "io_f_best_valid o4 = io_f_best_valid o3" using release_all[OF s3(2)] by blast
    show ?thesis unfolding prog s3(1) option.case sum.case s(1) using s(2-5) v by (intro exI[of _ s] exI[of _ o4]) simp
  next
    assume "perform X threads pool al (Run_with_evaluator 1 0 e w vt) s2 = None" "threads" "1 < unat w"
    then show ?thesis unfolding prog by simp
  qed
qed

subsection \<open>Concrete instances\<close>

definition al_demo :: allocator where
  "al_demo h = Suc (Max (insert 0 (dom h)))"

lemma al_demo_ok: "allocator_ok al_demo"
  unfolding allocator_ok_def al_demo_def
proof (intro allI impI notI)
  fix h :: heap assume "finite (dom h)" "Suc (Max (insert 0 (dom h))) \<in> dom h"
  then have "Suc (Max (insert 0 (dom h))) \<le> Max (insert 0 (dom h))" by (intro Max_ge) simp_all
  then show False by simp
qed

definition c_env_demo :: imads_env where
  "c_env_demo = \<lparr>ie_run_id = 1, ie_config_hash = 2, ie_data_snapshot_id = 3, ie_rng_master_seed = 4\<rparr>"

definition vtable_demo :: evaluator_vtable where
  "vtable_demo = \<lparr>vt_cheap_constraints = None, vt_mc_sample = (\<lambda>x dim _ _ _ _ _. (Some (f_sum (map (\<lambda>v. v * v) x)), \<lambda>_. Some 0)),
     vt_num_constraints = 2, vt_search_dim = 3, vt_user_data = 0\<rparr>"

definition multi_vtable_demo :: multi_vtable where
  "multi_vtable_demo = \<lparr>mv_cheap_constraints = None, mv_mc_sample = (\<lambda>x dim _ _ _ _ _ _. (\<lambda>i. Some (f_sum x), \<lambda>_. None)),
     mv_num_objectives = 2, mv_num_constraints = 1, mv_search_dim = 3, mv_user_data = 0\<rparr>"

definition pool_stuck :: batch_runner where
  "pool_stuck ad ctx items c = None"

definition pool_inline :: batch_runner where
  "pool_inline ad ctx items c = Some (run_batch_inline extern0 ctx items c)"

text \<open>
  The four workers of the guide in a build without threads, one worker in a build with threads (a pool that never returns does
  not matter), and four workers with such a pool.
\<close>

theorem c_program_returns_witness:
  "(\<exists>s out. perform_all extern0 False pool_stuck al_demo (guide_program Balanced c_env_demo 4 vtable_demo) empty_session
      = Some (Inr s) \<and> ss_heap s = Map.empty \<and> ss_held s = [Released, Released, Held_output out])
   \<and> (\<exists>s out. perform_all extern0 True pool_stuck al_demo (guide_program Balanced c_env_demo 1 vtable_demo) empty_session
      = Some (Inr s) \<and> ss_heap s = Map.empty \<and> ss_held s = [Released, Released, Held_output out])
   \<and> (case perform_all extern0 True pool_stuck al_demo (guide_program Balanced c_env_demo 4 vtable_demo) empty_session of
       None \<Rightarrow> True | Some r \<Rightarrow> \<exists>s. r = Inr s \<and> ss_heap s = Map.empty)"
proof -
  have "pool_answers extern0 pool_stuck" by (simp add: pool_answers_def pool_stuck_def)
  then have "case perform_all extern0 threads pool_stuck al_demo (guide_program Balanced c_env_demo w vtable_demo) empty_session of
      None \<Rightarrow> threads \<and> 1 < unat w
    | Some r \<Rightarrow> \<exists>s out. r = Inr s \<and> ss_heap s = Map.empty \<and> ss_held s = [Released, Released, Held_output out]
        \<and> (if io_f_best_valid out then is_finite (io_f_best out) else is_nan (io_f_best out))" for threads w
    by (intro c_program_returns[OF al_demo_ok extern0_ok extern0_ln_1p]) (simp_all add: vtable_demo_def)
  from this[of False 4] this[of True 1] this[of True 4] show ?thesis by (auto split: option.splits simp del: perform_all.simps)
qed

theorem c_session_safe_witness:
  "\<exists>s. session_reach extern0 True pool_inline al_demo s \<and> ss_held s = [Held_config (Addr 1), Held_engine (Addr 2)]
    \<and> set (owned s) = dom (ss_heap s)
    \<and> perform extern0 True pool_inline al_demo (Run 1 0 c_env_demo 1) s \<noteq> Some (Inl Undefined)"
proof -
  obtain cfg where cfg: "preset_config Balanced = Inr cfg" using preset_ok by blast
  let ?s1 = "\<lparr>ss_heap = [1 \<mapsto> Config_cell cfg], ss_held = [Held_config (Addr 1)]\<rparr>"
  let ?s2 = "\<lparr>ss_heap = [1 \<mapsto> Config_cell cfg, 2 \<mapsto> Engine_cell new_engine], ss_held = [Held_config (Addr 1), Held_engine (Addr 2)]\<rparr>"
  have a: "al_demo Map.empty = 1" "al_demo [1 \<mapsto> Config_cell cfg] = 2" by (simp_all add: al_demo_def)
  have "preset_of_name (preset_name Balanced) = Some Balanced" by (simp add: preset_of_name_inverse)
  then have p1: "perform extern0 True pool_inline al_demo (Config_from_preset (Some (preset_name Balanced)))
      \<lparr>ss_heap = Map.empty, ss_held = []\<rparr> = Some (Inr ?s1)"
    by (simp add: hold_result_def imads_config_from_preset_def preset_name_utf8[of Balanced, simplified] cfg[simplified] box_new_def hold_def Let_def a)
  have p2: "perform extern0 True pool_inline al_demo Engine_new ?s1 = Some (Inr ?s2)"
    using a by (simp add: imads_engine_new_def box_new_def hold_def Let_def)
  have "session_reach extern0 True pool_inline al_demo ?s1" by (rule session_reach.call[OF session_reach.start _ p1]) simp
  then have "session_reach extern0 True pool_inline al_demo ?s2" by (rule session_reach.call[OF _ _ p2]) simp
  with c_session_safe[OF al_demo_ok this, of "Run 1 0 c_env_demo 1"] show ?thesis
    by (intro exI[of _ ?s2]) (simp add: held_at_def del: perform.simps)
qed

theorem c_run_refines_core_witness:
  "c_view view_output 1 (imads_engine_run extern0 True pool_inline al_demo (Addr 1) (Addr 2) (Some c_env_demo) 1
      [1 \<mapsto> Engine_cell new_engine, 2 \<mapsto> Config_cell preset_base_args]) =
    core_view single_output (host_engine_run extern0 True pool_inline preset_base_args
      (client_env c_env_demo) 1 new_engine)
   \<and> c_view view_multi 1 (imads_engine_run_multi_ptr extern0 True pool_inline al_demo (Some multi_vtable_demo) (Addr 1) (Addr 2)
      (Some c_env_demo) 1 [1 \<mapsto> Engine_cell new_engine, 2 \<mapsto> Config_cell preset_base_args]) =
    core_view multi_output (host_run extern0 True pool_inline preset_base_args (client_env c_env_demo) 1
      (ffi_multi_evaluator multi_vtable_demo) new_engine)"
  using c_run_refines_core[OF al_demo_ok, of "[1 \<mapsto> Engine_cell new_engine, 2 \<mapsto> Config_cell preset_base_args]" "Addr 1" 1 new_engine
      "Addr 2" preset_base_args extern0 True pool_inline c_env_demo 1 vtable_demo multi_vtable_demo]
  by (simp add: deref_engine_def deref_config_def)

end
