(* ===== verification/Py.thy ===== *)
theory Py
  imports Bindings
begin

text \<open>
  \<open>imads-py/src/lib.rs\<close>: the Python classes. What PyO3 does (calling a method of the evaluator object, converting a Python
  value) is a parameter: a call returns a value or, when it raises, nothing, and a conversion succeeds or fails. Every call
  of the evaluator attaches to the interpreter, and the thread that runs the engine holds its lock throughout: a batch on the
  worker pool that needs the evaluator never returns. The lemmas give the exact cases in which the adapter panics and show
  when a run with an evaluator that keeps the protocol returns, whatever \<open>max_iters\<close> is set to.
\<close>

subsection \<open>The foreign side\<close>

record 'v py_object =
  po_cheap_constraints :: "f64 list \<Rightarrow> 'v option"
  po_mc_sample :: "f64 list \<Rightarrow> u64 \<Rightarrow> u32 \<Rightarrow> nat \<Rightarrow> 'v option"
  po_search_dim :: "'v option"

record 'v pyo3 =
  py_bool :: "'v \<Rightarrow> bool option"
  py_tuple :: "'v \<Rightarrow> 'v list option"
  py_float :: "'v \<Rightarrow> f64 option"
  py_floats :: "'v \<Rightarrow> f64 list option"
  py_usize :: "'v \<Rightarrow> nat option"

subsection \<open>Configurations, environments and outputs\<close>

record py_engine_config =
  pc_inner :: engine_cfg

text \<open>An unknown name is a \<open>ValueError\<close> with this message.\<close>

definition py_from_preset :: "string \<Rightarrow> (string + py_engine_config) res" where
  "py_from_preset name = (case preset_of_name name of None \<Rightarrow> Inr (Inl (''Unknown preset: '' @ name))
     | Some preset \<Rightarrow> res_bind (preset_config preset) (\<lambda>cfg. Inr (Inr \<lparr>pc_inner = cfg\<rparr>)))"

definition py_preset_names :: "string list" where
  "py_preset_names = map preset_name preset_all"

definition py_max_iters :: "py_engine_config \<Rightarrow> nat" where
  "py_max_iters c = ec_max_iters (pc_inner c)"

definition py_set_max_iters :: "nat \<Rightarrow> py_engine_config \<Rightarrow> py_engine_config" where
  "py_set_max_iters v c = c\<lparr>pc_inner := (pc_inner c)\<lparr>ec_max_iters := v\<rparr>\<rparr>"

record py_env =
  pe_inner :: env

definition py_env_new :: "u128 \<Rightarrow> u128 \<Rightarrow> u128 \<Rightarrow> u128 \<Rightarrow> py_env" where
  "py_env_new r c d m = \<lparr>pe_inner = \<lparr>run_id = r, config_hash = c, data_snapshot_id = d, rng_master_seed = m\<rparr>\<rparr>"

record py_engine_output =
  py_out_inner :: engine_output

definition py_f_best :: "py_engine_output \<Rightarrow> f64 option res" where
  "py_f_best o' = (case eo_f_best (py_out_inner o') of None \<Rightarrow> Inr None | Some [] \<Rightarrow> Inl Index_out_of_bounds
     | Some (f # _) \<Rightarrow> Inr (Some f))"

definition py_f_best_all :: "py_engine_output \<Rightarrow> f64 list option" where
  "py_f_best_all o' = eo_f_best (py_out_inner o')"

definition py_x_best :: "py_engine_output \<Rightarrow> int list option" where
  "py_x_best o' = eo_x_best (py_out_inner o')"

definition py_stats :: "py_engine_output \<Rightarrow> nat \<times> nat \<times> nat \<times> nat" where
  "py_stats o' = (let st = eo_stats (py_out_inner o') in
     (st_truth_evals st, st_partial_steps st, st_cheap_rejects st, st_invalid_eval_rejects st))"

subsection \<open>The evaluator\<close>

record 'v py_evaluator =
  pv_obj :: "'v py_object"
  pv_m :: nat
  pv_n_obj :: nat

definition py_cheap :: "'v pyo3 \<Rightarrow> 'v py_evaluator \<Rightarrow> xreal \<Rightarrow> bool" where
  "py_cheap P E x = (case po_cheap_constraints (pv_obj E) (as_f64_slice x) of
     Some result \<Rightarrow> (case py_bool P result of Some b \<Rightarrow> b | None \<Rightarrow> True) | None \<Rightarrow> True)"

text \<open>The objectives: a float, or else a list of floats.\<close>

definition py_objectives :: "'v pyo3 \<Rightarrow> 'v \<Rightarrow> f64 list res" where
  "py_objectives P v = (case py_float P v of Some single \<Rightarrow> Inr [single]
     | None \<Rightarrow> (case py_floats P v of Some fs \<Rightarrow> Inr fs | None \<Rightarrow> Inl Expect_failed))"

text \<open>The explicit \<open>panic!\<close> on the arity is an assertion.\<close>

definition py_sample :: "'v pyo3 \<Rightarrow> 'v py_evaluator \<Rightarrow> xreal \<Rightarrow> phi \<Rightarrow> nat \<Rightarrow> (objectives \<times> f64 list) res" where
  "py_sample P E x p k = (case po_mc_sample (pv_obj E) (as_f64_slice x) (phi_tau p) (phi_smc p) k of
     None \<Rightarrow> Inl Expect_failed
   | Some result \<Rightarrow> (case py_tuple P result of
       None \<Rightarrow> Inl Expect_failed
     | Some tup \<Rightarrow> if length tup \<noteq> 2 then Inl Assert_failed
         else res_bind (py_objectives P (tup ! 0)) (\<lambda>objs. case py_floats P (tup ! 1) of
             None \<Rightarrow> Inl Expect_failed | Some cons \<Rightarrow> Inr (ObjVec objs, cons))))"

definition py_search_dim :: "'v pyo3 \<Rightarrow> 'v py_evaluator \<Rightarrow> nat option" where
  "py_search_dim P E = (case po_search_dim (pv_obj E) of Some result \<Rightarrow> py_usize P result | None \<Rightarrow> None)"

definition py_typed :: "'v pyo3 \<Rightarrow> 'v py_evaluator \<Rightarrow> typed_evaluator" where
  "py_typed P E = \<lparr>te_cheap = (\<lambda>x _. Inr (py_cheap P E x)), te_mc_sample = (\<lambda>x p _ k. py_sample P E x p k),
     te_solver_bias = (\<lambda>_ _ _. Inr (default_solver_bias (ObjVec []) (pv_n_obj E) (pv_m E))),
     te_num_objectives = pv_n_obj E, te_num_constraints = pv_m E, te_search_dim = py_search_dim P E\<rparr>"

definition py_erased :: "'v pyo3 \<Rightarrow> 'v py_evaluator \<Rightarrow> evaluator" where
  "py_erased P E = erased (py_typed P E)"

subsection \<open>The engine object\<close>

record py_engine =
  pg_inner :: default_engine

definition py_engine_new :: py_engine where
  "py_engine_new = \<lparr>pg_inner = new_engine\<rparr>"

definition py_result :: "(engine_output \<times> default_engine) res option \<Rightarrow> (py_engine_output \<times> py_engine) res option" where
  "py_result r = (case r of None \<Rightarrow> None | Some q \<Rightarrow> Some (res_bind q (\<lambda>(out, eg). Inr (\<lparr>py_out_inner = out\<rparr>, \<lparr>pg_inner = eg\<rparr>))))"

definition py_run :: "extern \<Rightarrow> bool \<Rightarrow> batch_runner \<Rightarrow> py_engine_config \<Rightarrow> py_env \<Rightarrow> nat \<Rightarrow> py_engine \<Rightarrow>
    (py_engine_output \<times> py_engine) res option" where
  "py_run X threads pool cfg e workers g = py_result (host_engine_run X threads pool (pc_inner cfg) (pe_inner e) workers (pg_inner g))"

text \<open>
  \<open>Python::attach\<close> in the adapter: on the thread of \<open>run_with_evaluator\<close>, which is attached, it is a plain call; on a worker
  it waits for the interpreter's lock, and the attached thread is inside \<open>run_batch\<close> and does not detach. An item calls the
  evaluator exactly when neither cache has an answer and its point can be converted, so a batch with such an item hangs; what
  the pool does with any other batch is its own affair.
\<close>

definition calls_evaluator :: "extern \<Rightarrow> exec_ctx \<Rightarrow> caches \<Rightarrow> work_item \<Rightarrow> bool" where
  "calls_evaluator X ctx c wi \<longleftrightarrow> decision_cache_get (ch_decision c) (item_dkey ctx wi) = None
     \<and> eval_cache_get (ch_eval c) (item_ekey wi) = None \<and> mesh_to_real_aniso X (wi_x wi) (cx_base_steps ctx) \<noteq> None"

definition attached_pool :: "extern \<Rightarrow> batch_runner \<Rightarrow> batch_runner" where
  "attached_pool X pool ad ctx items c = (if \<exists>wi \<in> set items. calls_evaluator X ctx c wi then None else pool ad ctx items c)"

definition py_run_with_evaluator :: "'v pyo3 \<Rightarrow> extern \<Rightarrow> bool \<Rightarrow> batch_runner \<Rightarrow> py_engine_config \<Rightarrow> py_env \<Rightarrow> 'v py_object \<Rightarrow> nat \<Rightarrow> nat \<Rightarrow>
    nat \<Rightarrow> py_engine \<Rightarrow> (py_engine_output \<times> py_engine) res option" where
  "py_run_with_evaluator P X threads pool cfg e obj num_constraints workers num_objectives g =
     py_result (host_run X threads (attached_pool X pool) (pc_inner cfg) (pe_inner e) workers
       (py_erased P \<lparr>pv_obj = obj, pv_m = num_constraints, pv_n_obj = num_objectives\<rparr>) (pg_inner g))"

text \<open>An item that does not call the evaluator is answered without it.\<close>

lemma calls_evaluator_sound:
  assumes "\<not> calls_evaluator X ctx c wi"
  shows "execute_one X (ctx\<lparr>cx_evaluator := ev\<rparr>) wi c = execute_one X ctx wi c"
  using assms by (auto simp: calls_evaluator_def execute_one_def execute_miss_def item_dkey_def item_tag_def split: option.split)

lemma calls_evaluator_complete:
  assumes "calls_evaluator X ctx c wi" "\<And>x p e k. ev_mc_sample ev x p e k = Inl q"
  shows "execute_one X (ctx\<lparr>cx_evaluator := ev\<rparr>) wi c = Inl q"
proof -
  have "[0..<max (unat (phi_smc (wi_phi wi))) 1] \<noteq> []" by simp
  then obtain k ks where "[0..<max (unat (phi_smc (wi_phi wi))) 1] = k # ks" by (cases "[0..<max (unat (phi_smc (wi_phi wi))) 1]") auto
  then have "compute_estimates ev x (wi_phi wi) e = Inl q" for x e by (simp add: compute_estimates_def assms(2))
  with assms(1) show ?thesis
    by (auto simp: calls_evaluator_def execute_one_def execute_miss_def item_dkey_def item_tag_def split: option.split)
qed

subsection \<open>Evaluators that keep the protocol\<close>

text \<open>
  The protocol of the class \<open>Evaluator\<close>: \<open>mc_sample\<close> returns a pair of a float or a list of floats and a list of floats.
  The optional methods may be missing, raise, or return anything.
\<close>

definition py_protocol :: "'v pyo3 \<Rightarrow> 'v py_object \<Rightarrow> bool" where
  "py_protocol P obj \<longleftrightarrow> (\<forall>vals tau smc k. \<exists>r ob cons. po_mc_sample obj vals tau smc k = Some r \<and> py_tuple P r = Some [ob, cons]
     \<and> (py_float P ob \<noteq> None \<or> py_floats P ob \<noteq> None) \<and> py_floats P cons \<noteq> None)"

lemma py_sample_ok: "py_protocol P (pv_obj E) \<Longrightarrow> \<exists>r. py_sample P E x p k = Inr r"
proof -
  assume "py_protocol P (pv_obj E)"
  then obtain r ob cons where "po_mc_sample (pv_obj E) (as_f64_slice x) (phi_tau p) (phi_smc p) k = Some r"
    "py_tuple P r = Some [ob, cons]" "py_float P ob \<noteq> None \<or> py_floats P ob \<noteq> None" "py_floats P cons \<noteq> None"
    unfolding py_protocol_def by blast
  then show ?thesis by (cases "py_float P ob") (auto simp: py_sample_def py_objectives_def)
qed

lemma py_host: "py_protocol P (pv_obj E) \<Longrightarrow> host_evaluator (py_erased P E)"
proof (unfold_locales, unfold evaluator_total_def, intro conjI allI)
  fix x p e k assume "py_protocol P (pv_obj E)"
  then obtain r where "py_sample P E x p k = Inr r" using py_sample_ok by blast
  then show "\<exists>r. ev_mc_sample (py_erased P E) x p e k = Inr r" by (auto simp: py_erased_def erased_def py_typed_def)
qed (auto simp: py_erased_def erased_def py_typed_def)

lemma py_erased_fields [simp]: "ev_num_objectives (py_erased P E) = pv_n_obj E" "ev_search_dim (py_erased P E) = py_search_dim P E"
  by (simp_all add: py_erased_def erased_def py_typed_def)

text \<open>With empty caches a batch of points that can be converted calls the evaluator.\<close>

lemma attached_pool_hangs:
  assumes "items \<noteq> []" "\<forall>wi \<in> set items. mesh_to_real_aniso X (wi_x wi) (cx_base_steps ctx) \<noteq> None"
  shows "attached_pool X pool ad ctx items caches_empty = None"
  using assms by (cases items) (auto simp: attached_pool_def calls_evaluator_def caches_empty_def cache_empty_def decision_cache_get_def eval_cache_get_def cache_get_def)

text \<open>
  C11: a Python run returns exactly when it does not use the pool. For every preset name, every value given to \<open>max_iters\<close>
  (the setter checks nothing), every environment, and an evaluator object that keeps the protocol and is declared with at
  least one objective: in a build with threads, \<open>run_with_evaluator\<close> on a new engine with more than one worker never returns
  (unless there is no iteration to run), since the interpreter's lock is held while the workers wait for it. Otherwise it
  returns an output, the getter \<open>f_best\<close> does not panic and is the first of \<open>f_best_all\<close>, and \<open>f_best_all\<close> has the declared
  number of objectives, all finite.
\<close>

theorem py_run_returns:
  assumes "py_protocol P obj" "0 < n_obj" "v < 2 ^ 64" "preset_of_name name = Some p"
    and "\<And>d. py_search_dim P \<lparr>pv_obj = obj, pv_m = m, pv_n_obj = n_obj\<rparr> = Some d \<Longrightarrow> d < 2 ^ 63"
    and "extern_ok X" "ln_1p_bounded X"
  shows "\<exists>c. py_from_preset name = Inr (Inr c)
    \<and> (let run = py_run_with_evaluator P X threads pool (py_set_max_iters v c) e obj m workers n_obj py_engine_new in
       if threads \<and> 1 < workers \<and> 0 < v then run = None
       else \<exists>out g f. run = Some (Inr (out, g)) \<and> py_f_best out = Inr f \<and> f = map_option hd (py_f_best_all out)
         \<and> (py_x_best out = None \<longleftrightarrow> py_f_best_all out = None)
         \<and> (\<forall>fs. py_f_best_all out = Some fs \<longrightarrow> length fs = n_obj \<and> list_all is_finite fs))"
proof -
  let ?E = "\<lparr>pv_obj = obj, pv_m = m, pv_n_obj = n_obj\<rparr>"
  obtain cfg where cfg: "preset_config p = Inr cfg" using preset_ok by blast
  then have c: "py_from_preset name = Inr (Inr \<lparr>pc_inner = cfg\<rparr>)" by (simp add: py_from_preset_def assms(4))
  have host: "host_evaluator (py_erased P ?E)" using assms(1) by (intro py_host) simp
  have safe: "objective_safe (py_erased P ?E)" using assms(2) by (intro objective_safeI) simp
  have dims: "d < 2 ^ 63" if "ev_search_dim (py_erased P ?E) = Some d" for d using that assms(5) by simp
  let ?core = "host_run X threads (attached_pool X pool) (cfg\<lparr>ec_max_iters := v\<rparr>) (pe_inner e) workers (py_erased P ?E) new_engine"
  have run: "py_run_with_evaluator P X threads pool (py_set_max_iters v \<lparr>pc_inner = cfg\<rparr>) e obj m workers n_obj py_engine_new = py_result ?core"
    by (simp add: py_run_with_evaluator_def py_set_max_iters_def py_engine_new_def)
  show ?thesis
  proof (cases "threads \<and> 1 < workers \<and> 0 < v")
    case True
    have "?core = None"
      by (rule host_evaluator.fresh_host_hangs[OF host cfg assms(3) dims safe assms(6,7)]) (use True attached_pool_hangs in auto)
    with c run True show ?thesis by (simp add: Let_def py_result_def)
  next
    case False
    have "\<exists>out eg. ?core = Some (Inr (out, eg)) \<and> output_shape (ev_num_objectives (py_erased P ?E)) out"
      by (rule host_evaluator.fresh_host_run[OF host cfg assms(3) dims safe assms(6,7)]) (use False in auto)
    then obtain out eg where core: "?core = Some (Inr (out, eg))" and shape: "output_shape n_obj out" by auto
    have f: "py_f_best \<lparr>py_out_inner = out\<rparr> = Inr (map_option hd (eo_f_best out))"
      using shape assms(2) by (auto simp: py_f_best_def output_shape_def split: option.split list.split)
    show ?thesis
      by (rule exI[of _ "\<lparr>pc_inner = cfg\<rparr>"], simp only: Let_def run core c if_not_P[OF False] py_result_def option.case res_bind.simps prod.case,
        intro conjI exI[of _ "\<lparr>py_out_inner = out\<rparr>"] exI[of _ "\<lparr>pg_inner = eg\<rparr>"])
        (use shape f in \<open>simp_all add: py_f_best_all_def py_x_best_def output_shape_def\<close>)
  qed
qed

subsection \<open>A concrete object\<close>

datatype py_demo = Py_float f64 | Py_floats "f64 list" | Py_tuple "py_demo list"

definition pyo3_demo :: "py_demo pyo3" where
  "pyo3_demo = \<lparr>py_bool = (\<lambda>_. None), py_tuple = (\<lambda>v. case v of Py_tuple t \<Rightarrow> Some t | _ \<Rightarrow> None),
     py_float = (\<lambda>v. case v of Py_float f \<Rightarrow> Some f | _ \<Rightarrow> None), py_floats = (\<lambda>v. case v of Py_floats f \<Rightarrow> Some f | _ \<Rightarrow> None),
     py_usize = (\<lambda>_. None)\<rparr>"

definition py_object_demo :: "py_demo py_object" where
  "py_object_demo = \<lparr>po_cheap_constraints = (\<lambda>_. None),
     po_mc_sample = (\<lambda>x _ _ _. Some (Py_tuple [Py_floats [f_sum x, 1], Py_floats [0]])), po_search_dim = None\<rparr>"

definition pool_demo :: batch_runner where
  "pool_demo ad ctx items c = Some (run_batch_inline extern0 ctx items c)"

text \<open>One worker: a result with two objectives. Four workers: no return, though this pool returns every batch it gets.\<close>

theorem py_run_returns_witness:
  "\<exists>c out g. py_from_preset ''balanced'' = Inr (Inr c)
    \<and> py_run_with_evaluator pyo3_demo extern0 True pool_demo (py_set_max_iters 1000 c) (py_env_new 1 2 3 4) py_object_demo 1 1 2
        py_engine_new = Some (Inr (out, g))
    \<and> (\<forall>fs. py_f_best_all out = Some fs \<longrightarrow> length fs = 2 \<and> list_all is_finite fs)
    \<and> py_run_with_evaluator pyo3_demo extern0 True pool_demo (py_set_max_iters 1000 c) (py_env_new 1 2 3 4) py_object_demo 1 4 2
        py_engine_new = None"
proof -
  have h: "py_protocol pyo3_demo py_object_demo" "preset_of_name ''balanced'' = Some Balanced"
    "\<And>d. py_search_dim pyo3_demo \<lparr>pv_obj = py_object_demo, pv_m = 1, pv_n_obj = 2\<rparr> = Some d \<Longrightarrow> d < 2 ^ 63"
    by (simp_all add: py_protocol_def pyo3_demo_def py_object_demo_def preset_of_name_def py_search_dim_def)
  note run = py_run_returns[OF h(1) _ _ h(2,3) extern0_ok extern0_ln_1p, where v = 1000 and n_obj = 2 and m = 1 and pool = pool_demo and threads = True and e = "py_env_new 1 2 3 4"]
  from run[where workers = 1] run[where workers = 4] show ?thesis by (auto simp: Let_def)
qed

lemma presets_differ: "inj preset_config"
proof (rule injI)
  have key: "map_sum id ec_calibrator_min_audits (preset_config p) =
      Inr (case p of Legacy_baseline \<Rightarrow> 64 | Balanced \<Rightarrow> 15 | Conservative \<Rightarrow> 40 | Throughput \<Rightarrow> 10)" for p
    by (cases p) (simp_all add: preset_base_ok legacy_baseline_def balanced_def conservative_def throughput_def)
  fix p q assume "preset_config p = preset_config q"
  with key[of p] key[of q] show "p = q" by (cases p; cases q) simp_all
qed

text \<open>
  C40: the preset names. Parsing is the inverse of \<open>Preset::name\<close>: a name of the published list gives the configuration of
  that very preset, four different ones, each of which \<open>EngineConfig::new\<close> would accept whatever is then set as \<open>max_iters\<close>
  (setting it changes nothing else), and every other string is the error that names it; no name panics.
\<close>

theorem py_presets_roundtrip:
  "(\<forall>p. \<exists>cfg. preset_config p = Inr cfg \<and> py_from_preset (preset_name p) = Inr (Inr \<lparr>pc_inner = cfg\<rparr>)
      \<and> pc_inner (py_set_max_iters v \<lparr>pc_inner = cfg\<rparr>) = cfg\<lparr>ec_max_iters := v\<rparr>
      \<and> engine_cfg_new (cfg\<lparr>ec_max_iters := v\<rparr>) = Inr (cfg\<lparr>ec_max_iters := v\<rparr>) \<and> py_max_iters (py_set_max_iters v \<lparr>pc_inner = cfg\<rparr>) = v)
   \<and> inj preset_config
   \<and> set py_preset_names = range preset_name \<and> distinct py_preset_names
   \<and> py_from_preset ''legacy_baseline'' = res_bind legacy_baseline (\<lambda>cfg. Inr (Inr \<lparr>pc_inner = cfg\<rparr>))
   \<and> py_from_preset ''balanced'' = res_bind balanced (\<lambda>cfg. Inr (Inr \<lparr>pc_inner = cfg\<rparr>))
   \<and> py_from_preset ''conservative'' = res_bind conservative (\<lambda>cfg. Inr (Inr \<lparr>pc_inner = cfg\<rparr>))
   \<and> py_from_preset ''throughput'' = res_bind throughput (\<lambda>cfg. Inr (Inr \<lparr>pc_inner = cfg\<rparr>))
   \<and> (py_from_preset s = Inr (Inl (''Unknown preset: '' @ s)) \<longleftrightarrow> s \<notin> set py_preset_names)"
proof -
  have 1: "\<exists>cfg. preset_config p = Inr cfg \<and> py_from_preset (preset_name p) = Inr (Inr \<lparr>pc_inner = cfg\<rparr>)
      \<and> engine_cfg_new (cfg\<lparr>ec_max_iters := v\<rparr>) = Inr (cfg\<lparr>ec_max_iters := v\<rparr>)" for p
  proof -
    obtain cfg where cfg: "preset_config p = Inr cfg" using preset_ok by blast
    then show ?thesis using preset_accepted[OF cfg, of v] preset_of_name_inverse[of "preset_name p" p] by (simp add: py_from_preset_def)
  qed
  have univ: "set preset_all = UNIV" using preset.exhaust by (auto simp: preset_all_def)
  then have all: "set py_preset_names = range preset_name" by (simp add: py_preset_names_def)
  then have names: "s \<in> set py_preset_names \<longleftrightarrow> (\<exists>p. s = preset_name p)" by (simp add: image_iff)
  have "py_from_preset s = Inr (Inl (''Unknown preset: '' @ s)) \<longleftrightarrow> s \<notin> set py_preset_names"
  proof (cases "preset_of_name s")
    case None
    then have "s \<noteq> preset_name q" for q using preset_of_name_inverse[of s q] by simp
    with None names show ?thesis by (simp add: py_from_preset_def)
  next
    case (Some p)
    then have "s = preset_name p" by (simp add: preset_of_name_inverse)
    then show ?thesis using 1[of p] names by auto
  qed
  moreover have "distinct py_preset_names" by (simp add: py_preset_names_def preset_all_def)
  moreover have "inj preset_config" by (rule presets_differ)
  ultimately show ?thesis using 1 all by (simp add: py_from_preset_def preset_of_name_def py_set_max_iters_def py_max_iters_def)
qed

end
