(* ===== verification/Wasm.thy ===== *)
theory Wasm
  imports Bindings
begin

text \<open>
  \<open>imads-wasm/src/lib.rs\<close>: the component of the WASI bindings. The evaluator is a resource of the host, a parameter: its
  functions return numbers. Every call runs a preset on a fresh engine. The lemmas show that the two adapters split the host's
  flat answer correctly, and that the multi-objective run loses every result: its adapter declares no objective. Widths are
  those of a 64-bit target; on wasm32 a hashed length has four bytes, so the hashes are other numbers.
\<close>

subsection \<open>The interface types\<close>

datatype wit_preset = Wit_legacy_baseline | Wit_balanced | Wit_conservative | Wit_throughput

fun wit_preset_to_core :: "wit_preset \<Rightarrow> preset" where
  "wit_preset_to_core Wit_legacy_baseline = Legacy_baseline"
| "wit_preset_to_core Wit_balanced = Balanced"
| "wit_preset_to_core Wit_conservative = Conservative"
| "wit_preset_to_core Wit_throughput = Throughput"

record wit_env =
  we_run_id :: u64
  we_config_hash :: u64
  we_data_snapshot_id :: u64
  we_rng_master_seed :: u64

definition wit_env_to_core :: "wit_env \<Rightarrow> env" where
  "wit_env_to_core e = \<lparr>run_id = ucast (we_run_id e), config_hash = ucast (we_config_hash e),
     data_snapshot_id = ucast (we_data_snapshot_id e), rng_master_seed = ucast (we_rng_master_seed e)\<rparr>"

record wit_stats =
  ws_truth_evals :: nat
  ws_partial_steps :: nat
  ws_cheap_rejects :: nat
  ws_invalid_eval_rejects :: nat

record wit_output =
  wo_f_best :: "f64 list option"
  wo_x_best :: "int list option"
  wo_stats :: wit_stats

definition core_output_to_wit :: "engine_output \<Rightarrow> wit_output" where
  "core_output_to_wit out = \<lparr>wo_f_best = eo_f_best out, wo_x_best = eo_x_best out,
     wo_stats = \<lparr>ws_truth_evals = st_truth_evals (eo_stats out), ws_partial_steps = st_partial_steps (eo_stats out),
       ws_cheap_rejects = st_cheap_rejects (eo_stats out), ws_invalid_eval_rejects = st_invalid_eval_rejects (eo_stats out)\<rparr>\<rparr>"

text \<open>\<open>MultiOutput\<close> has the fields of \<open>Output\<close>.\<close>

definition core_output_to_multi_wit :: "engine_output \<Rightarrow> wit_output" where
  "core_output_to_multi_wit out = \<lparr>wo_f_best = eo_f_best out, wo_x_best = eo_x_best out,
     wo_stats = \<lparr>ws_truth_evals = st_truth_evals (eo_stats out), ws_partial_steps = st_partial_steps (eo_stats out),
       ws_cheap_rejects = st_cheap_rejects (eo_stats out), ws_invalid_eval_rejects = st_invalid_eval_rejects (eo_stats out)\<rparr>\<rparr>"

subsection \<open>The adapters\<close>

record wit_evaluator =
  wh_mc_sample :: "f64 list \<Rightarrow> u64 \<Rightarrow> u32 \<Rightarrow> nat \<Rightarrow> f64 list"
  wh_cheap_constraints :: "f64 list \<Rightarrow> bool"
  wh_num_constraints :: nat
  wh_search_dim :: "nat option"

record wit_adapter =
  wa_inner :: wit_evaluator
  wa_num_constraints :: nat
  wa_search_dim :: "nat option"

definition wit_adapt :: "wit_evaluator \<Rightarrow> wit_adapter" where
  "wit_adapt host = \<lparr>wa_inner = host, wa_num_constraints = wh_num_constraints host, wa_search_dim = wh_search_dim host\<rparr>"

text \<open>\<open>result[0]\<close> and \<open>result[1..]\<close>.\<close>

definition wit_split_single :: "f64 list \<Rightarrow> (objectives \<times> f64 list) res" where
  "wit_split_single result = (case result of [] \<Rightarrow> Inl Index_out_of_bounds | f # c \<Rightarrow> Inr (ObjScalar f, c))"

definition wit_single_typed :: "wit_adapter \<Rightarrow> typed_evaluator" where
  "wit_single_typed ad = \<lparr>te_cheap = (\<lambda>x _. Inr (wh_cheap_constraints (wa_inner ad) (as_f64_slice x))),
     te_mc_sample = (\<lambda>x p _ k. wit_split_single (wh_mc_sample (wa_inner ad) (as_f64_slice x) (phi_tau p) (phi_smc p) k)),
     te_solver_bias = (\<lambda>_ _ _. Inr (default_solver_bias (ObjScalar 0) 1 (wa_num_constraints ad))),
     te_num_objectives = 1, te_num_constraints = wa_num_constraints ad, te_search_dim = wa_search_dim ad\<rparr>"

text \<open>The constraints are the last \<open>m\<close> numbers, the objectives what is before them; \<open>-\<close> on \<open>nat\<close> is \<open>saturating_sub\<close>.\<close>

definition wit_split_multi :: "nat \<Rightarrow> f64 list \<Rightarrow> objectives \<times> f64 list" where
  "wit_split_multi m result = (let n_obj = length result - m in (ObjVec (take n_obj result), drop n_obj result))"

definition wit_multi_typed :: "wit_adapter \<Rightarrow> typed_evaluator" where
  "wit_multi_typed ad = \<lparr>te_cheap = (\<lambda>x _. Inr (wh_cheap_constraints (wa_inner ad) (as_f64_slice x))),
     te_mc_sample = (\<lambda>x p _ k. Inr (wit_split_multi (wa_num_constraints ad)
       (wh_mc_sample (wa_inner ad) (as_f64_slice x) (phi_tau p) (phi_smc p) k))),
     te_solver_bias = (\<lambda>_ _ _. Inr (default_solver_bias (ObjVec []) 0 (wa_num_constraints ad))),
     te_num_objectives = 0, te_num_constraints = wa_num_constraints ad, te_search_dim = wa_search_dim ad\<rparr>"

subsection \<open>The exported functions\<close>

definition wit_call :: "(engine_output \<Rightarrow> wit_output) \<Rightarrow> (engine_output \<times> default_engine) res option \<Rightarrow> wit_output res option" where
  "wit_call conv r = (case r of None \<Rightarrow> None | Some q \<Rightarrow> Some (res_bind q (\<lambda>(out, _). Inr (conv out))))"

definition wit_run :: "extern \<Rightarrow> bool \<Rightarrow> runner \<Rightarrow> wit_preset \<Rightarrow> wit_env \<Rightarrow> u32 \<Rightarrow> wit_output res option" where
  "wit_run X threads run preset e workers = (case preset_config (wit_preset_to_core preset) of Inl p \<Rightarrow> Some (Inl p)
     | Inr cfg \<Rightarrow> wit_call core_output_to_wit
         (engine_run X threads (default_search_ops X) run cfg (wit_env_to_core e) (unat workers) new_engine))"

definition wit_run_with_evaluator :: "extern \<Rightarrow> bool \<Rightarrow> runner \<Rightarrow> wit_preset \<Rightarrow> wit_env \<Rightarrow> u32 \<Rightarrow> wit_evaluator \<Rightarrow> wit_output res option" where
  "wit_run_with_evaluator X threads run preset e workers host = (case preset_config (wit_preset_to_core preset) of Inl p \<Rightarrow> Some (Inl p)
     | Inr cfg \<Rightarrow> wit_call core_output_to_wit (default_run X threads run cfg (wit_env_to_core e) (unat workers)
         (erased (wit_single_typed (wit_adapt host))) new_engine))"

definition wit_run_multi :: "extern \<Rightarrow> bool \<Rightarrow> runner \<Rightarrow> wit_preset \<Rightarrow> wit_env \<Rightarrow> u32 \<Rightarrow> wit_evaluator \<Rightarrow> wit_output res option" where
  "wit_run_multi X threads run preset e workers host = (case preset_config (wit_preset_to_core preset) of Inl p \<Rightarrow> Some (Inl p)
     | Inr cfg \<Rightarrow> wit_call core_output_to_multi_wit (default_run X threads run cfg (wit_env_to_core e) (unat workers)
         (erased (wit_multi_typed (wit_adapt host))) new_engine))"

subsection \<open>Splitting the host's answer\<close>

text \<open>A host that answers with its objective and as many constraints as it declares.\<close>

definition wit_host_ok :: "wit_evaluator \<Rightarrow> bool" where
  "wit_host_ok host \<longleftrightarrow> (\<forall>x tau smc k. wh_mc_sample host x tau smc k \<noteq> []) \<and> (\<forall>d. wh_search_dim host = Some d \<longrightarrow> d < 2 ^ 32)"

lemma wit_single_host: "wit_host_ok host \<Longrightarrow> host_evaluator (erased (wit_single_typed (wit_adapt host)))"
proof (unfold_locales, unfold evaluator_total_def, intro conjI allI)
  fix x p e k assume "wit_host_ok host"
  then have "wh_mc_sample host (as_f64_slice x) (phi_tau p) (phi_smc p) k \<noteq> []" unfolding wit_host_ok_def by blast
  then obtain f c where "wh_mc_sample host (as_f64_slice x) (phi_tau p) (phi_smc p) k = f # c" by (meson neq_Nil_conv)
  then show "\<exists>r. ev_mc_sample (erased (wit_single_typed (wit_adapt host))) x p e k = Inr r"
    by (auto simp: erased_def wit_single_typed_def wit_adapt_def wit_split_single_def)
qed (auto simp: erased_def wit_single_typed_def)

lemma wit_erased_fields [simp]:
  "ev_num_objectives (erased (wit_single_typed ad)) = 1" "ev_search_dim (erased (wit_single_typed ad)) = wa_search_dim ad"
  "ev_num_objectives (erased (wit_multi_typed ad)) = 0"
  by (simp_all add: erased_def wit_single_typed_def wit_multi_typed_def)

interpretation wit_multi_host: host_evaluator "erased (wit_multi_typed ad)" for ad
  by unfold_locales (auto simp: evaluator_total_def erased_def wit_multi_typed_def split: prod.split)

text \<open>
  The adapters invert the flat answer. When the host answers with its objectives followed by the \<open>m\<close> constraints it
  declares, the multi-objective adapter gives back exactly both parts and the single-objective one the objective and the
  constraints; only the empty answer makes the latter panic, and a short answer leaves the former without objectives.
\<close>

theorem wit_split_inverse:
  "wit_split_multi (length c) (f @ c) = (ObjVec f, c) \<and> wit_split_single (g # c) = Inr (ObjScalar g, c)
   \<and> ((\<exists>r. wit_split_single ys = Inr r) \<longleftrightarrow> ys \<noteq> [])
   \<and> (let (fs, cs) = wit_split_multi m ys in obj_as_slice fs @ cs = ys \<and> length cs = min m (length ys))"
  by (auto simp: wit_split_multi_def wit_split_single_def Let_def min_def split: list.split)

subsection \<open>Runs\<close>

text \<open>
  A single-objective run of the component returns. For every preset, environment and number of workers, a host that never
  answers with nothing gets an output, with one finite objective exactly when there is a point.
\<close>

theorem wit_run_returns:
  assumes "wit_host_ok host" "extern_ok X" "ln_1p_bounded X" "reliable_executor X run"
  shows "\<exists>out. wit_run_with_evaluator X threads run preset e workers host = Some (Inr out)
    \<and> (case wo_f_best out of None \<Rightarrow> wo_x_best out = None
       | Some f \<Rightarrow> wo_x_best out \<noteq> None \<and> length f = 1 \<and> list_all is_finite f)"
proof -
  obtain cfg where cfg: "preset_config (wit_preset_to_core preset) = Inr cfg" using preset_ok by blast
  have dim: "d < 2 ^ 63" if "ev_search_dim (erased (wit_single_typed (wit_adapt host))) = Some d" for d
  proof -
    have "d < 2 ^ 32" using that assms(1) by (simp add: wit_adapt_def wit_host_ok_def)
    then show ?thesis by simp
  qed
  from host_evaluator.fresh_preset_run[OF wit_single_host[OF assms(1)] cfg dim objective_safeI assms(2-4), where threads = threads and
      e = "wit_env_to_core e" and workers = "unat workers"]
  show ?thesis by (auto simp: wit_run_with_evaluator_def cfg wit_call_def core_output_to_wit_def output_shape_def split: option.split)
qed

definition wit_env_demo :: wit_env where
  "wit_env_demo = \<lparr>we_run_id = 1, we_config_hash = 2, we_data_snapshot_id = 3, we_rng_master_seed = 4\<rparr>"

definition wit_host_demo :: wit_evaluator where
  "wit_host_demo = \<lparr>wh_mc_sample = (\<lambda>x _ _ _. [f_sum x, 0, 0]), wh_cheap_constraints = (\<lambda>_. True), wh_num_constraints = 2,
     wh_search_dim = Some 2\<rparr>"

theorem wit_run_returns_witness:
  "\<exists>out. wit_run_with_evaluator extern0 False (inline_runner extern0) Wit_throughput wit_env_demo 1 wit_host_demo = Some (Inr out)
    \<and> (case wo_f_best out of None \<Rightarrow> wo_x_best out = None
       | Some f \<Rightarrow> wo_x_best out \<noteq> None \<and> length f = 1 \<and> list_all is_finite f)"
  by (rule wit_run_returns[OF _ extern0_ok extern0_ln_1p inline.reliable_executor_axioms]) (simp add: wit_host_ok_def wit_host_demo_def)

lemma preset_candidates: "preset_config p = Inr cfg \<Longrightarrow> 0 < ec_candidates_per_iter cfg"
  by (cases p) (auto simp: preset_base_ok legacy_baseline_def balanced_def conservative_def throughput_def preset_base_args_def)

text \<open>
  C10: the multi-objective run of the component loses its results. Its adapter declares no objectives ("return 0 to let the
  engine determine"), and the engine takes that literally. Whatever the host answers, an output carries no objective value,
  and there is an output only when nothing was accepted before the last iteration: an iteration that starts with an
  incumbent panics when it indexes the incumbent's first objective.
\<close>

theorem wit_multi_loses_results:
  assumes "executor_contract X run" "preset_config (wit_preset_to_core preset) = Inr cfg"
    and "wit_run_multi X threads run preset e workers host = Some (Inr out)"
  shows "(wo_f_best out = None \<or> wo_f_best out = Some [])
    \<and> (\<exists>rn rs. engine_init X threads (default_search_ops X) cfg (wit_env_to_core e) (unat workers)
          (erased (wit_multi_typed (wit_adapt host))) new_engine = Inr (rn, rs)
        \<and> (\<forall>k rs'. k < ec_max_iters cfg \<longrightarrow> iterations X (default_search_ops X) run rn [0..<k] rs = Some (Inr rs') \<longrightarrow> rs_f_best rs' = None))"
proof -
  let ?ev = "erased (wit_multi_typed (wit_adapt host))"
  obtain o' eg' where run: "default_run X threads run cfg (wit_env_to_core e) (unat workers) ?ev new_engine = Some (Inr (o', eg'))"
    and out: "out = core_output_to_multi_wit o'"
    using assms(3) by (auto simp: wit_run_multi_def assms(2) wit_call_def res_bind_Inr split: option.splits)
  have "output_shape 0 o'" using run_shape[OF assms(1) new_engine_ok(2) run] by simp
  then have 1: "wo_f_best out = None \<or> wo_f_best out = Some []" by (cases "eo_f_best o'") (auto simp: output_shape_def out core_output_to_multi_wit_def)
  obtain rn rs where i: "engine_init X threads (default_search_ops X) cfg (wit_env_to_core e) (unat workers) ?ev new_engine = Inr (rn, rs)"
    using run by (auto simp: run_with_evaluator_def split: sum.splits prod.splits)
  have "rs_f_best rs' = None" if "k < ec_max_iters cfg" "iterations X (default_search_ops X) run rn [0..<k] rs = Some (Inr rs')" for k rs'
    by (rule no_objective_run[OF assms(1) new_engine_ok(2) run _ preset_candidates[OF assms(2)] i that]) simp
  with 1 i show ?thesis by blast
qed

text \<open>A host whose constraint is never a number: every evaluation is invalid, so its run returns, with nothing found.\<close>

definition wit_nan_host :: wit_evaluator where
  "wit_nan_host = \<lparr>wh_mc_sample = (\<lambda>_ _ _ _. [F64 False 9221120237041090560]), wh_cheap_constraints = (\<lambda>_. True),
     wh_num_constraints = 1, wh_search_dim = Some 2\<rparr>"

lemma wit_nan_no_estimate: "compute_estimates (erased (wit_multi_typed (wit_adapt wit_nan_host))) x p e = Inr None"
proof -
  have "[0..<max (unat (phi_smc p)) 1] = 0 # [1..<max (unat (phi_smc p)) 1]" by (simp add: upt_conv_Cons)
  then show ?thesis
    by (simp add: compute_estimates_def erased_def wit_multi_typed_def wit_adapt_def wit_nan_host_def wit_split_multi_def
        erase_obj_def get_or_def get_def is_finite_def INF_MAG_def)
qed

theorem wit_multi_loses_results_witness:
  "\<exists>cfg out rn rs. preset_config Balanced = Inr cfg
    \<and> wit_run_multi extern0 False (inline_runner extern0) Wit_balanced wit_env_demo 1 wit_nan_host = Some (Inr out)
    \<and> (wo_f_best out = None \<or> wo_f_best out = Some [])
    \<and> engine_init extern0 False (default_search_ops extern0) cfg (wit_env_to_core wit_env_demo) 1
        (erased (wit_multi_typed (wit_adapt wit_nan_host))) new_engine = Inr (rn, rs)"
proof -
  obtain cfg where cfg: "preset_config Balanced = Inr cfg" using preset_ok by blast
  have safe: "objective_safe (erased (wit_multi_typed (wit_adapt wit_nan_host)))" by (simp add: objective_safe_def wit_nan_no_estimate)
  have dim: "d < 2 ^ 63" if "ev_search_dim (erased (wit_multi_typed (wit_adapt wit_nan_host))) = Some d" for d
    using that by (simp add: erased_def wit_multi_typed_def wit_adapt_def wit_nan_host_def)
  obtain o' eg' where "default_run extern0 False (inline_runner extern0) cfg (wit_env_to_core wit_env_demo) 1
      (erased (wit_multi_typed (wit_adapt wit_nan_host))) new_engine = Some (Inr (o', eg'))"
    using wit_multi_host.fresh_preset_run[OF cfg, of "wit_adapt wit_nan_host", OF dim safe extern0_ok extern0_ln_1p
        inline.reliable_executor_axioms, where threads = False and workers = 1 and e = "wit_env_to_core wit_env_demo"] by blast
  note d = this
  have cfg': "preset_config (wit_preset_to_core Wit_balanced) = Inr cfg" using cfg by simp
  have run: "wit_run_multi extern0 False (inline_runner extern0) Wit_balanced wit_env_demo 1 wit_nan_host
      = Some (Inr (core_output_to_multi_wit o'))"
    by (simp only: wit_run_multi_def wit_call_def cfg' sum.case unat_1 d option.case res_bind.simps prod.case)
  from wit_multi_loses_results[OF inline_contract cfg' run] obtain rn rs where
    "wo_f_best (core_output_to_multi_wit o') = None \<or> wo_f_best (core_output_to_multi_wit o') = Some []"
    "engine_init extern0 False (default_search_ops extern0) cfg (wit_env_to_core wit_env_demo) 1
        (erased (wit_multi_typed (wit_adapt wit_nan_host))) new_engine = Inr (rn, rs)" by auto
  with cfg run show ?thesis by blast
qed

end
