(* ===== verification/Spec2Isabelle.thy ===== *)
theory Spec2Isabelle
  imports Pool_Liveness Mesh_Roundtrip Ffi_Props Py Wasm
begin

text \<open>
  \<^bold>\<open>A verification development for imads.\<close>

  imads is a mesh adaptive direct search over noisy black boxes: an engine proposes points of an integer mesh, evaluates
  them at increasing fidelity (solver tolerance and Monte Carlo sample count), cuts candidates early when a calibrated
  margin says they are infeasible, audits some of those cuts, and accepts only results of the highest fidelity, TRUTH,
  into a filter under a progressive barrier. The development models the library \<open>imads-core\<close> (\<open>src/imads-core/src\<close>) and its
  bindings (\<open>src/imads-ffi\<close>, \<open>src/imads-py\<close>, \<open>src/imads-wasm\<close>); each theory names the file it models and keeps the names of its functions, types and fields (fields with a prefix per record).

  \<^bold>\<open>The program and its theories, bottom up.\<close>

  \<^item> \<open>Prelude\<close>: machine integers, panics as values (\<open>panic\<close>, \<open>res\<close>), the operations of vectors and slices, stable sorting.
  \<^item> \<open>Float64\<close>, \<open>Magnitude\<close>: IEEE 754 binary64 computed exactly, its order and rounding, and bounds on magnitudes that show
    that an expression of the code neither overflows nor becomes NaN.
  \<^item> \<open>Hashing\<close>, \<open>Types\<close>: \<open>types.rs\<close>, its data and the FNV hash of environments and of audit draws; the record \<open>extern\<close> of
    what is outside the repository.
  \<^item> \<open>Mesh\<close>: the mesh geometries of \<open>types.rs\<close> and the poll set of \<open>core/poll.rs\<close>. \<open>Mesh_Roundtrip\<close>: the relative error of
    rounding, and that quantisation inverts the map to continuous space.
  \<^item> \<open>Acceptance\<close>: \<open>core/acceptance.rs\<close>. \<open>Ladder\<close>: \<open>policies/ladder.rs\<close> and the ladder helpers of \<open>core/engine.rs\<close>.
    \<open>Calibrator\<close>: \<open>policies/calibrator.rs\<close>. \<open>Margin\<close>: \<open>policies/margin.rs\<close>. \<open>Policies\<close>: \<open>policies/scheduler.rs\<close> and
    \<open>policies/audit.rs\<close>. \<open>Dids\<close>: \<open>policies/dids.rs\<close>. \<open>Cache\<close>: \<open>backends/cache.rs\<close>.
  \<^item> \<open>Config\<close>: \<open>EngineConfig\<close> with its validation and the presets of \<open>presets.rs\<close>.
  \<^item> \<open>Search\<close>, \<open>Stratified\<close>: \<open>policies/search.rs\<close> and \<open>policies/stratified_search.rs\<close>, the two search policies.
  \<^item> \<open>Evaluator\<close>, \<open>Executor\<close>: \<open>core/evaluator.rs\<close> and the sequential part of \<open>core/executor.rs\<close> (the estimator, one work item
    through both caches, the inline and the adaptive executor). \<open>Pool\<close>, \<open>Pool_Liveness\<close>: the worker pool of
    \<open>core/executor.rs\<close> as a step relation, one step per access to shared state.
  \<^item> \<open>Materialize\<close>, \<open>Engine\<close>: \<open>core/engine.rs\<close>: a work item's outcome turned into a job result and a move of its candidate,
    then the run (\<open>engine_init\<close>, \<open>propose_step\<close>, \<open>poll_inject\<close>, \<open>dispatch\<close>, \<open>run_batch_step\<close>, \<open>batch_boundary\<close>,
    \<open>inner_loop\<close>, \<open>end_iteration\<close>, \<open>run_with_evaluator\<close>).
  \<^item> \<open>Engine_Run\<close>, \<open>Engine_Total\<close>, \<open>Engine_Reach\<close>, \<open>Step_Props\<close>, \<open>Engine_Props\<close>: invariants of a run, totality, the states
    a run reaches, and the properties of steps and of whole runs.
  \<^item> \<open>Blocking\<close>: the run on the executor the bindings create, \<open>AdaptiveExecutor\<close>: inline for at most one worker or without
    threads, the pool otherwise, where a batch may never return (\<open>batch_runner\<close>, \<open>adaptive_run_batch\<close>, \<open>blocking_run\<close>).
  \<^item> \<open>Bindings\<close>: what the bindings share, among it what becomes of an evaluator that declares no objective. \<open>Ffi\<close>: the C
    interface (\<open>imads-ffi/src/lib.rs\<close>, re-exported by \<open>imads-jvm\<close>) over a heap of handles and arrays; \<open>Ffi_Session\<close>: its
    clients as a transition relation; \<open>Ffi_Props\<close>: what a client reads. \<open>Py\<close>: \<open>imads-py/src/lib.rs\<close>. \<open>Wasm\<close>:
    \<open>imads-wasm/src/lib.rs\<close>.

  \<^bold>\<open>How the parts interact.\<close> A run configures the policies, builds the ladder and the mesh, then iterates. Each iteration
  asks the search policy for points (\<open>search_ops\<close>), enters them in the candidate store, and loops: the scheduler picks ready
  candidates, the executor evaluates the batch through the shared caches, every outcome is materialised (cheap gate, margin
  test, audit, promotion stop), TRUTH results go to acceptance, and at the batch boundary the calibrator digests the events,
  the assignment is recomputed and the policy revision, part of the key of the decision cache, is bumped when either changes.
  With nothing ready the poll points are injected once; an iteration without improvement refines the mesh and lowers the
  barrier.

  \<^bold>\<open>Interfaces.\<close> One locale per contract, each interpreted on the code's model in the theory that provides it: the
  acceptance policy, the ladder, the calibrators (with their revision discipline), the assignment, the scheduler, the audit
  selection, the caches, \<open>search_policy\<close> (by \<open>DefaultSearch\<close> and by \<open>StratifiedSearch\<close>), \<open>executor_contract\<close>
  and \<open>reliable_executor\<close> (by the inline executor), \<open>host_evaluator\<close> (by the built-in evaluator and the adapters of the
  bindings), \<open>agreeing\<close> (two executors that differ only where one hangs: by the markings of a hanging batch and by the
  inline executor on an inline variant), and \<open>releasing\<close> (by the four release functions of the C interface). A pool
  whose batches return by its step relation (\<open>pool_answers\<close>) gives a \<open>reliable_executor\<close> for the batches that return. The engine's lemmas rest on these contracts only.

  \<^bold>\<open>What is shown.\<close> Over whole runs: every run ends, no accepted configuration panics, the reported values are the TRUTH
  evaluation of the reported point within the barrier and are independent of the caches, the policy revision identifies the
  policy, the statistics count every outcome once. For the pool: under every interleaving the unsafe slot read is defined
  and a batch agrees with the inline executor; a completion signal can be lost, nothing else blocks a batch, and dropping a
  pool never ends its threads. For the calibrator: it never panics on a valid slack range, its counts are an exact ledger of
  the audits, and published thresholds change only with the revision. Below that: margin tests are conservative, early cuts
  respect the assignment and its alarms, the filter is a capped antichain, the barrier progressive, the incumbent a minimum;
  ladder, audit checkpoints, mesh refinement, the round trip of quantisation for an arbitrary base step, poll set, estimator, audit draws, configuration checks and
  presets behave as specified, with the exact conditions under which the code panics. For the bindings: an obedient C client never meets undefined
  behaviour and leaks no cell of the interface's heap, what it reads is the library's output field by field, the program of the
  guide ends well unless it hangs in the pool; a Python run with an evaluator that keeps the protocol returns with at most one
  worker and deadlocks with more; the multi-objective WebAssembly run loses its results. Some
  properties state behaviour that departs from the documentation; their texts say so.

  \<^bold>\<open>Conventions.\<close> A panic is \<open>Inl\<close> of its kind, so that every \<open>unwrap\<close>, \<open>expect\<close>, \<open>assert\<close>, index, \<open>clamp\<close> and remainder of the
  code is a branch. \<open>u64\<close> and \<open>u128\<close> that wrap are words, \<open>i64\<close> is \<open>int\<close> with the wrap written out, counters and indices are
  \<open>nat\<close>. Overflow is that of a release build. All NaNs are one value. Condition variables may wake spuriously where a flag
  says so, and accesses to atomics are sequentially consistent. A cache whose mutex
  is poisoned answers nothing and stores nothing.

  \<^bold>\<open>Blocking.\<close> The runs of \<open>Engine\<close> take an executor whose batches return; \<open>blocking_run\<close> takes one whose batches may hang
  (\<open>None\<close>) and hangs with them, by following a mark through the run. The pool under it is a parameter, tied to the step relation
  of \<open>Pool\<close> by \<open>pool_answers\<close> where a theorem needs it. In Python the interpreter's lock is part of the model: a batch on the pool
  that needs the evaluator hangs (\<open>attached_pool\<close>). Worker threads that a dropped engine leaves behind (\<open>drop_leaks_workers\<close>)
  hold only memory of the pool, which the heap of the C interface does not contain.

  \<^bold>\<open>Loops, bounds and fuel.\<close> No definition has fuel. \<open>inner_loop\<close> is a partial function and \<open>run_ends\<close> shows that it returns: each
  turn injects the poll points once or moves every dispatched candidate, and \<open>work_left\<close> bounds these moves. The Halton loop
  is \<open>None\<close> for a base below 2, which no call has. Hypotheses on machine ranges (\<open>cfg_in_range\<close>) say that lengths and counters
  fit their types; a base step above \<open>2 ^ 800\<close> is excluded because the search radius then overflows and the projection of a
  proposal panics. The round trip of quantisation takes base steps from \<open>2 ^ -500\<close> to \<open>2 ^ 500\<close>, so that neither the step's
  inverse nor a product leaves the range of normal numbers, and at most \<open>2 ^ 49\<close> multiplier steps, so that four relative errors
  of \<open>2 ^ -53\<close> stay below one half.

  \<^bold>\<open>Not modelled.\<close> \<open>exp\<close>, \<open>ln\<close>, \<open>ln_1p\<close> and the crate \<open>typed_floats\<close> are parameters (\<open>extern\<close>) with their documented behaviour
  as hypotheses. The evaluator is a parameter; \<open>ToyEvaluator\<close> is modelled. The engine is modelled for the default policies
  except the search policy and the executor, which are arbitrary; \<open>PolicyBundle\<close> and the constructors of custom bundles are
  only types and field initialisation. The two calibrators of the code repeat their common functions; the model has them
  once. Of the bindings, the callbacks and what PyO3 and the component runtime convert are parameters (an out-of-bounds write of a
  C callback is its own fault and not represented), and \<open>imads-jvm\<close> is one re-export. Human-readable texts (\<open>Debug\<close>,
  \<open>Display\<close>, \<open>__repr__\<close>, descriptions), the module registration of Python, benches, examples and tests are left out.
\<close>

end
